(* ===== verification/Prelude.thy ===== *)
theory Prelude
  imports Main "HOL-Library.Word" "HOL-Library.Monad_Syntax"
begin

text \<open>
  Shared vocabulary of the development: the fixed-width integer types of the
  firmware, C memory as byte lists with checked accesses, the alignment macro
  of RT-Thread, and the little-endian layout of the RV32 target.  The option
  monad carries undefined behaviour: \<^term>\<open>None\<close> is an access outside an
  allocation, a failed assertion or a dereference of the null pointer.
\<close>

unbundle bit_operations_syntax

type_synonym u8 = "8 word"
type_synonym u16 = "16 word"
type_synonym u32 = "32 word"
type_synonym bytes = "8 word list"

named_theorems cmem \<open>rules for checked accesses to C memory\<close>
named_theorems layout \<open>lengths and shapes of serialised structures\<close>

section \<open>Checked memory accesses\<close>

definition mem_read :: "'a list \<Rightarrow> nat \<Rightarrow> nat \<Rightarrow> 'a list option" where
  "mem_read b i n = (if i + n \<le> length b then Some (take n (drop i b)) else None)"

definition mem_write :: "'a list \<Rightarrow> nat \<Rightarrow> 'a list \<Rightarrow> 'a list option" where
  "mem_write b i d =
     (if i + length d \<le> length b then Some (take i b @ d @ drop (i + length d) b) else None)"

definition mem_get :: "'a list \<Rightarrow> nat \<Rightarrow> 'a option" where
  "mem_get b i = (if i < length b then Some (b ! i) else None)"

definition c_assert :: "bool \<Rightarrow> unit option" where
  "c_assert b = (if b then Some () else None)"

lemma mem_read_Some [cmem]:
  "i + n \<le> length b \<Longrightarrow> mem_read b i n = Some (take n (drop i b))"
  by (simp add: mem_read_def)

lemma mem_read_eq_Some:
  "mem_read b i n = Some d \<longleftrightarrow> i + n \<le> length b \<and> d = take n (drop i b)"
  by (auto simp: mem_read_def)

lemma mem_read_length: "mem_read b i n = Some d \<Longrightarrow> length d = n"
  by (auto simp: mem_read_eq_Some)

lemma mem_write_Some [cmem]:
  "i + length d \<le> length b \<Longrightarrow>
     mem_write b i d = Some (take i b @ d @ drop (i + length d) b)"
  by (simp add: mem_write_def)

lemma mem_write_eq_Some:
  "mem_write b i d = Some b' \<longleftrightarrow>
     i + length d \<le> length b \<and> b' = take i b @ d @ drop (i + length d) b"
  by (auto simp: mem_write_def)

lemma mem_write_length [layout]: "mem_write b i d = Some b' \<Longrightarrow> length b' = length b"
  by (auto simp: mem_write_eq_Some)

lemma blit_nth:
  assumes "i + length d \<le> length b" "j < length b"
  shows "(take i b @ d @ drop (i + length d) b) ! j =
           (if i \<le> j \<and> j < i + length d then d ! (j - i) else b ! j)"
  using assms by (auto simp: nth_append)

lemma mem_write_nth:
  assumes "mem_write b i d = Some b'" "j < length b"
  shows "b' ! j = (if i \<le> j \<and> j < i + length d then d ! (j - i) else b ! j)"
  using assms blit_nth by (fastforce simp: mem_write_eq_Some)

lemma mem_read_append_mid [cmem]:
  "length p = i \<Longrightarrow> length d = n \<Longrightarrow> mem_read (p @ d @ s) i n = Some d"
  by (simp add: mem_read_def)

lemma c_assert_Some [simp]: "c_assert b = Some u \<longleftrightarrow> b"
  by (simp add: c_assert_def)

lemma c_assert_True [simp]: "c_assert True = Some ()"
  by (simp add: c_assert_def)

section \<open>Alignment\<close>

text \<open>RT_ALIGN(n, 4) and RT_ALIGN_DOWN(n, 4) of rtdef.h, before truncation.\<close>

definition align4 :: "nat \<Rightarrow> nat" where
  "align4 n = (n + 3) div 4 * 4"

definition align_down4 :: "nat \<Rightarrow> nat" where
  "align_down4 n = n div 4 * 4"

text \<open>Truncation to an unsigned short.\<close>

definition to_u16 :: "nat \<Rightarrow> nat" where
  "to_u16 n = n mod 65536"

lemma dvd4_Suc [simp]: "4 dvd Suc (Suc (Suc (Suc n))) \<longleftrightarrow> 4 dvd n"
  by presburger

lemma align4_dvd [simp]: "4 dvd align4 n"
  by (simp add: align4_def)

lemma align4_ge: "n \<le> align4 n"
  by (simp add: align4_def)

lemma align4_lt: "align4 n < n + 4"
  by (simp add: align4_def)

lemma align4_id [simp]: "4 dvd n \<Longrightarrow> align4 n = n"
  by (auto simp: align4_def)

lemma align4_idem [simp]: "align4 (align4 n) = align4 n"
  by simp

lemma align4_0_iff [simp]: "align4 n = 0 \<longleftrightarrow> n = 0"
  by (auto simp: align4_def)

lemma align_down4_le: "align_down4 n \<le> n"
  by (simp add: align_down4_def)

lemma align_down4_dvd [simp]: "4 dvd align_down4 n"
  by (simp add: align_down4_def)

lemma to_u16_id [simp]: "n < 65536 \<Longrightarrow> to_u16 n = n"
  by (simp add: to_u16_def)

lemma to_u16_bound: "to_u16 n < 65536"
  by (simp add: to_u16_def)

section \<open>Digits and small words\<close>

lemma horner:
  fixes a m x :: nat
  assumes "a < m"
  shows "(a + m * x) div m = x" "(a + m * x) mod m = a"
  using assms by simp_all

lemma unat_of_nat16: "n < 65536 \<Longrightarrow> unat (of_nat n :: u16) = n"
  by (simp add: unsigned_of_nat take_bit_nat_eq_self)

lemma unat_of_nat8 [simp]: "n < 256 \<Longrightarrow> unat (of_nat n :: u8) = n"
  by (simp add: unsigned_of_nat take_bit_nat_eq_self)

section \<open>Little-endian layout\<close>

definition le16 :: "u16 \<Rightarrow> bytes" where
  "le16 w = [ucast w, ucast (drop_bit 8 w)]"

definition le32 :: "u32 \<Rightarrow> bytes" where
  "le32 w = [ucast w, ucast (drop_bit 8 w), ucast (drop_bit 16 w), ucast (drop_bit 24 w)]"

fun un_le16 :: "bytes \<Rightarrow> u16" where
  "un_le16 (a # b # _) = ucast a OR push_bit 8 (ucast b)"
| "un_le16 _ = 0"

fun un_le32 :: "bytes \<Rightarrow> u32" where
  "un_le32 (a # b # c # d # _) =
     ucast a OR push_bit 8 (ucast b) OR push_bit 16 (ucast c) OR push_bit 24 (ucast d)"
| "un_le32 _ = 0"

lemma le16_length [simp, layout]: "length (le16 w) = 2"
  by (simp add: le16_def)

lemma le32_length [simp, layout]: "length (le32 w) = 4"
  by (simp add: le32_def)

lemma le_not_Nil [simp]: "le16 v \<noteq> []" "le32 w \<noteq> []"
  by (simp_all add: le16_def le32_def)

lemma un_le16_le16 [simp]: "un_le16 (le16 w @ r) = w"
  by (rule bit_word_eqI)
    (auto simp: le16_def bit_simps not_less)

lemma un_le32_le32 [simp]: "un_le32 (le32 w @ r) = w"
proof (rule bit_word_eqI)
  fix n assume "n < LENGTH(32)"
  then consider "n < 8" | "8 \<le> n" "n < 16" | "16 \<le> n" "n < 24" | "24 \<le> n" "n < 32"
    by force
  then show "bit (un_le32 (le32 w @ r)) n \<longleftrightarrow> bit w n"
    by cases (auto simp: le32_def bit_simps)
qed

lemmas un_le16_le16_nil [simp] = un_le16_le16 [where r = "[]", simplified]
lemmas un_le32_le32_nil [simp] = un_le32_le32 [where r = "[]", simplified]

definition read_u16 :: "bytes \<Rightarrow> nat \<Rightarrow> u16 option" where
  "read_u16 b i = map_option un_le16 (mem_read b i 2)"

definition read_u32 :: "bytes \<Rightarrow> nat \<Rightarrow> u32 option" where
  "read_u32 b i = map_option un_le32 (mem_read b i 4)"

section \<open>Runs of operations\<close>

text \<open>A sequence of fallible operations, stopping at the first fault.\<close>

fun run_steps :: "('o \<Rightarrow> 's \<Rightarrow> 's option) \<Rightarrow> 'o list \<Rightarrow> 's \<Rightarrow> 's option" where
  "run_steps step [] s = Some s"
| "run_steps step (c # cs) s = do { s' \<leftarrow> step c s; run_steps step cs s' }"

text \<open>
  The contract between a component and its specification: whenever a state represents
  an abstract value and the operation is admissible there, the operation does not fault
  and its result represents the specified value.  Whole runs then follow.
\<close>

locale simulation =
  fixes rep :: "'s \<Rightarrow> 'a \<Rightarrow> bool"
    and pre :: "'o \<Rightarrow> 'a \<Rightarrow> bool"
    and step :: "'o \<Rightarrow> 's \<Rightarrow> 's option"
    and spec :: "'o \<Rightarrow> 'a \<Rightarrow> 'a"
  assumes step_sim: "rep s a \<Longrightarrow> pre c a \<Longrightarrow> \<exists>s'. step c s = Some s' \<and> rep s' (spec c a)"
begin

fun admissible :: "'o list \<Rightarrow> 'a \<Rightarrow> bool" where
  "admissible [] a \<longleftrightarrow> True"
| "admissible (c # cs) a \<longleftrightarrow> pre c a \<and> admissible cs (spec c a)"

lemma run_sim:
  "rep s a \<Longrightarrow> admissible cs a \<Longrightarrow> \<exists>s'. run_steps step cs s = Some s' \<and> rep s' (fold spec cs a)"
proof (induction cs arbitrary: s a)
  case (Cons c cs)
  then obtain s' where "step c s = Some s'" "rep s' (spec c a)" using step_sim by fastforce
  then show ?case using Cons.IH [of s' "spec c a"] Cons.prems by simp
qed simp

lemma run_total:
  assumes "rep s a" "\<And>c a. c \<in> set cs \<Longrightarrow> pre c a"
  shows "\<exists>s'. run_steps step cs s = Some s' \<and> rep s' (fold spec cs a)"
proof -
  have "admissible cs a" using assms(2) by (induction cs arbitrary: a) auto
  then show ?thesis using run_sim [OF assms(1)] by blast
qed

end

end
