(* ===== verification/RingBuffer.thy ===== *)
theory RingBuffer
  imports Prelude
begin

text \<open>
  The mirrored ring buffer the gateway and the access point share: the
  structure and its length computations from
  rt-thread/components/drivers (ringbuffer.h, ringbuffer.c) and the aligned
  put and get of PS/app/src/uc_wiota_spi_com.c.  The locale \<open>byte_fifo\<close> is the
  contract the framing layer relies on; it is interpreted on these operations.
\<close>

section \<open>Structure and operations\<close>

text \<open>
  A ring is a window of \<open>buffer_size\<close> bytes at the start of the array
  \<open>buffer_ptr\<close> points to, which may be longer (ul_buf keeps the frame number in
  its last word).  The indices are 15-bit fields and the mirrors 1-bit fields;
  the size is a positive rt_int16_t, so below 32768.
\<close>

record rt_ringbuffer =
  buffer_ptr :: bytes
  read_mirror :: bool
  read_index :: nat
  write_mirror :: bool
  write_index :: nat
  buffer_size :: nat

datatype rt_ringbuffer_state = RT_RINGBUFFER_EMPTY | RT_RINGBUFFER_FULL | RT_RINGBUFFER_HALFFULL

definition idx15 :: "nat \<Rightarrow> nat" where
  "idx15 n = n mod 32768"

definition rt_ringbuffer_status :: "rt_ringbuffer \<Rightarrow> rt_ringbuffer_state" where
  "rt_ringbuffer_status rb =
     (if read_index rb = write_index rb then
        if read_mirror rb = write_mirror rb then RT_RINGBUFFER_EMPTY else RT_RINGBUFFER_FULL
      else RT_RINGBUFFER_HALFFULL)"

text \<open>The result is an rt_size_t: the subtraction wraps at 32 bits.\<close>

definition rt_ringbuffer_data_len :: "rt_ringbuffer \<Rightarrow> nat" where
  "rt_ringbuffer_data_len rb =
     (case rt_ringbuffer_status rb of
        RT_RINGBUFFER_EMPTY \<Rightarrow> 0
      | RT_RINGBUFFER_FULL \<Rightarrow> buffer_size rb
      | RT_RINGBUFFER_HALFFULL \<Rightarrow>
          if write_index rb > read_index rb then write_index rb - read_index rb
          else nat ((int (buffer_size rb) - (int (read_index rb) - int (write_index rb))) mod 2 ^ 32))"

definition rt_ringbuffer_space_len :: "rt_ringbuffer \<Rightarrow> nat" where
  "rt_ringbuffer_space_len rb =
     nat ((int (buffer_size rb) - int (rt_ringbuffer_data_len rb)) mod 2 ^ 32)"

definition uc_wiota_ringbuffer_init :: "nat \<Rightarrow> bytes \<Rightarrow> rt_ringbuffer option" where
  "uc_wiota_ringbuffer_init rb_size buf = do {
     c_assert (rb_size > 0);
     let bsize = align_down4 rb_size;
     buf' \<leftarrow> mem_write buf 0 (replicate bsize 0);
     Some \<lparr>buffer_ptr = buf', read_mirror = False, read_index = 0,
           write_mirror = False, write_index = 0, buffer_size = bsize\<rparr>
   }"

text \<open>
  \<open>cap\<close> is the size of the allocation behind the destination pointer; the bytes
  copied there are the second component of the result.  A read index beyond
  the buffer makes the length of the first rt_memcpy negative.
\<close>

definition uc_wiota_ringbuffer_get ::
  "rt_ringbuffer \<Rightarrow> nat \<Rightarrow> nat \<Rightarrow> (rt_ringbuffer \<times> bytes \<times> nat) option" where
  "uc_wiota_ringbuffer_get rb cap data_len = (
     let read_len = to_u16 (align4 data_len);
         tail = buffer_size rb - read_index rb
     in do {
       c_assert (read_len \<le> cap);
       if int (buffer_size rb) - int (read_index rb) > int read_len then do {
         d \<leftarrow> mem_read (buffer_ptr rb) (read_index rb) read_len;
         Some (rb\<lparr>read_index := idx15 (read_index rb + read_len)\<rparr>, d, read_len)
       } else do {
         c_assert (read_index rb \<le> buffer_size rb);
         d1 \<leftarrow> mem_read (buffer_ptr rb) (read_index rb) tail;
         d2 \<leftarrow> mem_read (buffer_ptr rb) 0 (read_len - tail);
         Some (rb\<lparr>read_mirror := \<not> read_mirror rb, read_index := idx15 (read_len - tail)\<rparr>,
               d1 @ d2, read_len)
       }
     })"

definition uc_wiota_ringbuffer_put ::
  "rt_ringbuffer \<Rightarrow> bytes \<Rightarrow> nat \<Rightarrow> (rt_ringbuffer \<times> nat) option" where
  "uc_wiota_ringbuffer_put rb data len = (
     let write_len = to_u16 (align4 len);
         space_length = to_u16 (rt_ringbuffer_space_len rb);
         tail = buffer_size rb - write_index rb
     in if space_length = 0 then Some (rb, 0)
        else if space_length < write_len then Some (rb, 0)
        else if int (buffer_size rb) - int (write_index rb) > int write_len then do {
          d \<leftarrow> mem_read data 0 write_len;
          b \<leftarrow> mem_write (buffer_ptr rb) (write_index rb) d;
          Some (rb\<lparr>buffer_ptr := b, write_index := idx15 (write_index rb + write_len)\<rparr>, write_len)
        } else do {
          c_assert (write_index rb \<le> buffer_size rb);
          d1 \<leftarrow> mem_read data 0 tail;
          b1 \<leftarrow> mem_write (buffer_ptr rb) (write_index rb) d1;
          d2 \<leftarrow> mem_read data tail (write_len - tail);
          b2 \<leftarrow> mem_write b1 0 d2;
          Some (rb\<lparr>buffer_ptr := b2, write_mirror := \<not> write_mirror rb,
                   write_index := idx15 (write_len - tail)\<rparr>, write_len)
        })"

section \<open>Invariant and abstraction to a byte queue\<close>

definition rb_inv :: "rt_ringbuffer \<Rightarrow> bool" where
  "rb_inv rb \<longleftrightarrow>
     0 < buffer_size rb \<and> buffer_size rb < 32768 \<and> buffer_size rb \<le> length (buffer_ptr rb) \<and>
     read_index rb < buffer_size rb \<and> write_index rb < buffer_size rb \<and>
     (if read_mirror rb = write_mirror rb then read_index rb \<le> write_index rb
      else write_index rb \<le> read_index rb)"

definition rb_contents :: "rt_ringbuffer \<Rightarrow> bytes" where
  "rb_contents rb =
     map (\<lambda>k. buffer_ptr rb ! ((read_index rb + k) mod buffer_size rb))
         [0..<rt_ringbuffer_data_len rb]"

lemma data_len_inv:
  "rb_inv rb \<Longrightarrow> rt_ringbuffer_data_len rb =
     (if read_mirror rb = write_mirror rb then write_index rb - read_index rb
      else buffer_size rb + write_index rb - read_index rb)"
  by (auto simp: rb_inv_def rt_ringbuffer_data_len_def rt_ringbuffer_status_def
      split: rt_ringbuffer_state.splits if_splits)

lemma data_len_le_size: "rb_inv rb \<Longrightarrow> rt_ringbuffer_data_len rb \<le> buffer_size rb"
  by (auto simp: data_len_inv) (auto simp: rb_inv_def split: if_splits)

lemma space_len_inv:
  assumes "rb_inv rb"
  shows "rt_ringbuffer_space_len rb = buffer_size rb - rt_ringbuffer_data_len rb"
proof -
  have "int (buffer_size rb) - int (rt_ringbuffer_data_len rb) < 2 ^ 32"
    using assms by (auto simp: rb_inv_def)
  then show ?thesis
    using data_len_le_size [OF assms] by (simp add: rt_ringbuffer_space_len_def)
qed

lemma contents_length [simp]: "length (rb_contents rb) = rt_ringbuffer_data_len rb"
  by (simp add: rb_contents_def)

lemma contents_nth:
  assumes "rb_inv rb" "k < rt_ringbuffer_data_len rb"
  shows "rb_contents rb ! k =
           buffer_ptr rb ! (if read_index rb + k < buffer_size rb then read_index rb + k
                            else read_index rb + k - buffer_size rb)"
proof -
  have "k < buffer_size rb" using data_len_le_size assms by fastforce
  then have "(read_index rb + k) mod buffer_size rb =
      (if read_index rb + k < buffer_size rb then read_index rb + k
       else read_index rb + k - buffer_size rb)"
    using assms(1) by (auto simp: rb_inv_def mod_if)
  then show ?thesis using assms(2) by (simp add: rb_contents_def)
qed

section \<open>The operations implement the queue\<close>

lemma contents_after_read:
  assumes inv: "rb_inv rb" and inv': "rb_inv rb'"
    and same: "buffer_ptr rb' = buffer_ptr rb" "buffer_size rb' = buffer_size rb"
    and dl: "rt_ringbuffer_data_len rb' = rt_ringbuffer_data_len rb - n"
    and ri: "read_index rb' = (if read_index rb + n < buffer_size rb then read_index rb + n
                               else read_index rb + n - buffer_size rb)"
  shows "rb_contents rb' = drop n (rb_contents rb)"
proof (rule nth_equalityI)
  show "length (rb_contents rb') = length (drop n (rb_contents rb))" using dl by simp
next
  fix k assume "k < length (rb_contents rb')"
  then have k: "k < rt_ringbuffer_data_len rb'" "n + k < rt_ringbuffer_data_len rb"
    using dl by simp_all
  have "n + k < buffer_size rb" using k(2) data_len_le_size [OF inv] by simp
  then show "rb_contents rb' ! k = drop n (rb_contents rb) ! k"
    using k inv ri same
    by (auto simp: contents_nth [OF inv'] contents_nth [OF inv] rb_inv_def ac_simps
        intro!: arg_cong [of _ _ "nth (buffer_ptr rb)"])
qed

lemma get_refines:
  assumes inv: "rb_inv rb" and n: "4 dvd n" "n \<le> rt_ringbuffer_data_len rb" and cap: "n \<le> cap"
  shows "\<exists>rb'. uc_wiota_ringbuffer_get rb cap n = Some (rb', take n (rb_contents rb), n) \<and>
           rb_inv rb' \<and> rb_contents rb' = drop n (rb_contents rb) \<and>
           buffer_size rb' = buffer_size rb"
proof (cases "read_index rb + n < buffer_size rb")
  case True
  let ?rb = "rb\<lparr>read_index := read_index rb + n\<rparr>"
  have len: "n < 65536" "n \<le> buffer_size rb"
    using inv n data_len_le_size [OF inv] by (auto simp: rb_inv_def)
  have inv': "rb_inv ?rb" and dl: "rt_ringbuffer_data_len ?rb = rt_ringbuffer_data_len rb - n"
  proof -
    show *: "rb_inv ?rb"
      using inv True n(2) by (auto simp: rb_inv_def data_len_inv [OF inv] split: if_splits)
    show "rt_ringbuffer_data_len ?rb = rt_ringbuffer_data_len rb - n"
      using n(2) by (simp add: data_len_inv [OF inv] data_len_inv [OF *])
  qed
  have rd: "take n (drop (read_index rb) (buffer_ptr rb)) = take n (rb_contents rb)"
    using inv True n(2) by (auto intro!: nth_equalityI simp: rb_inv_def contents_nth)
  have "rb_contents ?rb = drop n (rb_contents rb)"
    using inv' dl inv True by (intro contents_after_read) auto
  with inv' show ?thesis
    using inv True n(1) cap len rd
    by (auto simp: uc_wiota_ringbuffer_get_def Let_def cmem idx15_def rb_inv_def)
next
  case False
  let ?r = "n - (buffer_size rb - read_index rb)"
  let ?rb = "rb\<lparr>read_mirror := \<not> read_mirror rb, read_index := ?r\<rparr>"
  have len: "n < 65536" "n \<le> buffer_size rb" "?r < buffer_size rb"
    using inv n data_len_le_size [OF inv] by (auto simp: rb_inv_def)
  have inv': "rb_inv ?rb" and dl: "rt_ringbuffer_data_len ?rb = rt_ringbuffer_data_len rb - n"
  proof -
    show *: "rb_inv ?rb"
      using inv False n(2) len by (auto simp: rb_inv_def data_len_inv [OF inv] split: if_splits)
    show "rt_ringbuffer_data_len ?rb = rt_ringbuffer_data_len rb - n"
      using n(2) inv False unfolding data_len_inv [OF inv] data_len_inv [OF *]
      by (auto simp: rb_inv_def split: if_splits)
  qed
  have rd: "take (buffer_size rb - read_index rb) (drop (read_index rb) (buffer_ptr rb)) @
            take ?r (buffer_ptr rb) = take n (rb_contents rb)"
    using inv False n(2) len
    by (auto intro!: nth_equalityI simp: rb_inv_def contents_nth nth_append less_diff_conv add.commute)
  have "rb_contents ?rb = drop n (rb_contents rb)"
    using inv' dl inv False by (intro contents_after_read) (auto simp: rb_inv_def)
  with inv' show ?thesis
    using inv False n(1) cap len rd
    by (auto simp: uc_wiota_ringbuffer_get_def Let_def cmem idx15_def rb_inv_def)
qed

lemma put_no_space:
  assumes "rb_inv rb" "4 dvd n" "n < 65536" "rt_ringbuffer_space_len rb < n"
  shows "uc_wiota_ringbuffer_put rb d n = Some (rb, 0)"
proof -
  have "rt_ringbuffer_space_len rb < 65536"
    using assms(1) by (auto simp: space_len_inv rb_inv_def)
  then show ?thesis using assms by (simp add: uc_wiota_ringbuffer_put_def Let_def)
qed

text \<open>
  Both branches of put write the bytes of \<open>d\<close> at the positions that follow the
  write index modulo the buffer size; the lemma isolates the consequence.
\<close>

lemma contents_after_write:
  assumes inv: "rb_inv rb" and inv': "rb_inv rb'"
    and same: "read_index rb' = read_index rb" "buffer_size rb' = buffer_size rb"
    and dl: "rt_ringbuffer_data_len rb' = rt_ringbuffer_data_len rb + length d"
    and wr: "\<And>j. j < buffer_size rb \<Longrightarrow> buffer_ptr rb' ! j =
      (if write_index rb \<le> j \<and> j < write_index rb + length d then d ! (j - write_index rb)
       else if j + buffer_size rb < write_index rb + length d
            then d ! (j + buffer_size rb - write_index rb)
       else buffer_ptr rb ! j)"
  shows "rb_contents rb' = rb_contents rb @ d"
proof (rule nth_equalityI)
  show "length (rb_contents rb') = length (rb_contents rb @ d)" using dl by simp
next
  fix k assume "k < length (rb_contents rb')"
  then have k: "k < rt_ringbuffer_data_len rb + length d" using dl by simp
  have total: "rt_ringbuffer_data_len rb + length d \<le> buffer_size rb"
    using data_len_le_size [OF inv'] dl same by simp
  let ?j = "if read_index rb + k < buffer_size rb then read_index rb + k
            else read_index rb + k - buffer_size rb"
  have j: "?j < buffer_size rb" using inv k total by (auto simp: rb_inv_def)
  have lhs: "rb_contents rb' ! k = buffer_ptr rb' ! ?j"
    using contents_nth [OF inv'] k dl same by simp
  show "rb_contents rb' ! k = (rb_contents rb @ d) ! k"
  proof (cases "k < rt_ringbuffer_data_len rb")
    case True
    then have "rb_contents rb ! k = buffer_ptr rb ! ?j" using contents_nth [OF inv] by simp
    moreover have "buffer_ptr rb' ! ?j = buffer_ptr rb ! ?j"
      unfolding wr [OF j] using True total inv
      by (auto simp: data_len_inv [OF inv] rb_inv_def split: if_splits)
    ultimately show ?thesis using True lhs by (simp add: nth_append)
  next
    case False
    let ?i = "k - rt_ringbuffer_data_len rb"
    have "buffer_ptr rb' ! ?j = d ! ?i"
      unfolding wr [OF j] using False k total inv
      by (auto simp: data_len_inv [OF inv] rb_inv_def split: if_splits intro!: arg_cong [of _ _ "nth d"])
    then show ?thesis using False lhs by (simp add: nth_append)
  qed
qed

lemma put_refines:
  assumes inv: "rb_inv rb" and n: "4 dvd n" "length d = n" "n \<le> rt_ringbuffer_space_len rb"
  shows "\<exists>rb'. uc_wiota_ringbuffer_put rb (d @ rest) n = Some (rb', n) \<and>
           rb_inv rb' \<and> rb_contents rb' = rb_contents rb @ d \<and> buffer_size rb' = buffer_size rb"
proof -
  have sp: "rt_ringbuffer_space_len rb = buffer_size rb - rt_ringbuffer_data_len rb"
    by (rule space_len_inv [OF inv])
  have len: "n < 65536" "n \<le> buffer_size rb" "buffer_size rb < 65536"
    using inv n sp by (auto simp: rb_inv_def)
  show ?thesis
  proof (cases "rt_ringbuffer_space_len rb = 0")
    case True
    then have "uc_wiota_ringbuffer_put rb (d @ rest) n = Some (rb, 0)" "d = []" "n = 0"
      using n by (auto simp: uc_wiota_ringbuffer_put_def Let_def)
    then show ?thesis using inv by auto
  next
    case False
    then have sp16: "to_u16 (rt_ringbuffer_space_len rb) = rt_ringbuffer_space_len rb"
      using len sp by (simp add: to_u16_def)
    let ?m = "buffer_size rb - write_index rb"
    show ?thesis
    proof (cases "write_index rb + n < buffer_size rb")
      case True
      let ?b = "take (write_index rb) (buffer_ptr rb) @ d @
                drop (write_index rb + length d) (buffer_ptr rb)"
      let ?rb = "rb\<lparr>buffer_ptr := ?b, write_index := write_index rb + n\<rparr>"
      have put: "uc_wiota_ringbuffer_put rb (d @ rest) n = Some (?rb, n)"
        using inv n True len False sp16
        by (auto simp: uc_wiota_ringbuffer_put_def Let_def cmem idx15_def rb_inv_def)
      have inv': "rb_inv ?rb"
        using inv True n(2,3) sp by (auto simp: rb_inv_def data_len_inv [OF inv] split: if_splits)
      have "rt_ringbuffer_data_len ?rb = rt_ringbuffer_data_len rb + length d"
        using n(2,3) inv True unfolding data_len_inv [OF inv] data_len_inv [OF inv']
        by (auto simp: rb_inv_def)
      then have "rb_contents ?rb = rb_contents rb @ d"
        using inv True n(2)
        by (intro contents_after_write [OF inv inv']) (auto simp: blit_nth rb_inv_def)
      then show ?thesis using put inv' by auto
    next
      case wrap: False
      let ?b1 = "take (write_index rb) (buffer_ptr rb) @ take ?m d @
                 drop (buffer_size rb) (buffer_ptr rb)"
      let ?b2 = "drop ?m d @ drop (n - ?m) ?b1"
      let ?rb = "rb\<lparr>buffer_ptr := ?b2, write_mirror := \<not> write_mirror rb, write_index := n - ?m\<rparr>"
      have idx: "n - ?m < buffer_size rb" "n - ?m \<le> write_index rb" "?m \<le> n"
        using inv wrap len by (auto simp: rb_inv_def)
      have put: "uc_wiota_ringbuffer_put rb (d @ rest) n = Some (?rb, n)"
        using inv n wrap len False sp16 idx
        by (auto simp: uc_wiota_ringbuffer_put_def Let_def cmem idx15_def rb_inv_def)
      have inv': "rb_inv ?rb"
        using inv wrap n(2,3) sp idx
        by (auto simp: rb_inv_def data_len_inv [OF inv] split: if_splits)
      have "rt_ringbuffer_data_len ?rb = rt_ringbuffer_data_len rb + length d"
        using n(2,3) inv wrap sp unfolding data_len_inv [OF inv] data_len_inv [OF inv']
        by (auto simp: rb_inv_def split: if_splits)
      then have "rb_contents ?rb = rb_contents rb @ d"
        using inv wrap n(2) idx
        by (intro contents_after_write [OF inv inv'])
          (auto simp: nth_append rb_inv_def not_less min_def less_diff_conv ac_simps)
      then show ?thesis using put inv' by auto
    qed
  qed
qed

text \<open>Put touches neither the read side nor the bytes of the array beyond the window.\<close>

lemma put_frame_rule:
  assumes "uc_wiota_ringbuffer_put rb d n = Some (rb', k)"
  shows "read_index rb' = read_index rb" "read_mirror rb' = read_mirror rb"
    "buffer_size rb' = buffer_size rb" "length (buffer_ptr rb') = length (buffer_ptr rb)"
  using assms
  by (auto simp: uc_wiota_ringbuffer_put_def Let_def bind_eq_Some_conv dest!: mem_write_length
      split: if_splits)

lemma init_eq_Some:
  "uc_wiota_ringbuffer_init rs buf = Some rb \<longleftrightarrow>
     0 < rs \<and> align_down4 rs \<le> length buf \<and>
     rb = \<lparr>buffer_ptr = replicate (align_down4 rs) 0 @ drop (align_down4 rs) buf,
           read_mirror = False, read_index = 0, write_mirror = False, write_index = 0,
           buffer_size = align_down4 rs\<rparr>"
  by (auto simp: uc_wiota_ringbuffer_init_def c_assert_def Let_def mem_write_def)

lemma init_inv:
  assumes "uc_wiota_ringbuffer_init rs buf = Some rb" "4 \<le> rs" "rs < 32768"
  shows "rb_inv rb" "rb_contents rb = []" "rt_ringbuffer_space_len rb = align_down4 rs"
proof -
  have *: "0 < align_down4 rs" "align_down4 rs < 32768"
    using assms(2,3) align_down4_le [of rs] by (auto simp: align_down4_def)
  show "rb_inv rb" using assms(1) * by (auto simp: init_eq_Some rb_inv_def)
  show "rb_contents rb = []" "rt_ringbuffer_space_len rb = align_down4 rs"
    using assms(1) * by (auto simp: init_eq_Some rb_contents_def rt_ringbuffer_data_len_def
        rt_ringbuffer_status_def rt_ringbuffer_space_len_def)
qed

section \<open>Interface: a bounded byte queue\<close>

text \<open>
  What the framing layer relies on: put appends a word-aligned block or leaves
  the queue alone and answers 0, get removes a prefix, and neither access
  leaves its memory.
\<close>

locale byte_fifo =
  fixes invar :: "'q \<Rightarrow> bool"
    and contents :: "'q \<Rightarrow> bytes"
    and space :: "'q \<Rightarrow> nat"
    and put :: "'q \<Rightarrow> bytes \<Rightarrow> nat \<Rightarrow> ('q \<times> nat) option"
    and get :: "'q \<Rightarrow> nat \<Rightarrow> nat \<Rightarrow> ('q \<times> bytes \<times> nat) option"
  assumes put_ok: "\<lbrakk>invar q; 4 dvd length d; length d \<le> space q\<rbrakk> \<Longrightarrow>
      \<exists>q'. put q d (length d) = Some (q', length d) \<and> invar q' \<and>
           contents q' = contents q @ d \<and> space q' = space q - length d"
    and put_full: "\<lbrakk>invar q; 4 dvd length d; length d < 65536; space q < length d\<rbrakk> \<Longrightarrow>
      put q d (length d) = Some (q, 0)"
    and get_ok: "\<lbrakk>invar q; 4 dvd n; n \<le> length (contents q); n \<le> cap\<rbrakk> \<Longrightarrow>
      \<exists>q'. get q cap n = Some (q', take n (contents q), n) \<and> invar q' \<and>
           contents q' = drop n (contents q) \<and> space q' = space q + n"

fun put_all :: "('q \<Rightarrow> bytes \<Rightarrow> nat \<Rightarrow> ('q \<times> nat) option) \<Rightarrow> 'q \<Rightarrow> bytes list \<Rightarrow> 'q option" where
  "put_all put q [] = Some q"
| "put_all put q (m # ms) = do { (q', _) \<leftarrow> put q m (length m); put_all put q' ms }"

fun get_all ::
  "('q \<Rightarrow> nat \<Rightarrow> nat \<Rightarrow> ('q \<times> bytes \<times> nat) option) \<Rightarrow> 'q \<Rightarrow> nat list \<Rightarrow> ('q \<times> bytes list) option" where
  "get_all get q [] = Some (q, [])"
| "get_all get q (n # ns) = do {
     (q', d, _) \<leftarrow> get q n n;
     (q'', ds) \<leftarrow> get_all get q' ns;
     Some (q'', d # ds)
   }"

context byte_fifo
begin

lemma put_all_ok:
  assumes "invar q" "\<forall>m\<in>set ms. 4 dvd length m" "sum_list (map length ms) \<le> space q"
  shows "\<exists>q'. put_all put q ms = Some q' \<and> invar q' \<and> contents q' = contents q @ concat ms"
  using assms
proof (induction ms arbitrary: q)
  case (Cons m ms)
  then obtain q1 where q1: "put q m (length m) = Some (q1, length m)" "invar q1"
    "contents q1 = contents q @ m" "space q1 = space q - length m"
    using put_ok [of q m] by auto
  with Cons.IH [of q1] Cons.prems show ?case by auto
qed simp

lemma get_all_ok:
  assumes "invar q" "\<forall>m\<in>set ms. 4 dvd length m" "contents q = concat ms @ r"
  shows "\<exists>q'. get_all get q (map length ms) = Some (q', ms) \<and> invar q' \<and> contents q' = r"
  using assms
proof (induction ms arbitrary: q)
  case (Cons m ms)
  then obtain q1 where q1: "get q (length m) (length m) = Some (q1, m, length m)" "invar q1"
    "contents q1 = concat ms @ r"
    using get_ok [of q "length m" "length m"] by auto
  with Cons.IH [of q1] Cons.prems show ?case by auto
qed simp

lemma transfer:
  assumes "invar q" "contents q = []" "\<forall>m\<in>set ms. 4 dvd length m"
    "sum_list (map length ms) \<le> space q"
  shows "\<exists>q1 q2. put_all put q ms = Some q1 \<and> get_all get q1 (map length ms) = Some (q2, ms) \<and>
           invar q2 \<and> contents q2 = []"
proof -
  obtain q1 where "put_all put q ms = Some q1" "invar q1" "contents q1 = concat ms @ []"
    using put_all_ok assms by fastforce
  then show ?thesis using get_all_ok [of q1 ms "[]"] assms by auto
qed

end

interpretation rbq: byte_fifo rb_inv rb_contents rt_ringbuffer_space_len
  uc_wiota_ringbuffer_put uc_wiota_ringbuffer_get
proof unfold_locales
  fix q and d :: bytes
  assume *: "rb_inv q" "4 dvd length d" "length d \<le> rt_ringbuffer_space_len q"
  then show "\<exists>q'. uc_wiota_ringbuffer_put q d (length d) = Some (q', length d) \<and> rb_inv q' \<and>
      rb_contents q' = rb_contents q @ d \<and>
      rt_ringbuffer_space_len q' = rt_ringbuffer_space_len q - length d"
    using put_refines [where rest = "[]", OF *(1,2) refl *(3)] space_len_inv
    by (metis append_Nil2 contents_length diff_diff_left length_append)
next
  fix q and d :: bytes
  assume "rb_inv q" "4 dvd length d" "length d < 65536" "rt_ringbuffer_space_len q < length d"
  then show "uc_wiota_ringbuffer_put q d (length d) = Some (q, 0)" by (rule put_no_space)
next
  fix q n cap
  assume *: "rb_inv q" "4 dvd n" "n \<le> length (rb_contents q)" "n \<le> cap"
  then obtain q' where q': "uc_wiota_ringbuffer_get q cap n = Some (q', take n (rb_contents q), n)"
    "rb_inv q'" "rb_contents q' = drop n (rb_contents q)" "buffer_size q' = buffer_size q"
    using get_refines by (metis contents_length)
  then have "rt_ringbuffer_data_len q' = rt_ringbuffer_data_len q - n"
    by (metis contents_length length_drop)
  then show "\<exists>q'. uc_wiota_ringbuffer_get q cap n = Some (q', take n (rb_contents q), n) \<and>
      rb_inv q' \<and> rb_contents q' = drop n (rb_contents q) \<and>
      rt_ringbuffer_space_len q' = rt_ringbuffer_space_len q + n"
    using q' * data_len_le_size [of q] by (auto simp: space_len_inv)
qed

section \<open>Properties\<close>

text \<open>C19: Uc_wiota_ringbuffer_put never leaves its memory on a well-formed ring and a
  word-aligned block: it appends the whole block when there is space and answers
  its length, and otherwise leaves the ring alone and answers 0.\<close>

theorem ringbuffer_put_spec:
  assumes "rb_inv rb" "length d = n" "4 dvd n" "n < 65536"
  shows "\<exists>rb' k. uc_wiota_ringbuffer_put rb d n = Some (rb', k) \<and> rb_inv rb' \<and>
           (if n \<le> rt_ringbuffer_space_len rb
            then k = n \<and> rb_contents rb' = rb_contents rb @ d
            else k = 0 \<and> rb' = rb)"
proof (cases "n \<le> rt_ringbuffer_space_len rb")
  case True
  then show ?thesis using rbq.put_ok [of rb d] assms by auto
next
  case False
  then show ?thesis using rbq.put_full [of rb d] assms by auto
qed

theorem ringbuffer_put_spec_witness:
  "\<exists>rb' k. uc_wiota_ringbuffer_put
      \<lparr>buffer_ptr = replicate 9 7, read_mirror = False, read_index = 4,
       write_mirror = False, write_index = 4, buffer_size = 8\<rparr> [1, 2, 3, 4, 5, 6, 7, 8] 8
      = Some (rb', k) \<and> k = 8 \<and> rb_contents rb' = [1, 2, 3, 4, 5, 6, 7, 8]"
proof -
  let ?rb = "\<lparr>buffer_ptr = replicate 9 7, read_mirror = False, read_index = 4,
       write_mirror = False, write_index = 4, buffer_size = 8\<rparr>"
  have "rb_inv ?rb" "rt_ringbuffer_space_len ?rb = 8" "rb_contents ?rb = []"
    by (simp_all add: rb_inv_def rt_ringbuffer_space_len_def rt_ringbuffer_data_len_def
        rt_ringbuffer_status_def rb_contents_def)
  then show ?thesis using ringbuffer_put_spec [of ?rb "[1, 2, 3, 4, 5, 6, 7, 8]" 8] by auto
qed

text \<open>C20: Uc_wiota_ringbuffer_get on a word-aligned length that is available returns
  exactly the oldest bytes of the queue, removes them and keeps the ring well formed,
  on both sides of the mirror.\<close>

theorem ringbuffer_get_spec:
  assumes "rb_inv rb" "4 dvd n" "n \<le> rt_ringbuffer_data_len rb" "n \<le> cap"
  shows "\<exists>rb'. uc_wiota_ringbuffer_get rb cap n = Some (rb', take n (rb_contents rb), n) \<and>
           rb_inv rb' \<and> rb_contents rb' = drop n (rb_contents rb) \<and>
           rt_ringbuffer_space_len rb' = rt_ringbuffer_space_len rb + n"
  using rbq.get_ok [of rb n cap] assms by simp

theorem ringbuffer_get_spec_witness:
  "\<exists>rb'. uc_wiota_ringbuffer_get
      \<lparr>buffer_ptr = [5, 6, 7, 8, 1, 2, 3, 4], read_mirror = False, read_index = 4,
       write_mirror = True, write_index = 4, buffer_size = 8\<rparr> 8 8
      = Some (rb', [1, 2, 3, 4, 5, 6, 7, 8], 8) \<and> rb_contents rb' = []"
proof -
  let ?rb = "\<lparr>buffer_ptr = [5, 6, 7, 8, 1, 2, 3, 4], read_mirror = False, read_index = 4,
       write_mirror = True, write_index = 4, buffer_size = 8\<rparr>"
  have "rb_inv ?rb" "rt_ringbuffer_data_len ?rb = 8" "rb_contents ?rb = [1, 2, 3, 4, 5, 6, 7, 8]"
    by (simp_all add: rb_inv_def rt_ringbuffer_data_len_def
        rt_ringbuffer_status_def rb_contents_def upt_rec)
  then show ?thesis using ringbuffer_get_spec [of ?rb 8 8] by auto
qed

text \<open>A ring fresh from uc_wiota_ringbuffer_init carries any sequence of aligned
  messages that fits, in order and without loss: what put wrote get returns, message by
  message, and the ring is empty again.\<close>

theorem ringbuffer_transfer:
  assumes "uc_wiota_ringbuffer_init rs buf = Some rb" "4 \<le> rs" "rs < 32768"
    and "\<forall>m\<in>set ms. 4 dvd length m" "sum_list (map length ms) \<le> align_down4 rs"
  shows "\<exists>rb1 rb2. put_all uc_wiota_ringbuffer_put rb ms = Some rb1 \<and>
           get_all uc_wiota_ringbuffer_get rb1 (map length ms) = Some (rb2, ms) \<and>
           rb_inv rb2 \<and> rb_contents rb2 = []"
  using rbq.transfer init_inv [OF assms(1-3)] assms(4,5) by simp

theorem ringbuffer_transfer_witness:
  "\<exists>rb rb1 rb2. uc_wiota_ringbuffer_init 8 (replicate 8 9) = Some rb \<and>
     put_all uc_wiota_ringbuffer_put rb [[1, 2, 3, 4], [5, 6, 7, 8]] = Some rb1 \<and>
     get_all uc_wiota_ringbuffer_get rb1 (map length [[1, 2, 3, 4], [5, 6, 7, 8 :: u8]]) = Some (rb2, [[1, 2, 3, 4], [5, 6, 7, 8]])"
proof -
  let ?ms = "[[1, 2, 3, 4], [5, 6, 7, 8]] :: bytes list"
  obtain rb where "uc_wiota_ringbuffer_init 8 (replicate 8 9) = Some rb"
    by (simp add: init_eq_Some align_down4_def)
  moreover have "\<forall>m\<in>set ?ms. 4 dvd length m" by simp
  moreover have "sum_list (map length ?ms) \<le> align_down4 8" by (simp add: align_down4_def)
  ultimately show ?thesis using ringbuffer_transfer [of 8 "replicate 8 9" rb ?ms] by fastforce
qed

end
