(* ===== verification/WiotaApi.thy ===== *)
theory WiotaApi
  imports Prelude
begin

text \<open>
  The protocol stack the firmware links against (PS/lib, prebuilt archives) seen
  through PS/app/include/uc_wiota_api.h.  Its functions are not source code: a
  call is recorded as a value of \<open>api_call\<close>, with the arguments after the
  conversions the prototype imposes, and what a call returns or writes through a
  pointer comes from the parameter \<open>api_env\<close>, which sees the calls made so far.
\<close>

section \<open>Structures of the API\<close>

record sub_system_config_t =
  ap_tx_power :: u8
  id_len :: u8
  pp :: u8
  symbol_length :: u8
  dlul_ratio :: u8
  bt_value :: u8
  group_number :: u8
  spectrum_idx :: u8
  old_subsys_v :: u8
  bitscb :: u8
  freq_idx :: u8
  sc_reserved :: u8
  subsystem_id :: u32

record uc_lpm_tx_cfg_t =
  tx_freq :: u8
  tx_spectrum_idx :: u8
  tx_bandwidth :: u8
  tx_symbol_length :: u8
  tx_awaken_id :: u16
  tx_mode :: u8
  tx_send_time :: u32

record uc_lpm_rx_cfg_t =
  rx_freq :: u8
  rx_spectrum_idx :: u8
  rx_bandwidth :: u8
  rx_symbol_length :: u8
  rx_lpm_nlen :: u8
  rx_lpm_utimes :: u8
  rx_threshold :: u8
  rx_extra_flag :: u8
  rx_awaken_id :: u16
  rx_detect_period :: u32
  rx_extra_period :: u32
  rx_mode :: u8
  rx_period_multiple :: u8
  rx_awaken_id_another :: u16

record uc_subf_cfg_t =
  ul_vfs :: u8
  dl_vfs :: u8
  sf_send_round :: u8
  once_len :: u8

record uc_paging_info_t =
  pg_user_id :: u32
  pg_fn_index :: u32
  pg_detection_period :: u32
  pg_send_round :: u16
  pg_continue_fn :: u16

record recv_send_by_fn_t =
  rs_user_id :: u32
  rs_start_recv_fn :: u32
  rs_recv_fns :: u8
  rs_send_fns :: u8
  rs_data :: "bytes option"
  rs_has_callback :: bool
  rs_para :: u32

text \<open>The callbacks the SPI link hands to the stack; \<open>No_callback\<close> is RT_NULL.\<close>

datatype callback =
    No_callback
  | Send_callback | Send_bc_callback | Send_mc_callback
  | Scan_callback | Temp_callback | Sync_paging_callback

section \<open>Calls\<close>

text \<open>Calls without arguments.\<close>

datatype exec_call =
    C_register_time_service_info_callback | C_init | C_run
  | C_register_recv_data_detail_callback | C_register_sync_paging_callback
  | C_register_fn_refresh_callback | C_register_cce_abnormal_callback
  | C_exit | C_chip_reset | C_set_dfe_counter_flag | C_master_control_bc_dfe_counter
  | C_paging_tx_start | C_time_service_start | C_time_service_stop

text \<open>Setters, the scalar ones apart from those that take a structure.\<close>

datatype set_call =
    C_set_active_time u32 | C_set_ap_tx_power u8
  | C_set_freq_info u8 | C_set_max_num_of_active_iote u16 | C_set_data_rate u32 u32
  | C_set_broadcast_mcs u32 | C_set_crc u16 | C_log_switch u32 u8 | C_set_default_dfe u32
  | C_set_frame_boundary_align_func u8
  | C_set_broadcast_fn_cycle u8 | C_set_broadcast_send_round u8
  | C_set_time_service_func u32 u8 | C_set_time_service_cycle u8
  | C_set_1588_protocol_rtc u32 u32

datatype set2_call =
    C_set_sync_assistant_pps u8 | C_set_single_tone u32
  | C_set_ul_subframe_mode u8 u32 u8
  | C_set_sm_resend_times u8 | C_paging_rx_enter u8 u32
  | C_set_aagc_idx u8 | C_set_bnack_func u32 | C_set_ota_last_subframe_idle u8
  | C_set_dl_rf_mode u8 | C_set_afh_func u8 | C_set_pwm_ctrl_pa u32 u32 | C_set_ramp_power u32

datatype cfg_call =
    C_set_system_config sub_system_config_t | C_set_paging_tx_cfg uc_lpm_tx_cfg_t
  | C_set_subframe_mode_cfg uc_subf_cfg_t | C_set_paging_rx_cfg uc_lpm_rx_cfg_t

text \<open>Calls that only return a value.\<close>

datatype get_call =
    C_get_time_service_func u32 | C_get_active_time | C_get_freq_info
  | C_get_max_num_of_active_iote | C_get_data_rate_value u32 | C_get_broadcast_mcs | C_get_crc
  | C_get_frame_head_dfe | C_read_dfe_counter u8 | C_get_ap8288_state
  | C_get_broadcast_fn_cycle | C_get_broadcast_send_round | C_get_frame_len | C_get_frame_num

datatype get2_call =
    C_get_sync_assistant_pps | C_get_ota_last_subframe_idle | C_get_dl_rf_mode | C_get_afh_func
  | C_read_value_from_mem u32 u32 u32
  | C_get_system_config | C_get_paging_tx_cfg | C_get_blacklist | C_get_version | C_get_module_id

text \<open>Transmissions and lists of identities.\<close>

datatype send_call =
    C_send_data_order bytes u32 u32 u8 callback u32
  | C_send_multicast_data bytes u32 u32 callback u32
  | C_send_broadcast_data bytes u32 u32 callback u32
  | C_scan_freq "bytes option" u8 u8 u32 callback
  | C_read_temperature callback u32
  | C_sync_paging uc_paging_info_t callback
  | C_recv_send_sm_by_fn recv_send_by_fn_t
  | C_add_iote_to_blacklist bytes u16 | C_remove_iote_from_blacklist bytes u16
  | C_set_multicast_id bytes u32 | C_del_multicast_id bytes u32
  | C_add_dl_subframe_data bytes u8 | C_set_afh_map bytes | C_set_ramp_power_cfg bytes u32

datatype api_call =
    Exec exec_call | Set1 set_call | Set2 set2_call | Cfg cfg_call
  | Get1 get_call | Get2 get2_call | Send send_call

section \<open>The environment\<close>

text \<open>
  \<open>api_ret h c\<close> is the integer result of call \<open>c\<close> after the calls \<open>h\<close>;
  \<open>api_out h c\<close> the bytes it writes through its pointer argument.  The checksum
  routines belong to the same archives.  \<open>malloc_ok k n\<close> tells whether the k-th
  request, for n bytes, finds memory.
\<close>

record api_env =
  crc8_calc :: "bytes \<Rightarrow> u32"
  crc16_calc :: "bytes \<Rightarrow> u32"
  crc32_calc :: "bytes \<Rightarrow> u32"
  malloc_ok :: "nat \<Rightarrow> nat \<Rightarrow> bool"
  api_ret :: "api_call list \<Rightarrow> api_call \<Rightarrow> u32"
  api_out :: "api_call list \<Rightarrow> api_call \<Rightarrow> bytes"
  env_system_config :: "api_call list \<Rightarrow> sub_system_config_t"
  env_paging_tx_cfg :: "api_call list \<Rightarrow> uc_lpm_tx_cfg_t"
  env_blacklist :: "api_call list \<Rightarrow> u16 \<times> u32 list"
  env_version :: "api_call list \<Rightarrow> bytes list \<times> u32"
  env_scan :: "api_call list \<Rightarrow> u16 \<times> bytes"
  env_temp :: "api_call list \<Rightarrow> u8"

end
