(* ===== verification/SpiEnums.thy ===== *)
theory SpiEnums
  imports Main
begin

text \<open>
  The command numbers of PS/app/src/uc_wiota_spi_com.c, lines 65 to 189.  They
  travel in bit fields of the command header, so they are numbers of the model.
\<close>

text \<open>uc_wiota_cmd_type_e.\<close>
abbreviation (input) CMD_TYPE_EXEC :: nat where "CMD_TYPE_EXEC \<equiv> 0"
abbreviation (input) CMD_TYPE_SETUP :: nat where "CMD_TYPE_SETUP \<equiv> 1"
abbreviation (input) CMD_TYPE_QUERY :: nat where "CMD_TYPE_QUERY \<equiv> 2"
abbreviation (input) CMD_TYPE_OTHER :: nat where "CMD_TYPE_OTHER \<equiv> 3"
abbreviation (input) CMD_TYPE_SEND :: nat where "CMD_TYPE_SEND \<equiv> 4"
abbreviation (input) CMD_TYPE_RECV :: nat where "CMD_TYPE_RECV \<equiv> 5"

text \<open>uc_wiota_exec_cmd_e.\<close>
abbreviation (input) WIOTA_INIT :: nat where "WIOTA_INIT \<equiv> 0"
abbreviation (input) WIOTA_RUN :: nat where "WIOTA_RUN \<equiv> 1"
abbreviation (input) WIOTA_EXIT :: nat where "WIOTA_EXIT \<equiv> 2"
abbreviation (input) WIOTA_REBOOT :: nat where "WIOTA_REBOOT \<equiv> 3"
abbreviation (input) WIOTA_DFE_COUNTER_FLAG_SET :: nat where "WIOTA_DFE_COUNTER_FLAG_SET \<equiv> 4"
abbreviation (input) WIOTA_DFE_COUNTER_SEND :: nat where "WIOTA_DFE_COUNTER_SEND \<equiv> 5"
abbreviation (input) WIOTA_PAGING_TX_START :: nat where "WIOTA_PAGING_TX_START \<equiv> 6"
abbreviation (input) WIOTA_MASTER_READY :: nat where "WIOTA_MASTER_READY \<equiv> 7"
abbreviation (input) WIOTA_TS_START :: nat where "WIOTA_TS_START \<equiv> 8"
abbreviation (input) WIOTA_TS_STOP :: nat where "WIOTA_TS_STOP \<equiv> 9"
abbreviation (input) WIOTA_REG_FN_REFRESH_CB :: nat where "WIOTA_REG_FN_REFRESH_CB \<equiv> 10"

text \<open>uc_wiota_setup_cmd_e.\<close>
abbreviation (input) WIOTA_ACT_SET :: nat where "WIOTA_ACT_SET \<equiv> 0"
abbreviation (input) WIOTA_CONFIG_SET :: nat where "WIOTA_CONFIG_SET \<equiv> 1"
abbreviation (input) WIOTA_POWER_SET :: nat where "WIOTA_POWER_SET \<equiv> 2"
abbreviation (input) WIOTA_FREQ_SET :: nat where "WIOTA_FREQ_SET \<equiv> 3"
abbreviation (input) WIOTA_HOPPING_FREQ_SET :: nat where "WIOTA_HOPPING_FREQ_SET \<equiv> 4"
abbreviation (input) WIOTA_HOPPING_MODE_SET :: nat where "WIOTA_HOPPING_MODE_SET \<equiv> 5"
abbreviation (input) WIOTA_MAX_IOTE_NUM_SET :: nat where "WIOTA_MAX_IOTE_NUM_SET \<equiv> 6"
abbreviation (input) WIOTA_DATA_RATE_SET :: nat where "WIOTA_DATA_RATE_SET \<equiv> 7"
abbreviation (input) WIOTA_BC_MCS_SET :: nat where "WIOTA_BC_MCS_SET \<equiv> 8"
abbreviation (input) WIOTA_CRC_SET :: nat where "WIOTA_CRC_SET \<equiv> 9"
abbreviation (input) WIOTA_LOG_SET :: nat where "WIOTA_LOG_SET \<equiv> 10"
abbreviation (input) WIOTA_DEFAULT_DFE_SET :: nat where "WIOTA_DEFAULT_DFE_SET \<equiv> 11"
abbreviation (input) WIOTA_FB_ALIGN_SET :: nat where "WIOTA_FB_ALIGN_SET \<equiv> 12"
abbreviation (input) WIOTA_PAGING_TX_SET :: nat where "WIOTA_PAGING_TX_SET \<equiv> 13"
abbreviation (input) WIOTA_BC_FN_CYCLE_SET :: nat where "WIOTA_BC_FN_CYCLE_SET \<equiv> 14"
abbreviation (input) WIOTA_BC_SEND_ROUND_SET :: nat where "WIOTA_BC_SEND_ROUND_SET \<equiv> 15"
abbreviation (input) WIOTA_TS_FUNC_SET :: nat where "WIOTA_TS_FUNC_SET \<equiv> 16"
abbreviation (input) WIOTA_TS_CYCLE_SET :: nat where "WIOTA_TS_CYCLE_SET \<equiv> 17"
abbreviation (input) WIOTA_1588_SYNC_SET :: nat where "WIOTA_1588_SYNC_SET \<equiv> 18"
abbreviation (input) WIOTA_PPS_SET :: nat where "WIOTA_PPS_SET \<equiv> 19"
abbreviation (input) WIOTA_SINGLE_TONE_SET :: nat where "WIOTA_SINGLE_TONE_SET \<equiv> 20"
abbreviation (input) WIOTA_UL_SUBF_MODE_SET :: nat where "WIOTA_UL_SUBF_MODE_SET \<equiv> 21"
abbreviation (input) WIOTA_SUBF_MODE_CFG_SET :: nat where "WIOTA_SUBF_MODE_CFG_SET \<equiv> 22"
abbreviation (input) WIOTA_SM_RESEND_TIMES_SET :: nat where "WIOTA_SM_RESEND_TIMES_SET \<equiv> 23"
abbreviation (input) WIOTA_PAGING_RX_SET :: nat where "WIOTA_PAGING_RX_SET \<equiv> 24"
abbreviation (input) WIOTA_AAGC_IDX_SET :: nat where "WIOTA_AAGC_IDX_SET \<equiv> 25"
abbreviation (input) WIOTA_BNACK_FUNC_SET :: nat where "WIOTA_BNACK_FUNC_SET \<equiv> 26"
abbreviation (input) WIOTA_OTA_LAST_SUBF_IDLE_SET :: nat where "WIOTA_OTA_LAST_SUBF_IDLE_SET \<equiv> 27"
abbreviation (input) WIOTA_DL_RF_MODE_SET :: nat where "WIOTA_DL_RF_MODE_SET \<equiv> 28"
abbreviation (input) WIOTA_PAGING_RX_ENTER :: nat where "WIOTA_PAGING_RX_ENTER \<equiv> 29"
abbreviation (input) WIOTA_AFH_FUNC_SET :: nat where "WIOTA_AFH_FUNC_SET \<equiv> 30"
abbreviation (input) WIOTA_PWM_CTRL_PA_SET :: nat where "WIOTA_PWM_CTRL_PA_SET \<equiv> 31"
abbreviation (input) WIOTA_RAMP_POWER_SET :: nat where "WIOTA_RAMP_POWER_SET \<equiv> 32"

text \<open>uc_wiota_query_cmd_e.\<close>
abbreviation (input) WIOTA_ACT_GET :: nat where "WIOTA_ACT_GET \<equiv> 0"
abbreviation (input) WIOTA_CONFIG_GET :: nat where "WIOTA_CONFIG_GET \<equiv> 1"
abbreviation (input) WIOTA_FREQ_GET :: nat where "WIOTA_FREQ_GET \<equiv> 2"
abbreviation (input) WIOTA_MAX_IOTE_NUM_GET :: nat where "WIOTA_MAX_IOTE_NUM_GET \<equiv> 3"
abbreviation (input) WIOTA_DATA_RATE_GET :: nat where "WIOTA_DATA_RATE_GET \<equiv> 4"
abbreviation (input) WIOTA_BC_MCS_GET :: nat where "WIOTA_BC_MCS_GET \<equiv> 5"
abbreviation (input) WIOTA_CRC_GET :: nat where "WIOTA_CRC_GET \<equiv> 6"
abbreviation (input) WIOTA_FRAME_HEAD_DFE_GET :: nat where "WIOTA_FRAME_HEAD_DFE_GET \<equiv> 7"
abbreviation (input) WIOTA_DFE_COUNTER_GET :: nat where "WIOTA_DFE_COUNTER_GET \<equiv> 8"
abbreviation (input) WIOTA_AP_STATE_GET :: nat where "WIOTA_AP_STATE_GET \<equiv> 9"
abbreviation (input) WIOTA_PAGING_TX_GET :: nat where "WIOTA_PAGING_TX_GET \<equiv> 10"
abbreviation (input) WIOTA_BC_FN_CYCLE_GET :: nat where "WIOTA_BC_FN_CYCLE_GET \<equiv> 11"
abbreviation (input) WIOTA_BC_SEND_ROUND_GET :: nat where "WIOTA_BC_SEND_ROUND_GET \<equiv> 12"
abbreviation (input) WIOTA_FRAME_LEN_GET :: nat where "WIOTA_FRAME_LEN_GET \<equiv> 13"
abbreviation (input) WIOTA_FRAME_NUM_GET :: nat where "WIOTA_FRAME_NUM_GET \<equiv> 14"
abbreviation (input) WIOTA_TS_FUNC_GET :: nat where "WIOTA_TS_FUNC_GET \<equiv> 15"
abbreviation (input) WIOTA_PPS_GET :: nat where "WIOTA_PPS_GET \<equiv> 16"
abbreviation (input) WIOTA_OTA_LAST_SUBF_IDLE_GET :: nat where "WIOTA_OTA_LAST_SUBF_IDLE_GET \<equiv> 17"
abbreviation (input) WIOTA_DL_RF_MODE_GET :: nat where "WIOTA_DL_RF_MODE_GET \<equiv> 18"
abbreviation (input) WIOTA_AFH_FUNC_GET :: nat where "WIOTA_AFH_FUNC_GET \<equiv> 19"
abbreviation (input) WIOTA_8288_MEM_GET :: nat where "WIOTA_8288_MEM_GET \<equiv> 20"

text \<open>uc_wiota_send_cmd_e.\<close>
abbreviation (input) WIOTA_SEND_DATA :: nat where "WIOTA_SEND_DATA \<equiv> 0"
abbreviation (input) WIOTA_SEND_BC :: nat where "WIOTA_SEND_BC \<equiv> 1"
abbreviation (input) WIOTA_SEND_MC :: nat where "WIOTA_SEND_MC \<equiv> 2"
abbreviation (input) WIOTA_SCAN_FREQ :: nat where "WIOTA_SCAN_FREQ \<equiv> 3"
abbreviation (input) WIOTA_TEMP_QUERY :: nat where "WIOTA_TEMP_QUERY \<equiv> 4"
abbreviation (input) WIOTA_SYNC_PAGING :: nat where "WIOTA_SYNC_PAGING \<equiv> 5"
abbreviation (input) WIOTA_RECV_SM_BY_FN :: nat where "WIOTA_RECV_SM_BY_FN \<equiv> 6"

text \<open>uc_other_cmd_e.\<close>
abbreviation (input) WIOTA_BL_ADD :: nat where "WIOTA_BL_ADD \<equiv> 0"
abbreviation (input) WIOTA_BL_REMOVE :: nat where "WIOTA_BL_REMOVE \<equiv> 1"
abbreviation (input) WIOTA_BL_GET :: nat where "WIOTA_BL_GET \<equiv> 2"
abbreviation (input) WIOTA_MC_ID_ADD :: nat where "WIOTA_MC_ID_ADD \<equiv> 3"
abbreviation (input) WIOTA_MC_ID_DEL :: nat where "WIOTA_MC_ID_DEL \<equiv> 4"
abbreviation (input) WIOTA_VERSION_GET :: nat where "WIOTA_VERSION_GET \<equiv> 5"
abbreviation (input) WIOTA_ADD_DL_SUBF_DATA :: nat where "WIOTA_ADD_DL_SUBF_DATA \<equiv> 6"
abbreviation (input) WIOTA_MODULEID_GET :: nat where "WIOTA_MODULEID_GET \<equiv> 7"
abbreviation (input) WIOTA_AFH_MAP_SET :: nat where "WIOTA_AFH_MAP_SET \<equiv> 8"
abbreviation (input) WIOTA_RAMP_POWER_CFG_SET :: nat where "WIOTA_RAMP_POWER_CFG_SET \<equiv> 9"

text \<open>uc_wiota_recv_cmd_e.\<close>
abbreviation (input) WIOTA_RECV_DATA :: nat where "WIOTA_RECV_DATA \<equiv> 0"
abbreviation (input) WIOTA_PAGING_CTRL :: nat where "WIOTA_PAGING_CTRL \<equiv> 1"
abbreviation (input) WIOTA_DROP :: nat where "WIOTA_DROP \<equiv> 2"
abbreviation (input) WIOTA_TS_STATE :: nat where "WIOTA_TS_STATE \<equiv> 3"
abbreviation (input) WIOTA_FN_REFRESH :: nat where "WIOTA_FN_REFRESH \<equiv> 4"
abbreviation (input) WIOTA_CCE_ABNORMAL :: nat where "WIOTA_CCE_ABNORMAL \<equiv> 5"

end
