(* ===== verification/SpiLink.thy ===== *)
theory SpiLink
  imports RingBuffer WiotaApi SpiEnums
begin

text \<open>
  The link layer of PS/app/src/uc_wiota_spi_com.c: the state shared with the
  gateway over SPI, the handshake, the exchange of ring indices under an 8-bit
  CRC, and the framing of everything the access point sends.
\<close>

section \<open>State\<close>

text \<open>rb_read_state_t and rb_write_state_t have the same layout.\<close>

record rb_state_t =
  st_index :: nat
  st_mirror :: bool
  st_channel :: u8
  st_crc :: u8

record heart_info_t =
  isr_cnt :: u32
  crc_limit :: nat
  ap8288_state :: nat
  hi_channel :: nat
  heart_crc :: u16

record hand_shake_t =
  hs_state :: u16
  hs_channel :: u16

text \<open>The bit fields of a command header, the data length and the checksum.\<close>

record cmd_header_t =
  cmd_type :: nat
  cmd :: nat
  ch_channel :: nat
  ch_result :: nat
  ch_reserved :: nat
  data_len :: nat
  header_crc :: u32

text \<open>
  The globals of the file.  dl_buf and ul_buf are the arrays behind the two
  rings; \<open>mallocs\<close> counts requests to the heap and \<open>calls\<close> records the calls into
  the protocol stack.
\<close>

record spi_state =
  heart_info :: heart_info_t
  dl_rb_read_state :: rb_state_t
  dl_rb_write_state :: rb_state_t
  dl_buf_state :: hand_shake_t
  ul_rb_read_state :: rb_state_t
  ul_rb_write_state :: rb_state_t
  ul_buf_state :: hand_shake_t
  dl_rb :: rt_ringbuffer
  ul_rb :: rt_ringbuffer
  ap_channel_id :: u8
  dl_irq_cnt :: u32
  ul_irq_cnt :: u32
  g_add_cnt :: u32
  g_del_cnt :: u32
  g_report_fn_to_gw :: u8
  mallocs :: nat
  calls :: "api_call list"

text \<open>
  The gateway writes the shared words concurrently.  \<open>gw_ul_read\<close> is what it has
  made of ul_rb_read_state after the 4 ms pause between two readings.
\<close>

record spi_env = api_env +
  gw_ul_read :: "rb_state_t \<Rightarrow> rb_state_t"

definition rb_state_bytes :: "rb_state_t \<Rightarrow> bytes" where
  "rb_state_bytes st =
     le16 (of_nat (st_index st mod 32768 + (if st_mirror st then 32768 else 0))) @ [st_channel st]"

definition header_flags :: "cmd_header_t \<Rightarrow> nat" where
  "header_flags h = cmd_type h mod 8 + cmd h mod 64 * 8 + ch_channel h mod 8 * 512 +
     ch_result h mod 2 * 4096 + ch_reserved h mod 8 * 8192"

definition header_prefix :: "cmd_header_t \<Rightarrow> bytes" where
  "header_prefix h = le16 (of_nat (header_flags h)) @ le16 (of_nat (data_len h))"

definition header_bytes :: "cmd_header_t \<Rightarrow> bytes" where
  "header_bytes h = header_prefix h @ le32 (header_crc h)"

definition bytes_header :: "bytes \<Rightarrow> cmd_header_t" where
  "bytes_header b = (let w = unat (un_le16 b) in
     \<lparr>cmd_type = w mod 8, cmd = w div 8 mod 64, ch_channel = w div 512 mod 8,
      ch_result = w div 4096 mod 2, ch_reserved = w div 8192 mod 8,
      data_len = unat (un_le16 (drop 2 b)), header_crc = un_le32 (drop 4 b)\<rparr>)"

definition zero_header :: cmd_header_t where
  "zero_header = \<lparr>cmd_type = 0, cmd = 0, ch_channel = 0, ch_result = 0, ch_reserved = 0,
     data_len = 0, header_crc = 0\<rparr>"

section \<open>Handshake and indices\<close>

definition uc_wiota_store_frame_num :: "u32 \<Rightarrow> spi_state \<Rightarrow> spi_state option" where
  "uc_wiota_store_frame_num frame_num s = do {
     b \<leftarrow> mem_write (buffer_ptr (ul_rb s)) 7148 (le32 frame_num);
     Some (s\<lparr>ul_rb := (ul_rb s)\<lparr>buffer_ptr := b\<rparr>\<rparr>)
   }"

definition uc_wiota_enable_ul_irq :: "spi_state \<Rightarrow> spi_state" where
  "uc_wiota_enable_ul_irq s = s\<lparr>ul_irq_cnt := ul_irq_cnt s + 1\<rparr>"

definition rb_state_seal :: "'e api_env_scheme \<Rightarrow> rb_state_t \<Rightarrow> rb_state_t" where
  "rb_state_seal e st = st\<lparr>st_crc := ucast (crc8_calc e (rb_state_bytes st))\<rparr>"

definition hand_shake_done :: "'e api_env_scheme \<Rightarrow> u16 \<Rightarrow> spi_state \<Rightarrow> spi_state" where
  "hand_shake_done e chan s = (
     let c = ucast chan in
     s\<lparr>ap_channel_id := c,
       ul_rb_read_state := rb_state_seal e ((ul_rb_read_state s)\<lparr>st_channel := c\<rparr>),
       dl_rb_write_state := rb_state_seal e ((dl_rb_write_state s)\<lparr>st_channel := c\<rparr>),
       ul_rb_write_state := rb_state_seal e ((ul_rb_write_state s)\<lparr>st_channel := c\<rparr>),
       dl_rb_read_state := rb_state_seal e ((dl_rb_read_state s)\<lparr>st_channel := c\<rparr>)\<rparr>)"

text \<open>
  The polling loop: \<open>gw n\<close> is the value the gateway has put into dl_buf_state at
  the n-th poll.  It does not return while the gateway stays silent.
\<close>

partial_function (option) hand_shake_poll ::
  "'e api_env_scheme \<Rightarrow> (nat \<Rightarrow> hand_shake_t) \<Rightarrow> nat \<Rightarrow> spi_state \<Rightarrow> spi_state option" where
  "hand_shake_poll e gw n s =
     (if hs_state (gw n) = 1
      then Some (hand_shake_done e (hs_channel (gw n)) (s\<lparr>dl_buf_state := gw n\<rparr>))
      else hand_shake_poll e gw (Suc n) s)"

definition uc_wiota_hand_shake_with_gateway ::
  "'e api_env_scheme \<Rightarrow> (nat \<Rightarrow> hand_shake_t) \<Rightarrow> spi_state \<Rightarrow> spi_state option" where
  "uc_wiota_hand_shake_with_gateway e gw s =
     hand_shake_poll e gw 0 (s\<lparr>ul_buf_state := (ul_buf_state s)\<lparr>hs_state := 1\<rparr>\<rparr>)"

definition uc_wiota_ringbuffer_get_dl_write_idx ::
  "'e api_env_scheme \<Rightarrow> spi_state \<Rightarrow> int \<times> spi_state" where
  "uc_wiota_ringbuffer_get_dl_write_idx e s = (
     let st = dl_rb_write_state s in
     if st_channel st \<noteq> ap_channel_id s then (1, s)
     else let write_crc = (ucast (crc8_calc e (rb_state_bytes st)) :: u16) in
       if ucast (st_crc st) = write_crc
       then (0, s\<lparr>dl_rb := (dl_rb s)\<lparr>write_index := st_index st, write_mirror := st_mirror st\<rparr>\<rparr>)
       else (1, s))"

definition uc_wiota_ringbuffer_set_dl_read_idx :: "'e api_env_scheme \<Rightarrow> spi_state \<Rightarrow> spi_state" where
  "uc_wiota_ringbuffer_set_dl_read_idx e s =
     s\<lparr>dl_rb_read_state := rb_state_seal e ((dl_rb_read_state s)
         \<lparr>st_index := read_index (dl_rb s), st_mirror := read_mirror (dl_rb s),
          st_channel := ap_channel_id s\<rparr>)\<rparr>"

definition rb_state_valid :: "'e api_env_scheme \<Rightarrow> rb_state_t \<Rightarrow> bool" where
  "rb_state_valid e st \<longleftrightarrow> ucast (st_crc st) = (ucast (crc8_calc e (rb_state_bytes st)) :: u16)"

fun ul_read_idx_tries :: "nat \<Rightarrow> spi_env \<Rightarrow> spi_state \<Rightarrow> int \<times> spi_state" where
  "ul_read_idx_tries 0 e s = (1, s)"
| "ul_read_idx_tries (Suc k) e s = (
     let st = ul_rb_read_state s in
     if rb_state_valid e st
     then (0, s\<lparr>ul_rb := (ul_rb s)\<lparr>read_index := st_index st, read_mirror := st_mirror st\<rparr>\<rparr>)
     else ul_read_idx_tries k e (s\<lparr>ul_rb_read_state := gw_ul_read e st\<rparr>))"

definition uc_wiota_ringbuffer_get_ul_read_idx :: "spi_env \<Rightarrow> spi_state \<Rightarrow> int \<times> spi_state" where
  "uc_wiota_ringbuffer_get_ul_read_idx e s =
     (if st_channel (ul_rb_read_state s) \<noteq> ap_channel_id s then (1, s)
      else ul_read_idx_tries 2 e s)"

definition uc_wiota_ringbuffer_set_ul_write_idx :: "'e api_env_scheme \<Rightarrow> spi_state \<Rightarrow> spi_state" where
  "uc_wiota_ringbuffer_set_ul_write_idx e s =
     s\<lparr>ul_rb_write_state := rb_state_seal e ((ul_rb_write_state s)
         \<lparr>st_index := write_index (ul_rb s), st_mirror := write_mirror (ul_rb s),
          st_channel := ap_channel_id s\<rparr>)\<rparr>"

definition uc_wiota_get_dl_data_len :: "spi_state \<Rightarrow> nat" where
  "uc_wiota_get_dl_data_len s = (
     let n = to_u16 (rt_ringbuffer_data_len (dl_rb s)) in
     if n = 0 then 0
     else if n < 8 \<or> n > buffer_size (dl_rb s) then 0
     else n)"

section \<open>Framing\<close>

text \<open>
  A message is a header and up to two parameter blocks, each the memory behind
  its pointer and the length to send.
\<close>

type_synonym para = "bytes \<times> nat"

definition malloc :: "'e api_env_scheme \<Rightarrow> nat \<Rightarrow> spi_state \<Rightarrow> bool \<times> spi_state" where
  "malloc e n s = (malloc_ok e (mallocs s) n, s\<lparr>mallocs := mallocs s + 1\<rparr>)"

fun para_data_len :: "para list \<Rightarrow> nat \<Rightarrow> nat" where
  "para_data_len [] n = n"
| "para_data_len ((_, l) # ps) n = para_data_len ps (to_u16 (n + l))"

fun copy_paras :: "para list \<Rightarrow> bytes \<Rightarrow> nat \<Rightarrow> (bytes \<times> nat) option" where
  "copy_paras [] buf w = Some (buf, w)"
| "copy_paras ((p, l) # ps) buf w = do {
     d \<leftarrow> mem_read p 0 l;
     buf' \<leftarrow> mem_write buf w d;
     copy_paras ps buf' (to_u16 (w + l))
   }"

definition build_frame :: "'e api_env_scheme \<Rightarrow> cmd_header_t \<Rightarrow> para list \<Rightarrow> nat \<Rightarrow> nat \<Rightarrow> nat \<Rightarrow>
    (bytes \<times> nat) option" where
  "build_frame e h ps dlen align_data_len total_len = do {
     buf0 \<leftarrow> mem_write (replicate total_len 0) 0 (header_bytes h);
     (buf1, w1) \<leftarrow> copy_paras ps buf0 8;
     let w2 = to_u16 (w1 + (align_data_len - dlen));
     d \<leftarrow> mem_read buf1 0 w2;
     buf2 \<leftarrow> mem_write buf1 w2 (le32 (crc32_calc e d));
     Some (buf2, to_u16 (w2 + 4))
   }"

definition send_header :: "'e api_env_scheme \<Rightarrow> u8 \<Rightarrow> nat \<Rightarrow> cmd_header_t \<Rightarrow> cmd_header_t" where
  "send_header e chan dlen h =
     (let h' = h\<lparr>data_len := dlen, ch_channel := unat chan mod 8, ch_result := 0\<rparr>
      in h'\<lparr>header_crc := crc32_calc e (header_prefix h')\<rparr>)"

definition put_frame :: "spi_env \<Rightarrow> bytes \<Rightarrow> nat \<Rightarrow> spi_state \<Rightarrow> (int \<times> spi_state) option" where
  "put_frame e write_buf write_len s = (
     case uc_wiota_ringbuffer_get_ul_read_idx e s of (r, s1) \<Rightarrow>
       if r = 0 then do {
         (rb, _) \<leftarrow> uc_wiota_ringbuffer_put (ul_rb s1) write_buf write_len;
         Some (0, uc_wiota_enable_ul_irq
                    (uc_wiota_ringbuffer_set_ul_write_idx e (s1\<lparr>ul_rb := rb\<rparr>)))
       } else Some (1, s1))"

text \<open>The result is 0, 1 or -RT_EFULL (-3); \<open>None\<close> is an access outside a buffer.\<close>

definition uc_wiota_send_data_to_gateway ::
  "spi_env \<Rightarrow> cmd_header_t \<Rightarrow> para list \<Rightarrow> spi_state \<Rightarrow> (int \<times> spi_state) option" where
  "uc_wiota_send_data_to_gateway e h ps s = (
     let dlen = para_data_len ps 0;
         align_data_len = to_u16 (align4 dlen);
         h' = send_header e (ap_channel_id s) dlen h
     in if align_data_len > 0 then
          let total_len = to_u16 (8 + align_data_len + 4) in
          case malloc e total_len s of (ok, s1) \<Rightarrow>
            if \<not> ok then Some (-3, s1)
            else do {
              (write_buf, write_len) \<leftarrow> build_frame e h' ps dlen align_data_len total_len;
              put_frame e write_buf write_len s1
            }
        else put_frame e (header_bytes h') 8 s)"

section \<open>Heartbeat and callbacks\<close>

definition api_get :: "spi_env \<Rightarrow> api_call \<Rightarrow> spi_state \<Rightarrow> u32 \<times> spi_state" where
  "api_get e c s = (api_ret e (calls s) c, s\<lparr>calls := calls s @ [c]\<rparr>)"

definition api_do :: "api_call \<Rightarrow> spi_state \<Rightarrow> spi_state" where
  "api_do c s = s\<lparr>calls := calls s @ [c]\<rparr>"

definition heart_bytes :: "heart_info_t \<Rightarrow> bytes" where
  "heart_bytes hi = le32 (isr_cnt hi) @
     le16 (of_nat (crc_limit hi mod 4096 + ap8288_state hi mod 2 * 4096 + hi_channel hi mod 8 * 8192))"

definition uc_wiota_send_heart_msg :: "spi_env \<Rightarrow> u32 \<Rightarrow> spi_state \<Rightarrow> spi_state" where
  "uc_wiota_send_heart_msg e cnt s = (
     let (crc, s1) = api_get e (Get1 C_get_crc) s;
         (st, s2) = api_get e (Get1 C_get_ap8288_state) s1;
         hi = (heart_info s)\<lparr>isr_cnt := cnt, crc_limit := unat crc mod 65536 mod 4096,
                ap8288_state := unat st mod 2, hi_channel := unat (ap_channel_id s) mod 8\<rparr>
     in s2\<lparr>heart_info := hi\<lparr>heart_crc := ucast (crc16_calc e (heart_bytes hi))\<rparr>\<rparr>)"

definition send_recv_msg ::
  "spi_env \<Rightarrow> nat \<Rightarrow> nat \<Rightarrow> para list \<Rightarrow> spi_state \<Rightarrow> (int \<times> spi_state) option" where
  "send_recv_msg e ty c ps s =
     uc_wiota_send_data_to_gateway e (zero_header\<lparr>cmd_type := ty, cmd := c\<rparr>) ps s"

text \<open>The fixed part of recv_info_t after the header, 20 bytes.\<close>

record uc_recv_detail_t =
  rd_user_id :: u32
  rd_data_type :: u32
  rd_data :: bytes
  rd_data_len :: u16
  rd_rssi :: u8
  rd_delay :: u8
  rd_fn_cnt :: u8
  rd_group_idx :: u8
  rd_burst_idx :: u8
  rd_slot_idx :: u8
  rd_frame_num :: u32

definition recv_info_bytes :: "uc_recv_detail_t \<Rightarrow> bytes" where
  "recv_info_bytes d = le32 (rd_user_id d) @ le32 (rd_data_type d) @ le16 (rd_data_len d) @
     [rd_rssi d, rd_delay d, rd_fn_cnt d, rd_group_idx d, rd_burst_idx d, rd_slot_idx d] @
     le32 (rd_frame_num d)"

definition uc_wiota_recv_detail_callback ::
  "spi_env \<Rightarrow> uc_recv_detail_t \<Rightarrow> spi_state \<Rightarrow> spi_state option" where
  "uc_wiota_recv_detail_callback e d s =
     map_option snd (send_recv_msg e CMD_TYPE_RECV WIOTA_RECV_DATA
       [(recv_info_bytes d, 20), (rd_data d, unat (rd_data_len d))] s)"

definition uc_wiota_paging_ctrl_callback ::
  "spi_env \<Rightarrow> u32 \<Rightarrow> u8 \<Rightarrow> u32 \<Rightarrow> spi_state \<Rightarrow> spi_state option" where
  "uc_wiota_paging_ctrl_callback e user_id burst_idx fn_index s =
     map_option snd (send_recv_msg e CMD_TYPE_RECV WIOTA_PAGING_CTRL
       [(le32 user_id @ le32 (ucast burst_idx) @ le32 fn_index, 12)] s)"

text \<open>temp_result->temp is a signed char: it is sign-extended to the unsigned short.\<close>

definition uc_wiota_temp_callback :: "spi_env \<Rightarrow> u8 \<Rightarrow> u8 \<Rightarrow> spi_state \<Rightarrow> spi_state option" where
  "uc_wiota_temp_callback e temp result s =
     map_option snd (send_recv_msg e CMD_TYPE_SEND WIOTA_TEMP_QUERY [(le16 (scast temp) @ le16 (ucast result), 4)] s)"

definition uc_wiota_handle_send_result ::
  "spi_env \<Rightarrow> u32 \<Rightarrow> u32 \<Rightarrow> u32 \<Rightarrow> nat \<Rightarrow> spi_state \<Rightarrow> spi_state option" where
  "uc_wiota_handle_send_result e user_id data_id result c s = do {
     (r, s') \<leftarrow> send_recv_msg e CMD_TYPE_SEND c [(le32 user_id @ le32 data_id @ le32 result, 12)] s;
     Some (if r \<noteq> 0 then s' else if c = WIOTA_SEND_DATA then s'\<lparr>g_del_cnt := g_del_cnt s' + 1\<rparr> else s')
   }"

definition uc_wiota_scan_callback ::
  "spi_env \<Rightarrow> u16 \<Rightarrow> u16 \<Rightarrow> bytes \<Rightarrow> spi_state \<Rightarrow> spi_state option" where
  "uc_wiota_scan_callback e len result data s =
     map_option snd (send_recv_msg e CMD_TYPE_SEND WIOTA_SCAN_FREQ
       ((le16 result @ le16 len, 4) # (if result = 0 then [(data, unat len)] else [])) s)"

definition uc_wiota_sync_paging_callback ::
  "spi_env \<Rightarrow> u32 \<Rightarrow> u32 \<Rightarrow> spi_state \<Rightarrow> spi_state option" where
  "uc_wiota_sync_paging_callback e user_id result s =
     map_option snd (send_recv_msg e CMD_TYPE_SEND WIOTA_SYNC_PAGING [(le32 user_id @ le32 result, 8)] s)"

text \<open>\<open>info\<close> is the 44-byte uc_ts_info_t; its first word is ts_state.\<close>

definition uc_wiota_time_service_info_cb :: "spi_env \<Rightarrow> bytes \<Rightarrow> spi_state \<Rightarrow> spi_state option" where
  "uc_wiota_time_service_info_cb e info s = do {
     ts_state \<leftarrow> read_u32 info 0;
     if ts_state = 4 \<or> ts_state = 5
     then do { d \<leftarrow> mem_read info 0 44; map_option snd (send_recv_msg e CMD_TYPE_RECV WIOTA_TS_STATE [(d, 44)] s) }
     else Some s
   }"

definition uc_wiota_fn_refresh :: "spi_env \<Rightarrow> u32 \<Rightarrow> spi_state \<Rightarrow> spi_state option" where
  "uc_wiota_fn_refresh e frame_num s = do {
     s1 \<leftarrow> uc_wiota_store_frame_num frame_num s;
     let s2 = (if frame_num mod 5 = 0 then uc_wiota_send_heart_msg e frame_num s1 else s1);
     if g_report_fn_to_gw s2 \<noteq> 0
     then map_option snd (send_recv_msg e CMD_TYPE_RECV WIOTA_FN_REFRESH [(le32 frame_num, 4)] s2)
     else Some s2
   }"

text \<open>cce_abnormal_t is padded to its 4-byte alignment.\<close>

definition uc_wiota_cce_abnormal_callback :: "spi_env \<Rightarrow> u8 \<Rightarrow> u8 \<Rightarrow> spi_state \<Rightarrow> spi_state option" where
  "uc_wiota_cce_abnormal_callback e dfe_err_cnt rf_err_cnt s =
     map_option snd (send_recv_msg e CMD_TYPE_RECV WIOTA_CCE_ABNORMAL [([dfe_err_cnt, rf_err_cnt, 0, 0], 4)] s)"

definition wiota_cmd_exec_result :: "spi_env \<Rightarrow> nat \<Rightarrow> nat \<Rightarrow> spi_state \<Rightarrow> spi_state option" where
  "wiota_cmd_exec_result e ty c s = map_option snd (send_recv_msg e ty c [] s)"

section \<open>Start-up\<close>

definition zero_rb_state :: rb_state_t where
  "zero_rb_state = \<lparr>st_index = 0, st_mirror = False, st_channel = 0, st_crc = 0\<rparr>"

definition uc_wiota_spi_com_init ::
  "'e api_env_scheme \<Rightarrow> (nat \<Rightarrow> hand_shake_t) \<Rightarrow> bytes \<Rightarrow> bytes \<Rightarrow> spi_state \<Rightarrow> spi_state option" where
  "uc_wiota_spi_com_init e gw dl_buf ul_buf s = do {
     drb \<leftarrow> uc_wiota_ringbuffer_init (length dl_buf) dl_buf;
     urb \<leftarrow> uc_wiota_ringbuffer_init (length ul_buf - 4) ul_buf;
     let s1 = s\<lparr>dl_rb := drb, ul_rb := urb,
        heart_info := \<lparr>isr_cnt = 0, crc_limit = 0, ap8288_state = 0, hi_channel = 0, heart_crc = 0\<rparr>,
        ul_rb_read_state := zero_rb_state, ul_rb_write_state := zero_rb_state,
        dl_rb_read_state := zero_rb_state, dl_rb_write_state := zero_rb_state,
        dl_buf_state := \<lparr>hs_state = 0, hs_channel = 0\<rparr>,
        ul_buf_state := \<lparr>hs_state = 0, hs_channel = 0\<rparr>\<rparr>;
     uc_wiota_hand_shake_with_gateway e gw (uc_wiota_enable_ul_irq s1)
   }"

section \<open>Layout lemmas\<close>

lemma header_prefix_length [simp, layout]: "length (header_prefix h) = 4"
  by (simp add: header_prefix_def)

lemma header_bytes_length [simp, layout]: "length (header_bytes h) = 8"
  by (simp add: header_bytes_def)

definition header_wf :: "cmd_header_t \<Rightarrow> bool" where
  "header_wf h \<longleftrightarrow> cmd_type h < 8 \<and> cmd h < 64 \<and> ch_channel h < 8 \<and> ch_result h < 2 \<and>
     ch_reserved h < 8 \<and> data_len h < 65536"

lemma header_flags_bound: "header_flags h < 65536"
proof -
  have "cmd_type h mod 8 < 8" "cmd h mod 64 < 64" "ch_channel h mod 8 < 8"
    "ch_result h mod 2 < 2" "ch_reserved h mod 8 < 8" by simp_all
  then show ?thesis unfolding header_flags_def by linarith
qed

lemma header_flags_fields:
  assumes "header_wf h"
  shows "header_flags h mod 8 = cmd_type h" "header_flags h div 8 mod 64 = cmd h"
    "header_flags h div 512 mod 8 = ch_channel h" "header_flags h div 4096 mod 2 = ch_result h"
    "header_flags h div 8192 mod 8 = ch_reserved h"
proof -
  note wf = assms [unfolded header_wf_def]
  have f: "header_flags h = cmd_type h + 8 * (cmd h + 64 * (ch_channel h +
      8 * (ch_result h + 2 * ch_reserved h)))"
    using wf by (simp add: header_flags_def)
  have d: "header_flags h div 512 = header_flags h div 8 div 64"
    "header_flags h div 4096 = header_flags h div 8 div 64 div 8"
    "header_flags h div 8192 = header_flags h div 8 div 64 div 8 div 2"
    by (simp_all flip: div_mult2_eq)
  show "header_flags h mod 8 = cmd_type h" "header_flags h div 8 mod 64 = cmd h"
    "header_flags h div 512 mod 8 = ch_channel h" "header_flags h div 4096 mod 2 = ch_result h"
    "header_flags h div 8192 mod 8 = ch_reserved h"
    unfolding d unfolding f using wf by (simp_all only: horner) simp
qed

lemma bytes_header_header_bytes [simp]:
  assumes "header_wf h"
  shows "bytes_header (header_bytes h @ r) = h"
proof -
  have dl: "unat (of_nat (data_len h) :: u16) = data_len h"
    using assms by (simp add: header_wf_def unat_of_nat16)
  have fl: "unat (of_nat (header_flags h) :: u16) = header_flags h"
    using header_flags_bound by (rule unat_of_nat16)
  have "drop 2 (header_bytes h @ r) = le16 (of_nat (data_len h)) @ le32 (header_crc h) @ r"
    "drop 4 (header_bytes h @ r) = le32 (header_crc h) @ r"
    "header_bytes h @ r = le16 (of_nat (header_flags h)) @ drop 2 (header_bytes h @ r)"
    by (simp_all add: header_bytes_def header_prefix_def le16_def)
  then have "bytes_header (header_bytes h @ r) =
      \<lparr>cmd_type = header_flags h mod 8, cmd = header_flags h div 8 mod 64,
       ch_channel = header_flags h div 512 mod 8, ch_result = header_flags h div 4096 mod 2,
       ch_reserved = header_flags h div 8192 mod 8, data_len = data_len h,
       header_crc = header_crc h\<rparr>"
    unfolding bytes_header_def Let_def
    by (metis dl fl un_le16_le16 un_le32_le32)
  then show ?thesis by (simp add: header_flags_fields [OF assms])
qed

section \<open>The frame on the wire\<close>

definition frame_body :: "cmd_header_t \<Rightarrow> bytes \<Rightarrow> bytes" where
  "frame_body h d = header_bytes h @ d @ replicate (align4 (length d) - length d) 0"

definition frame_bytes :: "'e api_env_scheme \<Rightarrow> cmd_header_t \<Rightarrow> bytes \<Rightarrow> bytes" where
  "frame_bytes e h d =
     (if d = [] then header_bytes h else frame_body h d @ le32 (crc32_calc e (frame_body h d)))"

lemma frame_body_length [layout]: "length (frame_body h d) = 8 + align4 (length d)"
  using align4_ge [of "length d"] by (simp add: frame_body_def)

lemma frame_bytes_length [layout]:
  "length (frame_bytes e h d) = 8 + (if d = [] then 0 else align4 (length d) + 4)"
  by (simp add: frame_bytes_def frame_body_length)

lemma frame_bytes_dvd [simp]: "4 dvd length (frame_bytes e h d)"
  by (simp add: frame_bytes_length)

definition payload :: "para list \<Rightarrow> bytes" where
  "payload ps = concat (map (\<lambda>(p, l). take l p) ps)"

definition paras_ok :: "para list \<Rightarrow> bool" where
  "paras_ok ps \<longleftrightarrow> (\<forall>(p, l) \<in> set ps. l \<le> length p)"

lemma payload_simps [simp]:
  "payload [] = []" "payload ((p, l) # ps) = take l p @ payload ps"
  by (simp_all add: payload_def)

lemma paras_ok_simps [simp]:
  "paras_ok []" "paras_ok ((p, l) # ps) \<longleftrightarrow> l \<le> length p \<and> paras_ok ps"
  by (simp_all add: paras_ok_def)

lemma para_data_len_payload:
  "paras_ok ps \<Longrightarrow> n + length (payload ps) < 65536 \<Longrightarrow>
     para_data_len ps n = n + length (payload ps)"
  by (induction ps n rule: para_data_len.induct) auto

lemma copy_paras_payload:
  assumes "paras_ok ps" "length pre = w" "w + length (payload ps) < 65536"
    "length (payload ps) \<le> length rest"
  shows "copy_paras ps (pre @ rest) w =
    Some (pre @ payload ps @ drop (length (payload ps)) rest, w + length (payload ps))"
  using assms
proof (induction ps arbitrary: pre rest w)
  case (Cons a ps)
  obtain p l where a: "a = (p, l)" by force
  with Cons.prems have l: "l \<le> length p" "w + l < 65536" "l \<le> length rest" by auto
  have "copy_paras ps ((pre @ take l p) @ drop l rest) (w + l) =
    Some ((pre @ take l p) @ payload ps @ drop (length (payload ps)) (drop l rest),
          w + l + length (payload ps))"
    using Cons.prems a l by (intro Cons.IH) auto
  then show ?case
    using Cons.prems(2) a l by (simp add: mem_read_def mem_write_def ac_simps)
qed simp

lemma build_frame_eq:
  assumes ok: "paras_ok ps" and d: "d = payload ps" "d \<noteq> []" "length d < 65000"
  shows "build_frame e h ps (length d) (align4 (length d)) (12 + align4 (length d)) =
    Some (frame_bytes e h d, length (frame_bytes e h d))"
proof -
  let ?n = "align4 (length d)"
  have n: "length d \<le> ?n" "?n < 65004" using align4_ge align4_lt [of "length d"] d(3) by auto
  have "mem_write (replicate (12 + ?n) 0) 0 (header_bytes h) =
      Some (header_bytes h @ replicate (?n + 4) 0)"
    by (simp add: mem_write_def)
  moreover have "copy_paras ps (header_bytes h @ replicate (?n + 4) 0) 8 =
      Some (header_bytes h @ d @ drop (length d) (replicate (?n + 4) 0), 8 + length d)"
    using copy_paras_payload [OF ok, of "header_bytes h" 8 "replicate (?n + 4) 0"] d n by simp
  moreover have "header_bytes h @ d @ drop (length d) (replicate (?n + 4) 0) =
      frame_body h d @ replicate 4 0"
    using n by (simp add: frame_body_def flip: replicate_add)
  moreover have "mem_read (frame_body h d @ replicate 4 0) 0 (8 + ?n) = Some (frame_body h d)"
    by (simp add: mem_read_def frame_body_length)
  moreover have "mem_write (frame_body h d @ replicate 4 0) (8 + ?n) (le32 c) =
      Some (frame_body h d @ le32 c)" for c
    by (simp add: mem_write_def frame_body_length)
  ultimately show ?thesis
    using n d(2) by (simp add: build_frame_def frame_bytes_def frame_body_length)
qed

section \<open>Sending\<close>

text \<open>
  The uplink ring as the next send sees it, with the read index the gateway
  published; the link is ready when that index is authentic and consistent.
\<close>

definition ul_synced :: "spi_state \<Rightarrow> rt_ringbuffer" where
  "ul_synced s = (ul_rb s)\<lparr>read_index := st_index (ul_rb_read_state s),
     read_mirror := st_mirror (ul_rb_read_state s)\<rparr>"

definition ul_ready :: "'e api_env_scheme \<Rightarrow> spi_state \<Rightarrow> bool" where
  "ul_ready e s \<longleftrightarrow> st_channel (ul_rb_read_state s) = ap_channel_id s \<and>
     rb_state_valid e (ul_rb_read_state s) \<and> rb_inv (ul_synced s)"

definition ul_queue :: "spi_state \<Rightarrow> bytes" where
  "ul_queue s = rb_contents (ul_synced s)"

definition ul_space :: "spi_state \<Rightarrow> nat" where
  "ul_space s = rt_ringbuffer_space_len (ul_synced s)"

definition uplinked :: "'e api_env_scheme \<Rightarrow> rt_ringbuffer \<Rightarrow> spi_state \<Rightarrow> spi_state" where
  "uplinked e rb s = uc_wiota_enable_ul_irq (uc_wiota_ringbuffer_set_ul_write_idx e (s\<lparr>ul_rb := rb\<rparr>))"

lemmas uplinked_defs =
  uplinked_def uc_wiota_enable_ul_irq_def uc_wiota_ringbuffer_set_ul_write_idx_def

lemma uplinked_frame [simp]:
  "ul_rb (uplinked e rb s) = rb" "ul_rb_read_state (uplinked e rb s) = ul_rb_read_state s"
  "ap_channel_id (uplinked e rb s) = ap_channel_id s" "dl_rb (uplinked e rb s) = dl_rb s"
  "calls (uplinked e rb s) = calls s" "mallocs (uplinked e rb s) = mallocs s"
  "ul_irq_cnt (uplinked e rb s) = ul_irq_cnt s + 1" "g_add_cnt (uplinked e rb s) = g_add_cnt s"
  "g_del_cnt (uplinked e rb s) = g_del_cnt s" "dl_rb_read_state (uplinked e rb s) = dl_rb_read_state s"
  "dl_rb_write_state (uplinked e rb s) = dl_rb_write_state s"
  "ul_rb_write_state (uplinked e rb s) = rb_state_seal e ((ul_rb_write_state s)
     \<lparr>st_index := write_index rb, st_mirror := write_mirror rb, st_channel := ap_channel_id s\<rparr>)"
  by (simp_all add: uplinked_defs)

lemma uplinked_mallocs: "(uplinked e rb s)\<lparr>mallocs := mallocs s\<rparr> = uplinked e rb s"
  by (cases s) (simp add: uplinked_defs)

lemma get_ul_read_idx_ready:
  "ul_ready e s \<Longrightarrow> uc_wiota_ringbuffer_get_ul_read_idx e s = (0, s\<lparr>ul_rb := ul_synced s\<rparr>)"
  by (simp add: ul_ready_def uc_wiota_ringbuffer_get_ul_read_idx_def numeral_2_eq_2 ul_synced_def Let_def)

lemma put_frame_ok:
  assumes "ul_ready e s" "4 dvd length f" "length f \<le> ul_space s"
  shows "\<exists>rb. put_frame e f (length f) s = Some (0, uplinked e rb s) \<and> rb_inv rb \<and>
           rb_contents rb = ul_queue s @ f \<and> rt_ringbuffer_space_len rb = ul_space s - length f \<and>
           read_index rb = st_index (ul_rb_read_state s) \<and>
           read_mirror rb = st_mirror (ul_rb_read_state s) \<and>
           length (buffer_ptr rb) = length (buffer_ptr (ul_rb s)) \<and>
           buffer_size rb = buffer_size (ul_rb s)"
proof -
  have "rb_inv (ul_synced s)" using assms(1) by (simp add: ul_ready_def)
  with assms obtain rb where rb: "uc_wiota_ringbuffer_put (ul_synced s) f (length f) = Some (rb, length f)"
    "rb_inv rb" "rb_contents rb = rb_contents (ul_synced s) @ f"
    "rt_ringbuffer_space_len rb = rt_ringbuffer_space_len (ul_synced s) - length f"
    using rbq.put_ok [of "ul_synced s" f] by (auto simp: ul_space_def)
  note fr = put_frame_rule [OF rb(1)]
  show ?thesis
    using rb fr get_ul_read_idx_ready [OF assms(1)]
    by (intro exI [of _ rb])
      (simp add: put_frame_def uplinked_def ul_queue_def ul_space_def, simp add: ul_synced_def)
qed

lemma put_frame_full:
  assumes "ul_ready e s" "4 dvd length f" "length f < 65536" "ul_space s < length f"
  shows "put_frame e f (length f) s = Some (0, uplinked e (ul_synced s) s)"
  using assms rbq.put_full [of "ul_synced s" f] get_ul_read_idx_ready [OF assms(1)]
  by (simp add: put_frame_def uplinked_def ul_ready_def ul_space_def)

text \<open>What one successful send does to the state.\<close>

definition sends :: "'e api_env_scheme \<Rightarrow> bytes \<Rightarrow> spi_state \<Rightarrow> spi_state \<Rightarrow> bool" where
  "sends e f s s' \<longleftrightarrow> (\<exists>rb k. s' = (uplinked e rb s)\<lparr>mallocs := k\<rparr> \<and> rb_inv rb \<and>
     rb_contents rb = ul_queue s @ f \<and> rt_ringbuffer_space_len rb = ul_space s - length f \<and>
     read_index rb = st_index (ul_rb_read_state s) \<and>
     read_mirror rb = st_mirror (ul_rb_read_state s) \<and>
     length (buffer_ptr rb) = length (buffer_ptr (ul_rb s)) \<and>
     buffer_size rb = buffer_size (ul_rb s))"

lemma sends_queue:
  assumes "sends e f s s'" "ul_ready e s"
  shows "ul_ready e s'" "ul_queue s' = ul_queue s @ f" "ul_space s' = ul_space s - length f"
proof -
  obtain rb k where s': "s' = (uplinked e rb s)\<lparr>mallocs := k\<rparr>" and rb: "rb_inv rb"
    "rb_contents rb = ul_queue s @ f" "rt_ringbuffer_space_len rb = ul_space s - length f"
    "read_index rb = st_index (ul_rb_read_state s)" "read_mirror rb = st_mirror (ul_rb_read_state s)"
    using assms(1) by (auto simp: sends_def)
  have "ul_synced s' = rb" using rb(4,5) by (simp add: s' ul_synced_def)
  then show "ul_ready e s'" "ul_queue s' = ul_queue s @ f" "ul_space s' = ul_space s - length f"
    using rb assms(2) by (simp_all add: ul_ready_def ul_queue_def ul_space_def) (simp add: s')+
qed

lemma sends_frame:
  assumes "sends e f s s'"
  shows "ap_channel_id s' = ap_channel_id s" "dl_rb s' = dl_rb s" "calls s' = calls s"
    "g_add_cnt s' = g_add_cnt s" "g_del_cnt s' = g_del_cnt s" "ul_irq_cnt s' = ul_irq_cnt s + 1"
    "dl_rb_read_state s' = dl_rb_read_state s" "dl_rb_write_state s' = dl_rb_write_state s"
    "ul_rb_read_state s' = ul_rb_read_state s" "buffer_size (ul_rb s') = buffer_size (ul_rb s)"
    "length (buffer_ptr (ul_rb s')) = length (buffer_ptr (ul_rb s))"
    "ul_rb_write_state s' = rb_state_seal e ((ul_rb_write_state s)\<lparr>st_index := write_index (ul_rb s'),
       st_mirror := write_mirror (ul_rb s'), st_channel := ap_channel_id s\<rparr>)"
  using assms by (auto simp: sends_def)

lemma rb_state_seal_valid:
  assumes "\<And>d. unat (crc8_calc e d) < 256"
  shows "rb_state_valid e (rb_state_seal e st)"
proof -
  have "rb_state_bytes (rb_state_seal e st) = rb_state_bytes st"
    by (simp add: rb_state_seal_def rb_state_bytes_def)
  moreover have "(ucast (ucast w :: u8) :: u16) = ucast w" if "unat w < 256" for w :: u32
    using that by (simp add: word_unat_eq_iff unsigned_ucast_eq unsigned_take_bit_eq take_bit_nat_eq_self)
  ultimately show ?thesis using assms by (simp add: rb_state_valid_def rb_state_seal_def)
qed

definition wire_frame :: "'e api_env_scheme \<Rightarrow> spi_state \<Rightarrow> cmd_header_t \<Rightarrow> bytes \<Rightarrow> bytes" where
  "wire_frame e s h d = frame_bytes e (send_header e (ap_channel_id s) (length d) h) d"

lemma send_ok:
  assumes "ul_ready e s" "paras_ok ps" "length (payload ps) < 65000"
    and "payload ps \<noteq> [] \<Longrightarrow> malloc_ok e (mallocs s) (12 + align4 (length (payload ps)))"
    and "length (wire_frame e s h (payload ps)) \<le> ul_space s"
  shows "\<exists>s'. uc_wiota_send_data_to_gateway e h ps s = Some (0, s') \<and>
           sends e (wire_frame e s h (payload ps)) s s'"
proof -
  let ?d = "payload ps"
  have dl: "para_data_len ps 0 = length ?d"
    using para_data_len_payload [of ps 0] assms(2,3) by simp
  have al: "align4 (length ?d) < 65004" using align4_lt [of "length ?d"] assms(3) by simp
  show ?thesis
  proof (cases "?d = []")
    case True
    then have f: "wire_frame e s h ?d = header_bytes (send_header e (ap_channel_id s) 0 h)"
      by (simp add: wire_frame_def frame_bytes_def)
    obtain rb where "uc_wiota_send_data_to_gateway e h ps s = Some (0, uplinked e rb s)"
      "rb_inv rb" "rb_contents rb = ul_queue s @ wire_frame e s h ?d"
      "rt_ringbuffer_space_len rb = ul_space s - length (wire_frame e s h ?d)"
      "read_index rb = st_index (ul_rb_read_state s)"
      "read_mirror rb = st_mirror (ul_rb_read_state s)"
      "length (buffer_ptr rb) = length (buffer_ptr (ul_rb s))"
      "buffer_size rb = buffer_size (ul_rb s)"
      using put_frame_ok [OF assms(1) _ assms(5)] f dl True
      by (auto simp: uc_wiota_send_data_to_gateway_def Let_def)
    then show ?thesis unfolding sends_def using uplinked_mallocs by metis
  next
    case False
    let ?s = "s\<lparr>mallocs := mallocs s + 1\<rparr>"
    have rdy: "ul_ready e ?s" "ul_space ?s = ul_space s" "ul_queue ?s = ul_queue s"
      using assms(1) by (simp_all add: ul_ready_def ul_space_def ul_queue_def ul_synced_def)
    let ?f = "wire_frame e s h ?d"
    have bf: "build_frame e (send_header e (ap_channel_id s) (length ?d) h) ps (length ?d)
        (align4 (length ?d)) (12 + align4 (length ?d)) = Some (?f, length ?f)"
      using build_frame_eq [OF assms(2) refl False assms(3)] by (simp add: wire_frame_def)
    obtain rb where rb: "put_frame e ?f (length ?f) ?s = Some (0, uplinked e rb ?s)" "rb_inv rb"
      "rb_contents rb = ul_queue s @ ?f" "rt_ringbuffer_space_len rb = ul_space s - length ?f"
      "read_index rb = st_index (ul_rb_read_state s)"
      "read_mirror rb = st_mirror (ul_rb_read_state s)"
      "length (buffer_ptr rb) = length (buffer_ptr (ul_rb s))"
      "buffer_size rb = buffer_size (ul_rb s)"
      using put_frame_ok [OF rdy(1), of ?f] assms(5) rdy by (auto simp: wire_frame_def)
    have up: "uplinked e rb ?s = (uplinked e rb s)\<lparr>mallocs := mallocs s + 1\<rparr>"
      by (simp add: uplinked_defs)
    have "uc_wiota_send_data_to_gateway e h ps s = Some (0, uplinked e rb ?s)"
      using bf rb(1) dl al False assms(4)
      by (simp add: uc_wiota_send_data_to_gateway_def Let_def malloc_def)
    then show ?thesis using rb up by (auto simp: sends_def)
  qed
qed

section \<open>Handshake and start-up\<close>

lemma hand_shake_poll_first:
  assumes "hs_state (gw n) = 1" "\<And>i. m \<le> i \<Longrightarrow> i < n \<Longrightarrow> hs_state (gw i) \<noteq> 1" "m \<le> n"
  shows "hand_shake_poll e gw m s =
    Some (hand_shake_done e (hs_channel (gw n)) (s\<lparr>dl_buf_state := gw n\<rparr>))"
  using assms
proof (induction "n - m" arbitrary: m)
  case 0
  then show ?case by (subst hand_shake_poll.simps) simp
next
  case (Suc k)
  then have "hs_state (gw m) \<noteq> 1" "Suc m \<le> n" by auto
  with Suc show ?case by (subst hand_shake_poll.simps) simp
qed

lemma store_frame_num_contents:
  assumes "rb_inv (ul_rb s)" "buffer_size (ul_rb s) \<le> 7148" "7152 \<le> length (buffer_ptr (ul_rb s))"
  shows "\<exists>s'. uc_wiota_store_frame_num fn s = Some s' \<and> rb_inv (ul_rb s') \<and>
           rb_contents (ul_rb s') = rb_contents (ul_rb s) \<and>
           read_u32 (buffer_ptr (ul_rb s')) 7148 = Some fn"
proof -
  let ?b = "buffer_ptr (ul_rb s)"
  let ?b' = "take 7148 ?b @ le32 fn @ drop 7152 ?b"
  let ?s' = "s\<lparr>ul_rb := (ul_rb s)\<lparr>buffer_ptr := ?b'\<rparr>\<rparr>"
  have st: "uc_wiota_store_frame_num fn s = Some ?s'"
    using assms(3) by (simp add: uc_wiota_store_frame_num_def mem_write_def)
  have inv: "rb_inv (ul_rb ?s')" using assms(1,3) by (auto simp: rb_inv_def)
  have dl: "rt_ringbuffer_data_len (ul_rb ?s') = rt_ringbuffer_data_len (ul_rb s)"
    by (simp add: rt_ringbuffer_data_len_def rt_ringbuffer_status_def)
  have pos: "0 < buffer_size (ul_rb s)" using assms(1) by (simp add: rb_inv_def)
  have same: "?b' ! (i mod buffer_size (ul_rb s)) = ?b ! (i mod buffer_size (ul_rb s))" for i
  proof -
    have "i mod buffer_size (ul_rb s) < 7148"
      using mod_less_divisor [OF pos, of i] assms(2) by linarith
    then show ?thesis using assms(3) by (simp add: nth_append)
  qed
  have "rb_contents (ul_rb ?s') = rb_contents (ul_rb s)"
    unfolding rb_contents_def dl by (simp add: same)
  moreover have "read_u32 ?b' 7148 = Some fn"
    using assms(3) by (simp add: read_u32_def mem_read_def)
  ultimately show ?thesis using st inv by simp
qed

section \<open>A concrete environment\<close>

text \<open>
  An instance of the parameters for the worked examples: additive checksums, a
  heap that never runs out and a stack that answers 0.
\<close>

definition sample_env :: spi_env where
  "sample_env = \<lparr>crc8_calc = (\<lambda>d. ucast (sum_list d)), crc16_calc = (\<lambda>d. ucast (sum_list d)),
     crc32_calc = (\<lambda>d. ucast (sum_list d)), malloc_ok = (\<lambda>_ _. True), api_ret = (\<lambda>_ _. 0),
     api_out = (\<lambda>_ _. []),
     env_system_config = (\<lambda>_. \<lparr>ap_tx_power = 21, id_len = 2, pp = 1, symbol_length = 1,
       dlul_ratio = 0, bt_value = 1, group_number = 0, spectrum_idx = 3, old_subsys_v = 0,
       bitscb = 1, freq_idx = 100, sc_reserved = 0, subsystem_id = 0x21456981\<rparr>),
     env_paging_tx_cfg = (\<lambda>_. \<lparr>tx_freq = 100, tx_spectrum_idx = 3, tx_bandwidth = 1,
       tx_symbol_length = 1, tx_awaken_id = 1, tx_mode = 0, tx_send_time = 20\<rparr>),
     env_blacklist = (\<lambda>_. (0, [])), env_version = (\<lambda>_. ([], 0)), env_scan = (\<lambda>_. (0, [])),
     env_temp = (\<lambda>_. 25), gw_ul_read = (\<lambda>st. st)\<rparr>"

definition sample_ring :: "nat \<Rightarrow> rt_ringbuffer" where
  "sample_ring n = \<lparr>buffer_ptr = replicate n 0, read_mirror = False, read_index = 0,
     write_mirror = False, write_index = 0, buffer_size = n\<rparr>"

definition sample_state :: spi_state where
  "sample_state = \<lparr>heart_info = \<lparr>isr_cnt = 0, crc_limit = 0, ap8288_state = 0, hi_channel = 0,
       heart_crc = 0\<rparr>,
     dl_rb_read_state = zero_rb_state, dl_rb_write_state = zero_rb_state,
     dl_buf_state = \<lparr>hs_state = 1, hs_channel = 0\<rparr>,
     ul_rb_read_state = zero_rb_state, ul_rb_write_state = zero_rb_state,
     ul_buf_state = \<lparr>hs_state = 1, hs_channel = 0\<rparr>,
     dl_rb = sample_ring 64, ul_rb = sample_ring 64, ap_channel_id = 0, dl_irq_cnt = 0,
     ul_irq_cnt = 0, g_add_cnt = 0, g_del_cnt = 0, g_report_fn_to_gw = 0, mallocs = 0, calls = []\<rparr>"

lemma sample_crc8: "unat (crc8_calc sample_env d) < 256"
  using unsigned_less [of "sum_list d", where 'a = nat]
  by (simp add: sample_env_def unsigned_ucast_eq take_bit_nat_eq_self)

lemma sample_ring_facts:
  "0 < n \<Longrightarrow> n < 32768 \<Longrightarrow> rb_inv (sample_ring n)" "rb_contents (sample_ring n) = []"
  "n < 32768 \<Longrightarrow> rt_ringbuffer_space_len (sample_ring n) = n"
  by (simp_all add: sample_ring_def rb_inv_def rb_contents_def rt_ringbuffer_data_len_def
      rt_ringbuffer_status_def rt_ringbuffer_space_len_def)

lemma sample_synced: "ul_synced sample_state = sample_ring 64"
  by (simp add: ul_synced_def sample_state_def zero_rb_state_def sample_ring_def)

lemma sample_ready:
  "ul_ready sample_env sample_state" "ul_queue sample_state = []" "ul_space sample_state = 64"
proof -
  have "rb_state_valid sample_env zero_rb_state"
    by (simp add: rb_state_valid_def zero_rb_state_def sample_env_def rb_state_bytes_def le16_def)
  then show "ul_ready sample_env sample_state"
    unfolding ul_ready_def sample_synced using sample_ring_facts(1) [of 64]
    by (simp add: sample_state_def zero_rb_state_def)
qed (simp_all add: ul_queue_def ul_space_def sample_synced sample_ring_facts)

section \<open>Properties\<close>

text \<open>C22: After start-up and the handshake the link is usable: once the gateway
  raises its state word the polling loop returns, the access point has taken the
  channel of that very poll, both rings are empty with all but the frame-number word
  available uplink, and the index words the next send and the next receive check are
  authentic.\<close>

theorem spi_com_init_ready:
  assumes "length dl_buf = 7152" "length ul_buf = 7152"
    and "hs_state (gw n) = 1" "\<And>i. i < n \<Longrightarrow> hs_state (gw i) \<noteq> 1"
    and "\<And>d. unat (crc8_calc e d) < 256"
  shows "\<exists>s'. uc_wiota_spi_com_init e gw dl_buf ul_buf s = Some s' \<and>
           ap_channel_id s' = ucast (hs_channel (gw n)) \<and>
           ul_ready e s' \<and> ul_queue s' = [] \<and> ul_space s' = 7148 \<and>
           rb_inv (dl_rb s') \<and> rb_contents (dl_rb s') = [] \<and>
           rb_state_valid e (dl_rb_write_state s') \<and>
           st_channel (dl_rb_write_state s') = ap_channel_id s' \<and>
           hs_state (ul_buf_state s') = 1"
proof -
  obtain drb where drb: "uc_wiota_ringbuffer_init 7152 dl_buf = Some drb"
    using assms(1) by (simp add: init_eq_Some align_down4_def)
  obtain urb where urb: "uc_wiota_ringbuffer_init 7148 ul_buf = Some urb"
    using assms(2) by (simp add: init_eq_Some align_down4_def)
  have urb': "urb\<lparr>read_index := 0, read_mirror := False\<rparr> = urb"
    using urb by (auto simp: init_eq_Some)
  note inv = init_inv [OF drb] init_inv [OF urb]
  have poll: "hand_shake_poll e gw 0 t =
      Some (hand_shake_done e (hs_channel (gw n)) (t\<lparr>dl_buf_state := gw n\<rparr>))" for t
    by (rule hand_shake_poll_first) (use assms in auto)
  show ?thesis
    using drb urb inv urb' rb_state_seal_valid [OF assms(5)]
    by (simp add: uc_wiota_spi_com_init_def assms(1,2) uc_wiota_hand_shake_with_gateway_def poll
        hand_shake_done_def Let_def ul_ready_def ul_queue_def ul_space_def ul_synced_def
        align_down4_def uc_wiota_enable_ul_irq_def)
      (simp add: rb_state_seal_def zero_rb_state_def)
qed

theorem spi_com_init_ready_witness:
  "\<exists>s'. uc_wiota_spi_com_init sample_env (\<lambda>n. \<lparr>hs_state = (if n < 3 then 0 else 1), hs_channel = 5\<rparr>)
      (replicate 7152 0) (replicate 7152 0) sample_state = Some s' \<and> ap_channel_id s' = 5 \<and>
      ul_space s' = 7148"
  using spi_com_init_ready [of "replicate 7152 0" "replicate 7152 0"
      "\<lambda>n. \<lparr>hs_state = (if n < 3 then 0 else 1), hs_channel = 5\<rparr>" 3 sample_env sample_state]
    sample_crc8 by auto

text \<open>C18: Uc_wiota_send_data_to_gateway on a ready link with room for the message
  answers 0 and appends to the uplink queue exactly one frame: the header with the
  access point's channel and the payload length under its CRC, the parameter blocks in
  order, zero padding to a word and the CRC over all of it (a header alone carries no
  second CRC).  The gateway is notified once, the write index it is shown is the new
  one under a valid CRC, and the link stays ready.\<close>

theorem send_data_to_gateway_spec:
  assumes "ul_ready e s" "paras_ok ps" "length (payload ps) < 65000"
    and "payload ps \<noteq> [] \<Longrightarrow> malloc_ok e (mallocs s) (12 + align4 (length (payload ps)))"
    and "length (wire_frame e s h (payload ps)) \<le> ul_space s"
    and "\<And>d. unat (crc8_calc e d) < 256"
  shows "\<exists>s'. uc_wiota_send_data_to_gateway e h ps s = Some (0, s') \<and>
           ul_queue s' = ul_queue s @ wire_frame e s h (payload ps) \<and> ul_ready e s' \<and>
           ul_irq_cnt s' = ul_irq_cnt s + 1 \<and>
           st_index (ul_rb_write_state s') = write_index (ul_rb s') \<and>
           st_mirror (ul_rb_write_state s') = write_mirror (ul_rb s') \<and>
           rb_state_valid e (ul_rb_write_state s')"
proof -
  obtain s' where s': "uc_wiota_send_data_to_gateway e h ps s = Some (0, s')"
    "sends e (wire_frame e s h (payload ps)) s s'"
    using send_ok [of e s ps h] assms(1-5) by auto
  show ?thesis
    using s' sends_queue [OF s'(2) assms(1)] sends_frame [OF s'(2)] rb_state_seal_valid [OF assms(6)]
    by (auto simp: rb_state_seal_def)
qed

theorem send_data_to_gateway_spec_witness:
  "\<exists>s'. uc_wiota_send_data_to_gateway sample_env (zero_header\<lparr>cmd_type := 5, cmd := 4\<rparr>)
      [([1, 2, 3, 4, 5], 5)] sample_state = Some (0, s') \<and>
    ul_queue s' = wire_frame sample_env sample_state (zero_header\<lparr>cmd_type := 5, cmd := 4\<rparr>) [1, 2, 3, 4, 5]"
proof -
  have "malloc_ok sample_env (mallocs sample_state) n" for n by (simp add: sample_env_def)
  then show ?thesis
    using send_data_to_gateway_spec [OF sample_ready(1), of "[([1, 2, 3, 4, 5], 5)]"
        "zero_header\<lparr>cmd_type := 5, cmd := 4\<rparr>"] sample_ready sample_crc8
    by (auto simp: wire_frame_def frame_bytes_length align4_def)
qed

text \<open>A frame that does not fit is dropped without a trace in the result: send
  answers 0, as for a message that was queued, and the queue is unchanged.\<close>

theorem send_data_full_reports_success:
  assumes "ul_ready e s" "paras_ok ps" "payload ps = []" "ul_space s < 8"
  shows "\<exists>s'. uc_wiota_send_data_to_gateway e h ps s = Some (0, s') \<and> ul_queue s' = ul_queue s \<and>
           ul_irq_cnt s' = ul_irq_cnt s + 1"
proof -
  have dl: "para_data_len ps 0 = 0"
    using para_data_len_payload [of ps 0] assms(2,3) by simp
  then show ?thesis
    using put_frame_full [OF assms(1), of "header_bytes (send_header e (ap_channel_id s) 0 h)"] assms(4)
    by (simp add: uc_wiota_send_data_to_gateway_def Let_def ul_queue_def) (simp add: ul_synced_def)
qed

theorem send_data_full_reports_success_witness:
  "\<exists>s'. uc_wiota_send_data_to_gateway sample_env zero_header []
      (sample_state\<lparr>ul_rb := sample_ring 4\<rparr>) = Some (0, s') \<and> ul_queue s' = []"
proof -
  have syn: "ul_synced (sample_state\<lparr>ul_rb := sample_ring 4\<rparr>) = sample_ring 4"
    by (simp add: ul_synced_def sample_state_def zero_rb_state_def sample_ring_def)
  then have "ul_ready sample_env (sample_state\<lparr>ul_rb := sample_ring 4\<rparr>)"
    using sample_ready(1) sample_ring_facts(1) [of 4] by (simp add: ul_ready_def)
  then show ?thesis
    using send_data_full_reports_success [of sample_env "sample_state\<lparr>ul_rb := sample_ring 4\<rparr>" "[]" zero_header]
      syn by (auto simp: ul_space_def ul_queue_def sample_ring_facts)
qed

text \<open>The frame interrupt publishes the frame number in the last word of ul_buf and
  leaves every queued uplink byte alone, because the ring was set up four bytes short of
  the array; the heartbeat takes the new count exactly when the number is a multiple
  of 5, and nothing is sent while the gateway has not asked for reports.\<close>

theorem fn_refresh_safe:
  assumes "rb_inv (ul_rb s)" "buffer_size (ul_rb s) \<le> 7148" "7152 \<le> length (buffer_ptr (ul_rb s))"
    and "g_report_fn_to_gw s = 0"
  shows "\<exists>s'. uc_wiota_fn_refresh e fn s = Some s' \<and> rb_inv (ul_rb s') \<and>
           rb_contents (ul_rb s') = rb_contents (ul_rb s) \<and>
           read_u32 (buffer_ptr (ul_rb s')) 7148 = Some fn \<and>
           ul_irq_cnt s' = ul_irq_cnt s \<and>
           isr_cnt (heart_info s') = (if fn mod 5 = 0 then fn else isr_cnt (heart_info s))"
proof -
  obtain s1 where s1: "uc_wiota_store_frame_num fn s = Some s1" "rb_inv (ul_rb s1)"
    "rb_contents (ul_rb s1) = rb_contents (ul_rb s)" "read_u32 (buffer_ptr (ul_rb s1)) 7148 = Some fn"
    using store_frame_num_contents assms by blast
  have "g_report_fn_to_gw s1 = 0" "heart_info s1 = heart_info s" "ul_irq_cnt s1 = ul_irq_cnt s"
    using s1(1) assms(4) by (auto simp: uc_wiota_store_frame_num_def bind_eq_Some_conv)
  then show ?thesis
    using s1 by (auto simp: uc_wiota_fn_refresh_def uc_wiota_send_heart_msg_def Let_def api_get_def)
qed

theorem fn_refresh_safe_witness:
  "\<exists>s'. uc_wiota_fn_refresh sample_env 10
      (sample_state\<lparr>ul_rb := (sample_ring 7152)\<lparr>buffer_size := 7148\<rparr>\<rparr>) = Some s' \<and>
     read_u32 (buffer_ptr (ul_rb s')) 7148 = Some 10 \<and> isr_cnt (heart_info s') = 10"
proof -
  have "rb_inv ((sample_ring 7152)\<lparr>buffer_size := 7148\<rparr>)" by (simp add: rb_inv_def sample_ring_def)
  then show ?thesis
    using fn_refresh_safe [of "sample_state\<lparr>ul_rb := (sample_ring 7152)\<lparr>buffer_size := 7148\<rparr>\<rparr>" sample_env 10]
    by (auto simp: sample_ring_def sample_state_def)
qed

text \<open>The header of any frame built from in-range fields is read back exactly: the
  packed bit fields, the length and the CRC survive the byte layout.\<close>

theorem header_roundtrip:
  assumes "header_wf h"
  shows "bytes_header (frame_bytes e h d @ rest) = h"
proof -
  have "\<exists>r. frame_bytes e h d @ rest = header_bytes h @ r"
    by (simp add: frame_bytes_def frame_body_def)
  then show ?thesis using assms by auto
qed

theorem header_roundtrip_witness:
  "bytes_header (frame_bytes sample_env (zero_header\<lparr>cmd_type := 5, cmd := 33, ch_channel := 7,
     ch_result := 1, data_len := 310\<rparr>) [1, 2, 3] @ []) = zero_header\<lparr>cmd_type := 5, cmd := 33,
     ch_channel := 7, ch_result := 1, data_len := 310\<rparr>"
  by (rule header_roundtrip) (simp add: header_wf_def zero_header_def)

end
