(* ===== verification/SpiHandlers.thy ===== *)
theory SpiHandlers
  imports SpiLink
begin

text \<open>
  The command handlers of PS/app/src/uc_wiota_spi_com.c.  A handler gets the
  memory from \<open>sub_data\<close> to the end of the received block, reads its arguments
  there at the offsets of the command structures, calls the protocol stack and
  answers over the link.  Reading past the block is \<^term>\<open>None\<close>.
\<close>

section \<open>Reading commands\<close>

definition sub_header :: "bytes \<Rightarrow> cmd_header_t option" where
  "sub_header sub = map_option bytes_header (mem_read sub 0 8)"

definition in_value :: "bytes \<Rightarrow> nat \<Rightarrow> u32 option" where
  "in_value sub i = read_u32 sub (8 + 4 * i)"

definition ret8 :: "u32 \<Rightarrow> u32" where
  "ret8 w = ucast (ucast w :: u8)"

definition ret16 :: "u32 \<Rightarrow> u32" where
  "ret16 w = ucast (ucast w :: u16)"

section \<open>Execution commands\<close>

definition exec_init :: "spi_env \<Rightarrow> spi_state \<Rightarrow> spi_state" where
  "exec_init e s = (
     let (gnss, s1) = api_get e (Get1 (C_get_time_service_func 0)) s;
         (p1588, s2) = api_get e (Get1 (C_get_time_service_func 1)) s1;
         (sync, s3) = api_get e (Get1 (C_get_time_service_func 2)) s2;
         s4 = (if ret8 gnss \<noteq> 0 \<or> ret8 p1588 \<noteq> 0 \<or> ret8 sync \<noteq> 0
               then api_do (Exec C_register_time_service_info_callback) s3 else s3)
     in api_do (Exec C_init) s4)"

definition exec_run :: "spi_state \<Rightarrow> spi_state" where
  "exec_run s =
     api_do (Exec C_register_cce_abnormal_callback)
      (api_do (Exec C_register_fn_refresh_callback)
       (api_do (Exec C_register_sync_paging_callback)
        (api_do (Exec C_register_recv_data_detail_callback)
         (api_do (Exec C_run) s))))"

definition uc_wiota_handle_exec_msg :: "spi_env \<Rightarrow> bytes \<Rightarrow> spi_state \<Rightarrow> spi_state option" where
  "uc_wiota_handle_exec_msg e sub s = do {
     h \<leftarrow> sub_header sub;
     let c = cmd h;
     s1 \<leftarrow>
       (if c = WIOTA_INIT then Some (exec_init e s)
        else if c = WIOTA_RUN then Some (exec_run s)
        else if c = WIOTA_EXIT then Some (api_do (Exec C_exit) s)
        else if c = WIOTA_REBOOT then map_option (api_do (Exec C_chip_reset))
                             (wiota_cmd_exec_result e (cmd_type h) c s)
        else if c = WIOTA_DFE_COUNTER_FLAG_SET then Some (api_do (Exec C_set_dfe_counter_flag) s)
        else if c = WIOTA_DFE_COUNTER_SEND then Some (api_do (Exec C_master_control_bc_dfe_counter) s)
        else if c = WIOTA_PAGING_TX_START then Some (api_do (Exec C_paging_tx_start) s)
        else if c = WIOTA_MASTER_READY then Some s
        else if c = WIOTA_TS_START then Some (api_do (Exec C_time_service_start) s)
        else if c = WIOTA_TS_STOP then Some (api_do (Exec C_time_service_stop) s)
        else if c = WIOTA_REG_FN_REFRESH_CB then Some (s\<lparr>g_report_fn_to_gw := 1\<rparr>)
        else Some s);
     wiota_cmd_exec_result e (cmd_type h) c s1
   }"

section \<open>Setup commands\<close>

text \<open>One argument, passed on to a call after the conversion of its prototype.\<close>

definition setup1 :: "(u32 \<Rightarrow> api_call) \<Rightarrow> bytes \<Rightarrow> spi_state \<Rightarrow> spi_state option" where
  "setup1 f sub s = do { v \<leftarrow> in_value sub 0; Some (api_do (f v) s) }"

definition setup2 :: "(u32 \<Rightarrow> u32 \<Rightarrow> api_call) \<Rightarrow> bytes \<Rightarrow> spi_state \<Rightarrow> spi_state option" where
  "setup2 f sub s = do { v \<leftarrow> in_value sub 0; w \<leftarrow> in_value sub 1; Some (api_do (f v w) s) }"

definition setup_config :: "spi_env \<Rightarrow> bytes \<Rightarrow> spi_state \<Rightarrow> spi_state option" where
  "setup_config e sub s = (
     let config = env_system_config e (calls s);
         s1 = api_do (Get2 C_get_system_config) s
     in do {
       v0 \<leftarrow> in_value sub 0; v1 \<leftarrow> in_value sub 1; v2 \<leftarrow> in_value sub 2; v3 \<leftarrow> in_value sub 3;
       v4 \<leftarrow> in_value sub 4; v5 \<leftarrow> in_value sub 5; v6 \<leftarrow> in_value sub 6; v7 \<leftarrow> in_value sub 7;
       v8 \<leftarrow> in_value sub 8; v9 \<leftarrow> in_value sub 9; v10 \<leftarrow> in_value sub 10; v11 \<leftarrow> in_value sub 11;
       Some (api_do (Cfg (C_set_system_config (config
         \<lparr>ap_tx_power := ucast v0, id_len := ucast v1, pp := ucast v2, symbol_length := ucast v3,
          dlul_ratio := ucast v4, bt_value := ucast v5, group_number := ucast v6,
          spectrum_idx := ucast v7, old_subsys_v := ucast v8, bitscb := ucast v9,
          subsystem_id := v10, freq_idx := ucast v11\<rparr>))) s1)
     })"

definition setup_paging_tx :: "bytes \<Rightarrow> spi_state \<Rightarrow> spi_state option" where
  "setup_paging_tx sub s = do {
     v0 \<leftarrow> in_value sub 0; v1 \<leftarrow> in_value sub 1; v2 \<leftarrow> in_value sub 2; v3 \<leftarrow> in_value sub 3;
     v4 \<leftarrow> in_value sub 4; v5 \<leftarrow> in_value sub 5; v6 \<leftarrow> in_value sub 6;
     Some (api_do (Cfg (C_set_paging_tx_cfg
       \<lparr>tx_freq = ucast v0, tx_spectrum_idx = ucast v1, tx_bandwidth = ucast v2,
        tx_symbol_length = ucast v3, tx_awaken_id = ucast v4, tx_mode = ucast v6,
        tx_send_time = v5\<rparr>)) s)
   }"

definition setup_subf_cfg :: "bytes \<Rightarrow> spi_state \<Rightarrow> spi_state option" where
  "setup_subf_cfg sub s = do {
     v0 \<leftarrow> in_value sub 0; v1 \<leftarrow> in_value sub 1; v2 \<leftarrow> in_value sub 2; v3 \<leftarrow> in_value sub 3;
     Some (api_do (Cfg (C_set_subframe_mode_cfg
       \<lparr>ul_vfs = ucast v0, dl_vfs = ucast v1, sf_send_round = ucast v2, once_len = ucast v3\<rparr>)) s)
   }"

definition setup_paging_rx :: "bytes \<Rightarrow> spi_state \<Rightarrow> spi_state option" where
  "setup_paging_rx sub s = do {
     v0 \<leftarrow> in_value sub 0; v1 \<leftarrow> in_value sub 1; v2 \<leftarrow> in_value sub 2; v3 \<leftarrow> in_value sub 3;
     v4 \<leftarrow> in_value sub 4; v5 \<leftarrow> in_value sub 5; v6 \<leftarrow> in_value sub 6; v7 \<leftarrow> in_value sub 7;
     v8 \<leftarrow> in_value sub 8; v9 \<leftarrow> in_value sub 9; v10 \<leftarrow> in_value sub 10; v11 \<leftarrow> in_value sub 11;
     v12 \<leftarrow> in_value sub 12; v13 \<leftarrow> in_value sub 13;
     Some (api_do (Cfg (C_set_paging_rx_cfg
       \<lparr>rx_freq = ucast v0, rx_spectrum_idx = ucast v1, rx_bandwidth = ucast v2,
        rx_symbol_length = ucast v3, rx_lpm_nlen = ucast v4, rx_lpm_utimes = ucast v5,
        rx_threshold = ucast v6, rx_extra_flag = ucast v7, rx_awaken_id = ucast v8,
        rx_detect_period = v9, rx_extra_period = v10, rx_mode = ucast v11,
        rx_period_multiple = ucast v12, rx_awaken_id_another = ucast v13\<rparr>)) s)
   }"

definition setup_ul_subframe :: "bytes \<Rightarrow> spi_state \<Rightarrow> spi_state option" where
  "setup_ul_subframe sub s = do {
     v0 \<leftarrow> in_value sub 0; v1 \<leftarrow> in_value sub 1; v2 \<leftarrow> in_value sub 2;
     Some (api_do (Set2 (C_set_ul_subframe_mode (ucast v0) v1 (ucast v2))) s)
   }"

text \<open>The cases of the switch, in the order of uc_wiota_setup_cmd_e.\<close>

definition setup_body ::
  "spi_env \<Rightarrow> cmd_header_t \<Rightarrow> bytes \<Rightarrow> spi_state \<Rightarrow> spi_state option" where
  "setup_body e h sub s = (let c = cmd h in
     if c = WIOTA_ACT_SET then setup1 (\<lambda>v. Set1 (C_set_active_time v)) sub s
     else if c = WIOTA_CONFIG_SET then setup_config e sub s
     else if c = WIOTA_POWER_SET then setup1 (\<lambda>v. Set1 (C_set_ap_tx_power (ucast v))) sub s
     else if c = WIOTA_FREQ_SET then setup1 (\<lambda>v. Set1 (C_set_freq_info (ucast v))) sub s
     else if c = WIOTA_HOPPING_FREQ_SET then Some s
     else if c = WIOTA_HOPPING_MODE_SET then Some s
     else if c = WIOTA_MAX_IOTE_NUM_SET then setup1 (\<lambda>v. Set1 (C_set_max_num_of_active_iote (ucast v))) sub s
     else if c = WIOTA_DATA_RATE_SET then setup2 (\<lambda>v w. Set1 (C_set_data_rate v w)) sub s
     else if c = WIOTA_BC_MCS_SET then setup1 (\<lambda>v. Set1 (C_set_broadcast_mcs v)) sub s
     else if c = WIOTA_CRC_SET then setup1 (\<lambda>v. Set1 (C_set_crc (ucast v))) sub s
     else if c = WIOTA_LOG_SET then setup2 (\<lambda>v w. Set1 (C_log_switch v (ucast w))) sub s
     else if c = WIOTA_DEFAULT_DFE_SET then setup1 (\<lambda>v. Set1 (C_set_default_dfe v)) sub s
     else if c = WIOTA_FB_ALIGN_SET then setup1 (\<lambda>v. Set1 (C_set_frame_boundary_align_func (ucast v))) sub s
     else if c = WIOTA_PAGING_TX_SET then setup_paging_tx sub s
     else if c = WIOTA_BC_FN_CYCLE_SET then setup1 (\<lambda>v. Set1 (C_set_broadcast_fn_cycle (ucast v))) sub s
     else if c = WIOTA_BC_SEND_ROUND_SET then setup1 (\<lambda>v. Set1 (C_set_broadcast_send_round (ucast v))) sub s
     else if c = WIOTA_TS_FUNC_SET then setup2 (\<lambda>v w. Set1 (C_set_time_service_func v (ucast w))) sub s
     else if c = WIOTA_TS_CYCLE_SET then setup1 (\<lambda>v. Set1 (C_set_time_service_cycle (ucast v))) sub s
     else if c = WIOTA_1588_SYNC_SET then setup2 (\<lambda>v w. Set1 (C_set_1588_protocol_rtc v w)) sub s
     else if c = WIOTA_PPS_SET then setup1 (\<lambda>v. Set2 (C_set_sync_assistant_pps (ucast v))) sub s
     else if c = WIOTA_SINGLE_TONE_SET then setup1 (\<lambda>v. Set2 (C_set_single_tone v)) sub s
     else if c = WIOTA_UL_SUBF_MODE_SET then setup_ul_subframe sub s
     else if c = WIOTA_SUBF_MODE_CFG_SET then setup_subf_cfg sub s
     else if c = WIOTA_SM_RESEND_TIMES_SET then setup1 (\<lambda>v. Set2 (C_set_sm_resend_times (ucast v))) sub s
     else if c = WIOTA_PAGING_RX_SET then setup_paging_rx sub s
     else if c = WIOTA_AAGC_IDX_SET then setup1 (\<lambda>v. Set2 (C_set_aagc_idx (ucast v))) sub s
     else if c = WIOTA_BNACK_FUNC_SET then setup1 (\<lambda>v. Set2 (C_set_bnack_func v)) sub s
     else if c = WIOTA_OTA_LAST_SUBF_IDLE_SET then setup1 (\<lambda>v. Set2 (C_set_ota_last_subframe_idle (ucast v))) sub s
     else if c = WIOTA_DL_RF_MODE_SET then setup1 (\<lambda>v. Set2 (C_set_dl_rf_mode (ucast v))) sub s
     else if c = WIOTA_PAGING_RX_ENTER then do {
       s1 \<leftarrow> wiota_cmd_exec_result e (cmd_type h) c s;
       setup2 (\<lambda>v w. Set2 (C_paging_rx_enter (ucast v) w)) sub s1
     }
     else if c = WIOTA_AFH_FUNC_SET then setup1 (\<lambda>v. Set2 (C_set_afh_func (ucast v))) sub s
     else if c = WIOTA_PWM_CTRL_PA_SET then setup2 (\<lambda>v w. Set2 (C_set_pwm_ctrl_pa v w)) sub s
     else if c = WIOTA_RAMP_POWER_SET then setup1 (\<lambda>v. Set2 (C_set_ramp_power v)) sub s
     else Some s)"

definition uc_wiota_handle_setup_msg :: "spi_env \<Rightarrow> bytes \<Rightarrow> spi_state \<Rightarrow> spi_state option" where
  "uc_wiota_handle_setup_msg e sub s = do {
     h \<leftarrow> sub_header sub;
     s1 \<leftarrow> setup_body e h sub s;
     wiota_cmd_exec_result e (cmd_type h) (cmd h) s1
   }"

section \<open>Query commands\<close>

definition query1 :: "spi_env \<Rightarrow> (u32 \<Rightarrow> u32) \<Rightarrow> api_call \<Rightarrow> spi_state \<Rightarrow> (u32 list \<times> spi_state) option" where
  "query1 e conv c s = (case api_get e c s of (r, s1) \<Rightarrow> Some ([conv r], s1))"

definition query_arg :: "spi_env \<Rightarrow> (u32 \<Rightarrow> api_call) \<Rightarrow> bytes \<Rightarrow> spi_state \<Rightarrow> (u32 list \<times> spi_state) option" where
  "query_arg e f sub s = do {
     v \<leftarrow> in_value sub 0;
     case api_get e (f v) s of (r, s1) \<Rightarrow> Some ([r], s1)
   }"

definition query_config :: "spi_env \<Rightarrow> spi_state \<Rightarrow> (u32 list \<times> spi_state) option" where
  "query_config e s = (let config = env_system_config e (calls s) in
     Some ([scast (ap_tx_power config), ucast (id_len config), ucast (pp config),
            ucast (symbol_length config), ucast (dlul_ratio config), ucast (bt_value config),
            ucast (group_number config), ucast (spectrum_idx config), ucast (old_subsys_v config),
            ucast (bitscb config), subsystem_id config, ucast (freq_idx config)],
           api_do (Get2 C_get_system_config) s))"

definition query_paging_tx :: "spi_env \<Rightarrow> spi_state \<Rightarrow> (u32 list \<times> spi_state) option" where
  "query_paging_tx e s = (let config = env_paging_tx_cfg e (calls s) in
     Some ([ucast (tx_freq config), ucast (tx_spectrum_idx config), ucast (tx_bandwidth config),
            ucast (tx_symbol_length config), ucast (tx_awaken_id config), tx_send_time config],
           api_do (Get2 C_get_paging_tx_cfg) s))"

text \<open>
  Three values are stored in out_value, but out_value_num stays 1, so one is sent.
\<close>

definition query_ts_func :: "spi_env \<Rightarrow> spi_state \<Rightarrow> (u32 list \<times> spi_state) option" where
  "query_ts_func e s = (
     let (g, s1) = api_get e (Get1 (C_get_time_service_func 0)) s;
         (p, s2) = api_get e (Get1 (C_get_time_service_func 1)) s1;
         (y, s3) = api_get e (Get1 (C_get_time_service_func 2)) s2;
         out_value = [ret8 g, ret8 p, ret8 y];
         out_value_num = 1
     in Some (take out_value_num out_value, s3))"

definition query_mem :: "spi_env \<Rightarrow> bytes \<Rightarrow> spi_state \<Rightarrow> (u32 list \<times> spi_state) option" where
  "query_mem e sub s = do {
     addr \<leftarrow> in_value sub 0;
     let c = Get2 (C_read_value_from_mem 1 addr 4);
     out \<leftarrow> mem_write (replicate 56 0) 0 (api_out e (calls s) c);
     v \<leftarrow> read_u32 out 0;
     Some ([v], api_do c s)
   }"

definition query_body :: "spi_env \<Rightarrow> nat \<Rightarrow> bytes \<Rightarrow> spi_state \<Rightarrow> (u32 list \<times> spi_state) option" where
  "query_body e c sub s = (
     if c = WIOTA_ACT_GET then query1 e id (Get1 C_get_active_time) s
     else if c = WIOTA_CONFIG_GET then query_config e s
     else if c = WIOTA_FREQ_GET then query1 e ret8 (Get1 C_get_freq_info) s
     else if c = WIOTA_MAX_IOTE_NUM_GET then query1 e ret16 (Get1 C_get_max_num_of_active_iote) s
     else if c = WIOTA_DATA_RATE_GET then query_arg e (\<lambda>v. Get1 (C_get_data_rate_value v)) sub s
     else if c = WIOTA_BC_MCS_GET then query1 e id (Get1 C_get_broadcast_mcs) s
     else if c = WIOTA_CRC_GET then query1 e ret16 (Get1 C_get_crc) s
     else if c = WIOTA_FRAME_HEAD_DFE_GET then query1 e id (Get1 C_get_frame_head_dfe) s
     else if c = WIOTA_DFE_COUNTER_GET then query_arg e (\<lambda>v. Get1 (C_read_dfe_counter (ucast v))) sub s
     else if c = WIOTA_AP_STATE_GET then query1 e id (Get1 C_get_ap8288_state) s
     else if c = WIOTA_PAGING_TX_GET then query_paging_tx e s
     else if c = WIOTA_BC_FN_CYCLE_GET then query1 e ret8 (Get1 C_get_broadcast_fn_cycle) s
     else if c = WIOTA_BC_SEND_ROUND_GET then query1 e ret8 (Get1 C_get_broadcast_send_round) s
     else if c = WIOTA_FRAME_LEN_GET then query1 e id (Get1 C_get_frame_len) s
     else if c = WIOTA_FRAME_NUM_GET then query1 e id (Get1 C_get_frame_num) s
     else if c = WIOTA_TS_FUNC_GET then query_ts_func e s
     else if c = WIOTA_PPS_GET then query1 e ret8 (Get2 C_get_sync_assistant_pps) s
     else if c = WIOTA_OTA_LAST_SUBF_IDLE_GET then query1 e ret8 (Get2 C_get_ota_last_subframe_idle) s
     else if c = WIOTA_DL_RF_MODE_GET then query1 e ret8 (Get2 C_get_dl_rf_mode) s
     else if c = WIOTA_AFH_FUNC_GET then query1 e ret8 (Get2 C_get_afh_func) s
     else if c = WIOTA_8288_MEM_GET then query_mem e sub s
     else Some ([0], s))"

definition uc_wiota_handle_query_msg :: "spi_env \<Rightarrow> bytes \<Rightarrow> spi_state \<Rightarrow> spi_state option" where
  "uc_wiota_handle_query_msg e sub s = do {
     h \<leftarrow> sub_header sub;
     (out, s1) \<leftarrow> query_body e (cmd h) sub s;
     map_option snd (send_recv_msg e (cmd_type h) (cmd h)
       [(concat (map le32 out), 4 * length out)] s1)
   }"

section \<open>Transmission commands\<close>

text \<open>
  send_info_t: user_id at 8, timeout at 12, data_id at 16, order_business at 20,
  is_block at 21, data_len at 22, data from 24.
\<close>

definition send_cb :: "u8 \<Rightarrow> callback \<Rightarrow> callback" where
  "send_cb is_block cb = (if is_block \<noteq> 0 then No_callback else cb)"

definition handle_send_data :: "spi_env \<Rightarrow> bytes \<Rightarrow> nat \<Rightarrow> spi_state \<Rightarrow> spi_state option" where
  "handle_send_data e sub c s = do {
     user_id \<leftarrow> read_u32 sub 8;
     timeout \<leftarrow> read_u32 sub 12;
     data_id \<leftarrow> read_u32 sub 16;
     order_business \<leftarrow> mem_get sub 20;
     is_block \<leftarrow> mem_get sub 21;
     dlen \<leftarrow> read_u16 sub 22;
     data \<leftarrow> mem_read sub 24 (unat dlen);
     let call = (if c = WIOTA_SEND_DATA then
                   C_send_data_order data user_id timeout order_business
                     (send_cb is_block Send_callback) data_id
                 else if c = WIOTA_SEND_MC then
                   C_send_multicast_data data user_id timeout (send_cb is_block Send_mc_callback) data_id
                 else C_send_broadcast_data data user_id timeout (send_cb is_block Send_bc_callback) data_id);
     let s1 = (if c = WIOTA_SEND_DATA then s\<lparr>g_add_cnt := g_add_cnt s + 1\<rparr> else s);
     let (result, s2) = api_get e (Send call) s1;
     if is_block \<noteq> 0 then uc_wiota_handle_send_result e user_id data_id result c s2 else Some s2
   }"

text \<open>scan_info_t: timeout at 8, is_block at 12, freq_num at 14, scan_type at 15, freq from 16.\<close>

definition handle_scan_freq :: "spi_env \<Rightarrow> bytes \<Rightarrow> spi_state \<Rightarrow> spi_state option" where
  "handle_scan_freq e sub s = do {
     timeout \<leftarrow> read_u32 sub 8;
     is_block \<leftarrow> read_u16 sub 12;
     freq_num \<leftarrow> mem_get sub 14;
     scan_type \<leftarrow> mem_get sub 15;
     freq \<leftarrow> (if freq_num = 0 then Some None else map_option Some (mem_read sub 16 (unat freq_num)));
     let (result, s1) = api_get e (Send (C_scan_freq freq freq_num scan_type timeout
                          (if is_block \<noteq> 0 then No_callback else Scan_callback))) s;
     if is_block \<noteq> 0 then
       (case env_scan e (calls s) of (len, data) \<Rightarrow>
          uc_wiota_scan_callback e len (ucast result) data s1)
     else Some s1
   }"

text \<open>temp_info_t: timeout at 8, is_block (an int) at 12.\<close>

definition handle_temp_query :: "spi_env \<Rightarrow> bytes \<Rightarrow> spi_state \<Rightarrow> spi_state option" where
  "handle_temp_query e sub s = do {
     timeout \<leftarrow> read_u32 sub 8;
     is_block \<leftarrow> read_u32 sub 12;
     let (result, s1) = api_get e (Send (C_read_temperature
                          (if is_block \<noteq> 0 then No_callback else Temp_callback) timeout)) s;
     if is_block \<noteq> 0 then uc_wiota_temp_callback e (env_temp e (calls s)) (ucast result) s1
     else Some s1
   }"

text \<open>
  paging_info_t: user_id at 8, fn_index at 12, detection_period at 16, send_round at
  20, continue_fn at 22, is_block at 24.
\<close>

definition handle_sync_paging :: "spi_env \<Rightarrow> bytes \<Rightarrow> spi_state \<Rightarrow> spi_state option" where
  "handle_sync_paging e sub s = do {
     user_id \<leftarrow> read_u32 sub 8;
     fn_index \<leftarrow> read_u32 sub 12;
     detection_period \<leftarrow> read_u32 sub 16;
     send_round \<leftarrow> read_u16 sub 20;
     continue_fn \<leftarrow> read_u16 sub 22;
     is_block \<leftarrow> read_u32 sub 24;
     let paging = \<lparr>pg_user_id = user_id, pg_fn_index = fn_index,
       pg_detection_period = detection_period, pg_send_round = send_round,
       pg_continue_fn = continue_fn\<rparr>;
     let (result, s1) = api_get e (Send (C_sync_paging paging
                          (if is_block \<noteq> 0 then No_callback else Sync_paging_callback))) s;
     if is_block \<noteq> 0 then uc_wiota_sync_paging_callback e user_id result s1 else Some s1
   }"

text \<open>
  rs_sm_by_fn_ex_t: user_id at 8, data_id at 12, start_recv_fn at 16, recv_fns at 20,
  send_fns at 21, data_len at 22, data from 24.
\<close>

definition handle_recv_sm_by_fn :: "bytes \<Rightarrow> spi_state \<Rightarrow> spi_state option" where
  "handle_recv_sm_by_fn sub s = do {
     user_id \<leftarrow> read_u32 sub 8;
     start_recv_fn \<leftarrow> read_u32 sub 16;
     recv_fns \<leftarrow> mem_get sub 20;
     dlen \<leftarrow> read_u16 sub 22;
     send_fns \<leftarrow> mem_get sub 21;
     if dlen \<noteq> 0 \<and> send_fns > 0 then do {
       data \<leftarrow> mem_read sub 24 (unat dlen);
       data_id \<leftarrow> read_u32 sub 12;
       Some (api_do (Send (C_recv_send_sm_by_fn
         \<lparr>rs_user_id = user_id, rs_start_recv_fn = start_recv_fn, rs_recv_fns = recv_fns,
          rs_send_fns = send_fns, rs_data = Some data, rs_has_callback = True, rs_para = data_id\<rparr>))
         (s\<lparr>g_add_cnt := g_add_cnt s + 1\<rparr>))
     } else Some (api_do (Send (C_recv_send_sm_by_fn
         \<lparr>rs_user_id = user_id, rs_start_recv_fn = start_recv_fn, rs_recv_fns = recv_fns,
          rs_send_fns = 0, rs_data = None, rs_has_callback = False, rs_para = 0\<rparr>)) s)
   }"

definition uc_wiota_handle_send_msg :: "spi_env \<Rightarrow> bytes \<Rightarrow> nat \<Rightarrow> spi_state \<Rightarrow> spi_state option" where
  "uc_wiota_handle_send_msg e sub c s =
     (if c = WIOTA_SEND_DATA \<or> c = WIOTA_SEND_MC \<or> c = WIOTA_SEND_BC then handle_send_data e sub c s
      else if c = WIOTA_SCAN_FREQ then handle_scan_freq e sub s
      else if c = WIOTA_TEMP_QUERY then handle_temp_query e sub s
      else if c = WIOTA_SYNC_PAGING then handle_sync_paging e sub s
      else if c = WIOTA_RECV_SM_BY_FN then handle_recv_sm_by_fn sub s
      else None)"

section \<open>Other commands\<close>

text \<open>id_info_t: id_num at 8, the identities from 12; the blacklist calls take a 16-bit count.\<close>

definition handle_id_list :: "spi_env \<Rightarrow> bytes \<Rightarrow> nat \<Rightarrow> spi_state \<Rightarrow> spi_state option" where
  "handle_id_list e sub c s = do {
     id_num \<leftarrow> read_u32 sub 8;
     let short_num = (ucast id_num :: u16);
     s1 \<leftarrow>
       (if c = WIOTA_BL_ADD then
          map_option (\<lambda>d. api_do (Send (C_add_iote_to_blacklist d short_num)) s)
            (mem_read sub 12 (4 * unat short_num))
        else if c = WIOTA_BL_REMOVE then
          map_option (\<lambda>d. api_do (Send (C_remove_iote_from_blacklist d short_num)) s)
            (mem_read sub 12 (4 * unat short_num))
        else if c = WIOTA_MC_ID_ADD then
          map_option (\<lambda>d. api_do (Send (C_set_multicast_id d id_num)) s)
            (mem_read sub 12 (4 * unat id_num))
        else map_option (\<lambda>d. api_do (Send (C_del_multicast_id d id_num)) s)
            (mem_read sub 12 (4 * unat id_num)));
     wiota_cmd_exec_result e CMD_TYPE_OTHER c s1
   }"

text \<open>
  The blacklist is copied node by node into an array of the announced size; the
  allocation is asserted.
\<close>

definition handle_bl_get :: "spi_env \<Rightarrow> nat \<Rightarrow> spi_state \<Rightarrow> spi_state option" where
  "handle_bl_get e c s = (case env_blacklist e (calls s) of (bl_num, nodes) \<Rightarrow>
     (let s1 = api_do (Get2 C_get_blacklist) s;
          n = unat bl_num;
          (ok, s2) = malloc e (12 + 4 * n) s1
      in do {
        c_assert ok;
        ids \<leftarrow> mem_write (replicate (4 * n) 0) 0 (concat (map le32 nodes));
        map_option snd (send_recv_msg e CMD_TYPE_OTHER c
          [(le32 (of_nat n), 4), (ids, to_u16 (4 * n))] s2)
      }))"

fun write_fields :: "bytes \<Rightarrow> (nat \<times> bytes) list \<Rightarrow> bytes option" where
  "write_fields b [] = Some b"
| "write_fields b ((off, d) # fs) = do { b' \<leftarrow> mem_write b off d; write_fields b' fs }"

text \<open>
  version_info_t after its header: fields of 15, 36, 36, 15, 36 and 36 bytes, two
  bytes of padding and the version word, 180 bytes.
\<close>

definition handle_version_get :: "spi_env \<Rightarrow> nat \<Rightarrow> spi_state \<Rightarrow> spi_state option" where
  "handle_version_get e c s = (case env_version e (calls s) of (texts, cce_version) \<Rightarrow> do {
     b \<leftarrow> write_fields (replicate 180 0)
            (zip [0, 15, 51, 87, 102, 138] texts @ [(176, le32 cce_version)]);
     map_option snd (send_recv_msg e CMD_TYPE_OTHER c [(b, 180)] (api_do (Get2 C_get_version) s))
   })"

definition handle_moduleid_get :: "spi_env \<Rightarrow> nat \<Rightarrow> spi_state \<Rightarrow> spi_state option" where
  "handle_moduleid_get e c s = do {
     b \<leftarrow> mem_write (replicate 20 0) 0 (api_out e (calls s) (Get2 C_get_module_id));
     map_option snd (send_recv_msg e CMD_TYPE_OTHER c [(b, 20)] (api_do (Get2 C_get_module_id) s))
   }"

text \<open>subf_data_ex_t: data_len at 10, fn at 11, data from 12; no answer is sent.\<close>

definition handle_add_dl_subf :: "bytes \<Rightarrow> spi_state \<Rightarrow> spi_state option" where
  "handle_add_dl_subf sub s = do {
     dlen \<leftarrow> mem_get sub 10;
     fn \<leftarrow> mem_get sub 11;
     d \<leftarrow> mem_read sub 12 (unat dlen);
     Some (api_do (Send (C_add_dl_subframe_data d fn)) s)
   }"

definition handle_afh_map :: "spi_env \<Rightarrow> bytes \<Rightarrow> nat \<Rightarrow> spi_state \<Rightarrow> spi_state option" where
  "handle_afh_map e sub c s = do {
     d \<leftarrow> mem_read sub 8 26;
     wiota_cmd_exec_result e CMD_TYPE_OTHER c (api_do (Send (C_set_afh_map d)) s)
   }"

text \<open>34 power curves of 16 bytes from 8, ramp_size at 552.\<close>

definition handle_ramp_power_cfg :: "spi_env \<Rightarrow> bytes \<Rightarrow> nat \<Rightarrow> spi_state \<Rightarrow> spi_state option" where
  "handle_ramp_power_cfg e sub c s = do {
     d \<leftarrow> mem_read sub 8 544;
     n \<leftarrow> read_u32 sub 552;
     wiota_cmd_exec_result e CMD_TYPE_OTHER c (api_do (Send (C_set_ramp_power_cfg d n)) s)
   }"

definition uc_wiota_handle_other_msg :: "spi_env \<Rightarrow> bytes \<Rightarrow> nat \<Rightarrow> spi_state \<Rightarrow> spi_state option" where
  "uc_wiota_handle_other_msg e sub c s =
     (if c = WIOTA_BL_ADD \<or> c = WIOTA_BL_REMOVE \<or> c = WIOTA_MC_ID_ADD \<or> c = WIOTA_MC_ID_DEL
      then handle_id_list e sub c s
      else if c = WIOTA_BL_GET then handle_bl_get e c s
      else if c = WIOTA_VERSION_GET then handle_version_get e c s
      else if c = WIOTA_ADD_DL_SUBF_DATA then handle_add_dl_subf sub s
      else if c = WIOTA_MODULEID_GET then handle_moduleid_get e c s
      else if c = WIOTA_AFH_MAP_SET then handle_afh_map e sub c s
      else if c = WIOTA_RAMP_POWER_CFG_SET then handle_ramp_power_cfg e sub c s
      else Some s)"

section \<open>Dispatch\<close>

text \<open>
  The switch at the end of the receive loop; an unknown type is an RT_ASSERT.
  The send and the other commands take the command number from the header the
  loop validated, the rest from \<open>sub_data\<close> itself.
\<close>

definition dispatch :: "spi_env \<Rightarrow> cmd_header_t \<Rightarrow> bytes \<Rightarrow> spi_state \<Rightarrow> spi_state option" where
  "dispatch e h sub s = (let t = cmd_type h in
     if t = CMD_TYPE_EXEC then uc_wiota_handle_exec_msg e sub s
     else if t = CMD_TYPE_SETUP then uc_wiota_handle_setup_msg e sub s
     else if t = CMD_TYPE_QUERY then uc_wiota_handle_query_msg e sub s
     else if t = CMD_TYPE_SEND then uc_wiota_handle_send_msg e sub (cmd h) s
     else if t = CMD_TYPE_OTHER then uc_wiota_handle_other_msg e sub (cmd h) s
     else None)"

section \<open>A handler sees only its own command\<close>

text \<open>
  A reader of memory is extension-monotone when more memory behind the block does
  not change what it returns; every handler is built from such readers.
\<close>

definition ext_mono :: "(bytes \<Rightarrow> 'a option) \<Rightarrow> bool" where
  "ext_mono m \<longleftrightarrow> (\<forall>b r x. m b = Some x \<longrightarrow> m (b @ r) = Some x)"

named_theorems ext_mono_intros \<open>closure rules for extension-monotone readers\<close>

lemma ext_mono_const [ext_mono_intros]: "ext_mono (\<lambda>_. x)"
  by (simp add: ext_mono_def)

lemma ext_mono_read [ext_mono_intros]: "ext_mono (\<lambda>b. mem_read b i n)"
  by (auto simp: ext_mono_def mem_read_eq_Some)

lemma ext_mono_get [ext_mono_intros]: "ext_mono (\<lambda>b. mem_get b i)"
  by (auto simp: ext_mono_def mem_get_def nth_append split: if_splits)

lemma ext_mono_map [ext_mono_intros]: "ext_mono m \<Longrightarrow> ext_mono (\<lambda>b. map_option f (m b))"
  by (auto simp: ext_mono_def)

lemma ext_mono_bind [ext_mono_intros]:
  "ext_mono m \<Longrightarrow> (\<And>x. ext_mono (\<lambda>b. k x b)) \<Longrightarrow> ext_mono (\<lambda>b. Option.bind (m b) (\<lambda>x. k x b))"
  unfolding ext_mono_def bind_eq_Some_conv by blast

lemma ext_mono_if [ext_mono_intros]:
  "(p \<Longrightarrow> ext_mono f) \<Longrightarrow> (\<not> p \<Longrightarrow> ext_mono g) \<Longrightarrow> ext_mono (\<lambda>b. if p then f b else g b)"
  by (cases p) simp_all

lemma ext_mono_case [ext_mono_intros]:
  "(\<And>x y. ext_mono (\<lambda>b. f x y b)) \<Longrightarrow> ext_mono (\<lambda>b. case p of (x, y) \<Rightarrow> f x y b)"
  by (cases p) simp

lemmas reader_defs = sub_header_def in_value_def read_u32_def read_u16_def

lemmas setup_defs = setup1_def setup2_def setup_config_def setup_paging_tx_def
  setup_subf_cfg_def setup_paging_rx_def setup_ul_subframe_def

lemma ext_mono_exec [ext_mono_intros]: "ext_mono (\<lambda>b. uc_wiota_handle_exec_msg e b s)"
  unfolding uc_wiota_handle_exec_msg_def reader_defs Let_def by (intro ext_mono_intros)

lemma ext_mono_setup_parts [ext_mono_intros]:
  "ext_mono (\<lambda>b. setup1 f b s)" "ext_mono (\<lambda>b. setup2 g b s)" "ext_mono (\<lambda>b. setup_config e b s)"
  "ext_mono (\<lambda>b. setup_paging_tx b s)" "ext_mono (\<lambda>b. setup_subf_cfg b s)"
  "ext_mono (\<lambda>b. setup_paging_rx b s)" "ext_mono (\<lambda>b. setup_ul_subframe b s)"
  unfolding setup_defs reader_defs Let_def by (intro ext_mono_intros)+

lemma ext_mono_setup [ext_mono_intros]: "ext_mono (\<lambda>b. uc_wiota_handle_setup_msg e b s)"
  unfolding uc_wiota_handle_setup_msg_def setup_body_def sub_header_def Let_def
  by (intro ext_mono_intros)

lemma ext_mono_query [ext_mono_intros]: "ext_mono (\<lambda>b. uc_wiota_handle_query_msg e b s)"
  unfolding uc_wiota_handle_query_msg_def query_body_def query_arg_def query_mem_def reader_defs Let_def
  by (intro ext_mono_intros)

lemma ext_mono_send [ext_mono_intros]: "ext_mono (\<lambda>b. uc_wiota_handle_send_msg e b c s)"
  unfolding uc_wiota_handle_send_msg_def handle_send_data_def handle_scan_freq_def
    handle_temp_query_def handle_sync_paging_def handle_recv_sm_by_fn_def reader_defs Let_def
  by (intro ext_mono_intros)

lemma ext_mono_other [ext_mono_intros]: "ext_mono (\<lambda>b. uc_wiota_handle_other_msg e b c s)"
  unfolding uc_wiota_handle_other_msg_def handle_id_list_def handle_add_dl_subf_def
    handle_afh_map_def handle_ramp_power_cfg_def reader_defs Let_def
  by (intro ext_mono_intros)

lemma ext_mono_dispatch: "ext_mono (\<lambda>b. dispatch e h b s)"
  unfolding dispatch_def Let_def by (intro ext_mono_intros)

section \<open>Answers\<close>

abbreviation reply :: "spi_env \<Rightarrow> spi_state \<Rightarrow> nat \<Rightarrow> nat \<Rightarrow> bytes \<Rightarrow> bytes" where
  "reply e s t c d \<equiv> wire_frame e s (zero_header\<lparr>cmd_type := t, cmd := c\<rparr>) d"

text \<open>States that agree on everything the uplink depends on.\<close>

definition link_eq :: "spi_state \<Rightarrow> spi_state \<Rightarrow> bool" where
  "link_eq s t \<longleftrightarrow> ul_rb s = ul_rb t \<and> ul_rb_read_state s = ul_rb_read_state t \<and>
     ap_channel_id s = ap_channel_id t \<and> mallocs s = mallocs t"

lemma link_eq_refl [simp]: "link_eq s s"
  by (simp add: link_eq_def)

lemma link_eq_queue:
  assumes "link_eq s t"
  shows "ul_ready e s = ul_ready e t" "ul_queue s = ul_queue t" "ul_space s = ul_space t"
    "wire_frame e s h d = wire_frame e t h d" "mallocs s = mallocs t"
  using assms by (simp_all add: link_eq_def ul_ready_def ul_queue_def ul_space_def ul_synced_def wire_frame_def)

lemma api_link_eq [simp]:
  "link_eq (api_do c s) t = link_eq s t" "link_eq (snd (api_get e c s)) t = link_eq s t"
  "link_eq (s\<lparr>g_report_fn_to_gw := v\<rparr>) t = link_eq s t"
  "link_eq (s\<lparr>g_add_cnt := k\<rparr>) t = link_eq s t" "link_eq (s\<lparr>calls := cs\<rparr>) t = link_eq s t"
  by (simp_all add: link_eq_def api_do_def api_get_def)

lemma send_recv_msg_ok:
  assumes "link_eq s0 s" "ul_ready e s" "paras_ok ps" "length (payload ps) < 65000"
    and "payload ps \<noteq> [] \<Longrightarrow> malloc_ok e (mallocs s) (12 + align4 (length (payload ps)))"
    and "length (reply e s t c (payload ps)) \<le> ul_space s"
  shows "\<exists>s'. send_recv_msg e t c ps s0 = Some (0, s') \<and> sends e (reply e s t c (payload ps)) s0 s'"
  unfolding send_recv_msg_def link_eq_queue(4) [OF assms(1), symmetric]
  using assms by (intro send_ok) (simp_all add: link_eq_queue [OF assms(1)])

lemma exec_result_ok:
  assumes "link_eq s0 s" "ul_ready e s" "8 \<le> ul_space s"
  shows "\<exists>s'. wiota_cmd_exec_result e t c s0 = Some s' \<and> sends e (reply e s t c []) s0 s'"
  using send_recv_msg_ok [OF assms(1,2), where ps = "[]" and t = t and c = c] assms(3)
  by (auto simp: wiota_cmd_exec_result_def wire_frame_def frame_bytes_length)

lemma sends_link:
  assumes "sends e f s0 s'" "link_eq s0 s" "ul_ready e s"
  shows "ul_ready e s'" "ul_queue s' = ul_queue s @ f" "ul_space s' = ul_space s - length f"
    "wire_frame e s' h d = wire_frame e s h d"
  using sends_queue [OF assms(1)] sends_frame(1) [OF assms(1)] assms(2,3)
  by (auto simp: wire_frame_def link_eq_def link_eq_queue [OF assms(2)])

lemma exec_init_link: "link_eq (exec_init e s) s"
  by (simp add: exec_init_def api_get_def api_do_def link_eq_def Let_def)

lemma exec_run_link: "link_eq (exec_run s) s"
  by (simp add: exec_run_def)

lemma exec_step:
  assumes "sub_header sub = Some h" "cmd h \<noteq> WIOTA_REBOOT"
  shows "\<exists>s0. link_eq s0 s \<and>
    uc_wiota_handle_exec_msg e sub s = wiota_cmd_exec_result e (cmd_type h) (cmd h) s0"
  using assms exec_init_link [of e s] exec_run_link [of s]
  by (simp add: uc_wiota_handle_exec_msg_def Let_def)
    (metis api_link_eq(1,3) link_eq_refl)

lemma in_value_Some: "8 + 4 * i + 4 \<le> length sub \<Longrightarrow> \<exists>v. in_value sub i = Some v"
  by (simp add: in_value_def read_u32_def mem_read_def)

lemma bind_SomeE: "\<exists>v. m = Some v \<Longrightarrow> (\<And>v. \<exists>s0. link_eq s0 s \<and> k v = Some s0) \<Longrightarrow>
    \<exists>s0. link_eq s0 s \<and> Option.bind m k = Some s0"
  by auto

lemma setup_parts_link:
  assumes "64 \<le> length sub"
  shows "\<exists>s0. link_eq s0 s \<and> setup1 f sub s = Some s0" "\<exists>s0. link_eq s0 s \<and> setup2 g sub s = Some s0"
    "\<exists>s0. link_eq s0 s \<and> setup_config e sub s = Some s0"
    "\<exists>s0. link_eq s0 s \<and> setup_paging_tx sub s = Some s0"
    "\<exists>s0. link_eq s0 s \<and> setup_subf_cfg sub s = Some s0"
    "\<exists>s0. link_eq s0 s \<and> setup_paging_rx sub s = Some s0"
    "\<exists>s0. link_eq s0 s \<and> setup_ul_subframe sub s = Some s0"
  unfolding setup_defs Let_def
  using assms by (intro bind_SomeE in_value_Some, simp_all)+

lemma setup_step:
  assumes "sub_header sub = Some h" "64 \<le> length sub" "cmd h \<noteq> WIOTA_PAGING_RX_ENTER"
  shows "\<exists>s0. link_eq s0 s \<and>
    uc_wiota_handle_setup_msg e sub s = wiota_cmd_exec_result e (cmd_type h) (cmd h) s0"
proof -
  have "\<exists>s0. link_eq s0 s \<and> setup_body e h sub s = Some s0"
    unfolding setup_body_def Let_def using assms(3)
    by (simp add: setup_parts_link [OF assms(2)] split: if_split)
  then show ?thesis using assms(1) by (auto simp: uc_wiota_handle_setup_msg_def)
qed

text \<open>How many words a query command answers.\<close>

definition query_words :: "nat \<Rightarrow> nat" where
  "query_words c = (if c = WIOTA_CONFIG_GET then 12 else if c = WIOTA_PAGING_TX_GET then 6 else 1)"

lemma query_body_ok:
  assumes "12 \<le> length sub"
    and "\<And>hist addr. length (api_out e hist (Get2 (C_read_value_from_mem 1 addr 4))) \<le> 56"
  shows "\<exists>out s0. query_body e c sub s = Some (out, s0) \<and> link_eq s0 s \<and> length out = query_words c"
proof -
  obtain v where v: "in_value sub 0 = Some v" using in_value_Some [of 0 sub] assms(1) by auto
  let ?ok = "\<lambda>m n. \<exists>out s0. m = Some (out, s0) \<and> link_eq s0 s \<and> length out = n"
  have parts: "?ok (query1 e f k s) 1" "?ok (query_arg e g sub s) 1" "?ok (query_config e s) 12"
    "?ok (query_paging_tx e s) 6" "?ok (query_ts_func e s) 1" "?ok (query_mem e sub s) 1"
    "?ok (Some ([0], s)) 1" for f k g
    using v assms(2)
    by (simp_all add: query1_def query_arg_def query_config_def query_paging_tx_def query_ts_func_def
        Let_def api_get_def query_mem_def mem_write_def read_u32_def mem_read_def)
  show ?thesis unfolding query_body_def query_words_def using parts by (simp split: if_split)
qed

lemma concat_le32_length [simp]: "length (concat (map le32 ws)) = 4 * length ws"
  by (induction ws) auto

text \<open>A command that answers, acts and answers again.\<close>

lemma answer_twice:
  assumes "ul_ready e s" "16 \<le> ul_space s" "\<And>s1. \<exists>s0. link_eq s0 s1 \<and> f s1 = Some s0"
  shows "\<exists>s1 s0 s'. wiota_cmd_exec_result e t c s = Some s1 \<and> f s1 = Some s0 \<and>
    wiota_cmd_exec_result e t c s0 = Some s' \<and> ul_ready e s' \<and>
    ul_queue s' = ul_queue s @ reply e s t c [] @ reply e s t c []"
proof -
  obtain s1 where s1: "wiota_cmd_exec_result e t c s = Some s1" "sends e (reply e s t c []) s s1"
    using exec_result_ok [OF link_eq_refl assms(1), of t c] assms(2) by auto
  note l1 = sends_link [OF s1(2) link_eq_refl assms(1)]
  obtain s0 where s0: "link_eq s0 s1" "f s1 = Some s0" using assms(3) by blast
  have "length (reply e s t c []) = 8" by (simp add: wire_frame_def frame_bytes_length)
  then have "8 \<le> ul_space s1" using assms(2) l1(3) by simp
  then obtain s2 where s2: "wiota_cmd_exec_result e t c s0 = Some s2"
    "sends e (reply e s1 t c []) s0 s2"
    using exec_result_ok [OF s0(1) l1(1), of t c] by auto
  show ?thesis using s1 s0 s2 sends_link [OF s2(2) s0(1) l1(1)] l1 by auto
qed

section \<open>Properties\<close>

text \<open>Every execution command is answered by a header that echoes its type and
  number, once, and WIOTA_REBOOT, which answers before it resets the chip, a second time
  should the reset return; no other byte enters the uplink queue.\<close>

theorem exec_msg_answered:
  assumes "sub_header sub = Some h" "ul_ready e s" "16 \<le> ul_space s"
  shows "\<exists>s'. uc_wiota_handle_exec_msg e sub s = Some s' \<and> ul_ready e s' \<and>
           ul_queue s' = ul_queue s @
             concat (replicate (if cmd h = WIOTA_REBOOT then 2 else 1) (reply e s (cmd_type h) (cmd h) []))"
proof (cases "cmd h = WIOTA_REBOOT")
  case False
  then obtain s0 where s0: "link_eq s0 s"
    "uc_wiota_handle_exec_msg e sub s = wiota_cmd_exec_result e (cmd_type h) (cmd h) s0"
    using exec_step assms(1) by blast
  then show ?thesis
    using exec_result_ok [OF s0(1) assms(2), of "cmd_type h" "cmd h"] assms(3) False
    by (auto dest: sends_link [OF _ s0(1) assms(2)])
next
  case True
  have "\<exists>s0. link_eq s0 s1 \<and> Some (api_do (Exec C_chip_reset) s1) = Some s0" for s1 by simp
  from answer_twice [OF assms(2,3) this, of "cmd_type h" 3] show ?thesis
    using assms(1) True by (auto simp: uc_wiota_handle_exec_msg_def numeral_2_eq_2)
qed

theorem exec_msg_answered_witness:
  "\<exists>s'. uc_wiota_handle_exec_msg sample_env (header_bytes (zero_header\<lparr>cmd := 10\<rparr>)) sample_state = Some s' \<and>
     ul_queue s' = reply sample_env sample_state 0 10 []"
proof -
  have "sub_header (header_bytes (zero_header\<lparr>cmd := 10\<rparr>)) = Some (zero_header\<lparr>cmd := 10\<rparr>)"
    using bytes_header_header_bytes [of "zero_header\<lparr>cmd := 10\<rparr>" "[]"]
    by (simp add: sub_header_def mem_read_def header_wf_def zero_header_def)
  then show ?thesis
    using exec_msg_answered [OF _ sample_ready(1)] sample_ready by (fastforce simp: zero_header_def)
qed

text \<open>C23: A setup command that carries its fourteen words never reads outside the
  received block and is answered by a header that echoes its type and number, once, or
  twice for WIOTA_PAGING_RX_ENTER, which answers in advance and again when it returns.\<close>

theorem setup_msg_answered:
  assumes "sub_header sub = Some h" "64 \<le> length sub" "ul_ready e s" "16 \<le> ul_space s"
  shows "\<exists>s'. uc_wiota_handle_setup_msg e sub s = Some s' \<and> ul_ready e s' \<and>
           ul_queue s' = ul_queue s @ concat (replicate
             (if cmd h = WIOTA_PAGING_RX_ENTER then 2 else 1) (reply e s (cmd_type h) (cmd h) []))"
proof (cases "cmd h = WIOTA_PAGING_RX_ENTER")
  case False
  then obtain s0 where s0: "link_eq s0 s"
    "uc_wiota_handle_setup_msg e sub s = wiota_cmd_exec_result e (cmd_type h) (cmd h) s0"
    using setup_step assms(1,2) by blast
  then show ?thesis
    using exec_result_ok [OF s0(1) assms(3), of "cmd_type h" "cmd h"] assms(4) False
    by (auto dest: sends_link [OF _ s0(1) assms(3)])
next
  case True
  let ?rx = "setup2 (\<lambda>v w. Set2 (C_paging_rx_enter (ucast v) w)) sub"
  have "\<exists>s0. link_eq s0 s1 \<and> ?rx s1 = Some s0" for s1 by (rule setup_parts_link(2) [OF assms(2)])
  from answer_twice [OF assms(3,4) this, of "cmd_type h" 29] show ?thesis
    using assms(1) True by (auto simp: uc_wiota_handle_setup_msg_def setup_body_def numeral_2_eq_2)
qed

theorem setup_msg_answered_witness:
  "\<exists>s'. uc_wiota_handle_setup_msg sample_env
      (header_bytes (zero_header\<lparr>cmd_type := 1, cmd := 24\<rparr>) @ replicate 56 1) sample_state = Some s' \<and>
     ul_queue s' = reply sample_env sample_state 1 24 []"
proof -
  have "sub_header (header_bytes (zero_header\<lparr>cmd_type := 1, cmd := 24\<rparr>) @ replicate 56 1) =
      Some (zero_header\<lparr>cmd_type := 1, cmd := 24\<rparr>)"
    using bytes_header_header_bytes [of "zero_header\<lparr>cmd_type := 1, cmd := 24\<rparr>" "[]"]
    by (simp add: sub_header_def mem_read_def header_wf_def zero_header_def)
  then show ?thesis
    using setup_msg_answered [OF _ _ sample_ready(1)] sample_ready by (fastforce simp: zero_header_def)
qed



text \<open>WIOTA_TS_FUNC_GET reads the three time-service switches from the stack but
  answers only the first of them.\<close>

theorem query_ts_func_truncated:
  "query_body e WIOTA_TS_FUNC_GET sub s =
     Some ([ret8 (api_ret e (calls s) (Get1 (C_get_time_service_func 0)))],
           s\<lparr>calls := calls s @ [Get1 (C_get_time_service_func 0), Get1 (C_get_time_service_func 1),
              Get1 (C_get_time_service_func 2)]\<rparr>)"
  by (simp add: query_body_def query_ts_func_def api_get_def Let_def)

text \<open>C25: A unicast transmission command on a ready link hands the stack exactly the
  bytes and parameters of the command, counts it as added, and answers at once with the
  stack's result, counting it as completed, exactly when the command asked to block;
  otherwise the stack is given the callback and nothing is queued yet.\<close>

theorem send_data_accounted:
  assumes sub: "sub = header_bytes h @ le32 user @ le32 timeout @ le32 did @ [order, blk] @
      le16 (of_nat (length d)) @ d @ rest" and d: "length d < 65536"
    and ready: "ul_ready e s" "24 \<le> ul_space s" "malloc_ok e (mallocs s) 24"
  shows "\<exists>s'. uc_wiota_handle_send_msg e sub WIOTA_SEND_DATA s = Some s' \<and>
     calls s' = calls s @ [Send (C_send_data_order d user timeout order
       (if blk \<noteq> 0 then No_callback else Send_callback) did)] \<and>
     g_add_cnt s' = g_add_cnt s + 1 \<and>
     g_del_cnt s' = g_del_cnt s + (if blk \<noteq> 0 then 1 else 0) \<and>
     ul_queue s' = ul_queue s @ (if blk \<noteq> 0 then reply e s CMD_TYPE_SEND WIOTA_SEND_DATA
       (le32 user @ le32 did @ le32 (api_ret e (calls s) (last (calls s')))) else [])"
proof -
  let ?call = "Send (C_send_data_order d user timeout order
       (if blk \<noteq> 0 then No_callback else Send_callback) did)"
  let ?r = "api_ret e (calls s) ?call"
  let ?s0 = "s\<lparr>g_add_cnt := g_add_cnt s + 1, calls := calls s @ [?call]\<rparr>"
  have rd: "read_u32 sub 8 = Some user" "read_u32 sub 12 = Some timeout" "read_u32 sub 16 = Some did"
    "mem_get sub 20 = Some order" "mem_get sub 21 = Some blk"
    "read_u16 sub 22 = Some (of_nat (length d))" "mem_read sub 24 (length d) = Some d"
    by (simp_all add: sub read_u32_def read_u16_def mem_read_def mem_get_def nth_append)
  have step: "uc_wiota_handle_send_msg e sub WIOTA_SEND_DATA s =
      (if blk \<noteq> 0 then uc_wiota_handle_send_result e user did ?r 0 ?s0 else Some ?s0)"
    by (simp add: uc_wiota_handle_send_msg_def handle_send_data_def rd unat_of_nat16 [OF d]
        api_get_def send_cb_def Let_def)
  show ?thesis
  proof (cases "blk = 0")
    case True
    then show ?thesis using step link_eq_queue(2) [of ?s0 s] by simp
  next
    case False
    let ?ps = "[(le32 user @ le32 did @ le32 ?r, 12)]"
    have l0: "link_eq ?s0 s" by simp
    have pay: "payload ?ps = le32 user @ le32 did @ le32 ?r" "paras_ok ?ps" by simp_all
    have len: "length (reply e s 4 0 (payload ?ps)) = 24" "align4 12 = 12"
      by (simp_all add: wire_frame_def frame_bytes_length align4_def)
    obtain s' where s': "send_recv_msg e 4 0 ?ps ?s0 = Some (0, s')"
      "sends e (reply e s 4 0 (payload ?ps)) ?s0 s'"
      using send_recv_msg_ok [OF l0 ready(1) pay(2), where t = 4 and c = 0] ready(2,3) len by auto
    show ?thesis
      using step False s'(1) sends_link [OF s'(2) l0 ready(1)] sends_frame [OF s'(2)] pay(1)
      by (simp add: uc_wiota_handle_send_result_def ul_queue_def ul_synced_def)
  qed
qed

theorem send_data_accounted_witness:
  "\<exists>s'. uc_wiota_handle_send_msg sample_env (header_bytes zero_header @ le32 7 @ le32 100 @ le32 9 @
       [1, 1] @ le16 (of_nat (length [5, 6, 7 :: u8])) @ [5, 6, 7] @ []) WIOTA_SEND_DATA sample_state
     = Some s' \<and> g_add_cnt s' = 1 \<and> g_del_cnt s' = 1"
proof -
  have "malloc_ok sample_env (mallocs sample_state) 24" by (simp add: sample_env_def)
  then show ?thesis
    using send_data_accounted [OF refl _ sample_ready(1), of "[5, 6, 7]" zero_header 7 100 9 1 1 "[]"]
      sample_ready by (auto simp: sample_state_def)
qed

end
