(* ===== verification/SpiParse.thy ===== *)
theory SpiParse
  imports SpiHandlers
begin

text \<open>
  The receive side of PS/app/src/uc_wiota_spi_com.c: uc_wiota_dl_data_parse takes
  everything the gateway has put into the downlink ring and runs the commands in
  it.  The gateway writes every command twice in a row, the second copy being a
  backup for a damaged first one.
\<close>

section \<open>One command\<close>

text \<open>
  The header check: at the current offset, and failing that in the middle of the
  block, from where a good header is copied back.  The result is the block and the
  position \<open>cmd_header\<close> points to, or \<open>None\<close> inside when both fail.
\<close>

definition header_ok :: "'e api_env_scheme \<Rightarrow> bytes \<Rightarrow> bool" where
  "header_ok e hb \<longleftrightarrow> header_crc (bytes_header hb) = crc32_calc e (take 4 hb)"

definition check_header :: "'e api_env_scheme \<Rightarrow> bytes \<Rightarrow> nat \<Rightarrow> (bytes \<times> nat) option option" where
  "check_header e dl off = do {
     h0 \<leftarrow> mem_read dl off 8;
     if header_ok e h0 then Some (Some (dl, off))
     else do {
       h1 \<leftarrow> mem_read dl (length dl div 2) 8;
       if header_ok e h1 then do {
         dl' \<leftarrow> mem_write dl off h1;
         Some (Some (dl', length dl div 2))
       } else Some None
     }
   }"

text \<open>
  The data check at position \<open>pos\<close> over \<open>len\<close> bytes, the last four being the CRC.
  On failure the header is copied to position \<open>len\<close> of the block and the check
  repeated there.
\<close>

definition data_ok :: "'e api_env_scheme \<Rightarrow> bytes \<Rightarrow> nat \<Rightarrow> nat \<Rightarrow> bool option" where
  "data_ok e dl pos len = do {
     c_assert (4 \<le> len);
     d \<leftarrow> mem_read dl pos (len - 4);
     ori_crc \<leftarrow> read_u32 dl (pos + len - 4);
     Some (crc32_calc e d = ori_crc)
   }"

definition check_data ::
  "'e api_env_scheme \<Rightarrow> bytes \<Rightarrow> nat \<Rightarrow> nat \<Rightarrow> nat \<Rightarrow> (bytes \<times> nat) option option" where
  "check_data e dl hpos off len = do {
     ok \<leftarrow> data_ok e dl off len;
     if ok then Some (Some (dl, off))
     else do {
       hb \<leftarrow> mem_read dl hpos 8;
       dl' \<leftarrow> mem_write dl len hb;
       ok' \<leftarrow> data_ok e dl' len len;
       Some (if ok' then Some (dl', len) else None)
     }
   }"

text \<open>One round of the loop: \<open>Stop\<close> is a break, \<open>Next\<close> a command that was run.\<close>

datatype round = Stop | Next bytes nat spi_state

definition run_command ::
  "spi_env \<Rightarrow> bytes \<Rightarrow> nat \<Rightarrow> nat \<Rightarrow> nat \<Rightarrow> nat \<Rightarrow> spi_state \<Rightarrow> round option" where
  "run_command e dl hpos spos off sub_data_len s =
     (if sub_data_len > length dl then Some Stop
      else do {
        hb \<leftarrow> mem_read dl hpos 8;
        s' \<leftarrow> dispatch e (bytes_header hb) (drop spos dl) s;
        Some (Next dl (to_u16 (off + sub_data_len)) s')
      })"

definition parse_round :: "spi_env \<Rightarrow> bytes \<Rightarrow> nat \<Rightarrow> spi_state \<Rightarrow> round option" where
  "parse_round e dl off s = do {
     hdr \<leftarrow> check_header e dl off;
     case hdr of None \<Rightarrow> Some Stop
     | Some (dl1, hpos) \<Rightarrow> do {
         hb \<leftarrow> mem_read dl1 hpos 8;
         let dlen = data_len (bytes_header hb);
         if dlen > 0 then do {
           let len = to_u16 (8 + to_u16 (align4 dlen) + 4);
           dat \<leftarrow> check_data e dl1 hpos off len;
           case dat of None \<Rightarrow> Some Stop
           | Some (dl2, spos) \<Rightarrow> run_command e dl2 hpos spos off (to_u16 (len * 2)) s
         } else run_command e dl1 hpos off off 16 s
       }
   }"

section \<open>The loop\<close>

text \<open>
  The outer option is about returning: \<^term>\<open>None\<close> is a loop that never ends.  Inside,
  \<^term>\<open>Some None\<close> is an access outside the block or a failed assertion, and
  \<^term>\<open>Some (Some (off, s))\<close> the returned offset and the state.
\<close>

partial_function (option) parse_loop ::
  "spi_env \<Rightarrow> bytes \<Rightarrow> nat \<Rightarrow> spi_state \<Rightarrow> (nat \<times> spi_state) option option" where
  "parse_loop e dl off s =
     (if off \<ge> length dl then Some (Some (off, s))
      else case parse_round e dl off s of
        None \<Rightarrow> Some None
      | Some Stop \<Rightarrow> Some (Some (off, s))
      | Some (Next dl' off' s') \<Rightarrow> parse_loop e dl' off' s')"

definition uc_wiota_dl_data_parse :: "spi_env \<Rightarrow> spi_state \<Rightarrow> (nat \<times> spi_state) option option" where
  "uc_wiota_dl_data_parse e s = (
     case uc_wiota_ringbuffer_get_dl_write_idx e s of (r, s1) \<Rightarrow>
       if r \<noteq> 0 then Some (Some (0, s1))
       else let n = uc_wiota_get_dl_data_len s1 in
         if n = 0 then Some (Some (0, s1))
         else case malloc e n s1 of (ok, s2) \<Rightarrow>
           if \<not> ok then Some (Some (0, s2))
           else case uc_wiota_ringbuffer_get (dl_rb s2) n n of
             None \<Rightarrow> Some None
           | Some (rb, dl_data, _) \<Rightarrow>
               parse_loop e dl_data 0
                 (uc_wiota_ringbuffer_set_dl_read_idx e (s2\<lparr>dl_rb := rb\<rparr>)))"

text \<open>One turn of the receive thread after the semaphore was taken.\<close>

definition uc_wiota_handle_dl_irq_msg :: "spi_env \<Rightarrow> spi_state \<Rightarrow> spi_state option option" where
  "uc_wiota_handle_dl_irq_msg e s =
     map_option (map_option snd) (uc_wiota_dl_data_parse e (s\<lparr>dl_irq_cnt := dl_irq_cnt s + 1\<rparr>))"

section \<open>Every block ends the loop\<close>

lemma data_ok_bounds: "data_ok e dl pos len = Some b \<Longrightarrow> 4 \<le> len \<and> pos + len \<le> length dl"
  by (auto simp: data_ok_def bind_eq_Some_conv mem_read_eq_Some read_u32_def)

lemma check_header_length:
  "check_header e dl off = Some (Some (dl', p)) \<Longrightarrow> length dl' = length dl"
  by (auto simp: check_header_def bind_eq_Some_conv split: if_splits dest: mem_write_length)

lemma check_data_bounds:
  "check_data e dl hpos off len = Some (Some (dl', p)) \<Longrightarrow>
     length dl' = length dl \<and> 4 \<le> len \<and> len \<le> length dl"
  by (auto simp: check_data_def bind_eq_Some_conv split: if_splits
      dest!: data_ok_bounds mem_write_length)

lemma run_command_Next:
  "run_command e dl hpos spos off n s = Some (Next dl' off' s') \<Longrightarrow>
     dl' = dl \<and> off' = to_u16 (off + n) \<and> n \<le> length dl"
  by (auto simp: run_command_def bind_eq_Some_conv split: if_splits)

lemma parse_round_progress:
  assumes "parse_round e dl off s = Some (Next dl' off' s')" "length dl < 32768" "off < length dl"
  shows "length dl' = length dl \<and> off < off'"
proof -
  obtain dl1 hpos where h: "check_header e dl off = Some (Some (dl1, hpos))"
    using assms(1) by (auto simp: parse_round_def bind_eq_Some_conv split: option.splits)
  have l1: "length dl1 = length dl" using check_header_length [OF h] .
  consider (short) "run_command e dl1 hpos off off 16 s = Some (Next dl' off' s')"
    | (long) len dl2 spos where "check_data e dl1 hpos off len = Some (Some (dl2, spos))"
        "run_command e dl2 hpos spos off (to_u16 (len * 2)) s = Some (Next dl' off' s')"
    using assms(1) h
    by (fastforce simp: parse_round_def Let_def bind_eq_Some_conv split: option.splits if_splits)
  then show ?thesis
  proof cases
    case short
    then show ?thesis using run_command_Next l1 assms(2,3) by fastforce
  next
    case long
    have "length dl2 = length dl" "4 \<le> len" "len \<le> length dl"
      using check_data_bounds [OF long(1)] l1 by auto
    then show ?thesis using run_command_Next [OF long(2)] assms(2,3) by simp
  qed
qed

lemma parse_loop_terminates:
  "length dl < 32768 \<Longrightarrow> \<exists>r. parse_loop e dl off s = Some r"
proof (induction "length dl - off" arbitrary: dl off s rule: less_induct)
  case less
  show ?case
  proof (cases "off \<ge> length dl")
    case True
    then show ?thesis by (subst parse_loop.simps) simp
  next
    case False
    show ?thesis
    proof (cases "parse_round e dl off s")
      case None
      then show ?thesis using False by (subst parse_loop.simps) simp
    next
      case (Some r)
      show ?thesis
      proof (cases r)
        case Stop
        then show ?thesis using False Some by (subst parse_loop.simps) simp
      next
        case (Next dl' off' s')
        then have "length dl' = length dl" "off < off'"
          using parse_round_progress [of e dl off s dl' off' s'] Some False less.prems by auto
        then have "\<exists>r. parse_loop e dl' off' s' = Some r"
          using less.hyps [of dl' off' s'] less.prems False by simp
        then show ?thesis using False Some Next by (subst parse_loop.simps) simp
      qed
    qed
  qed
qed

section \<open>Intact commands run in order\<close>

text \<open>
  A command as the gateway composes it: a header that announces the length of the
  data and carries its own CRC.
\<close>

definition command_wf :: "'e api_env_scheme \<Rightarrow> cmd_header_t \<times> bytes \<Rightarrow> bool" where
  "command_wf e c \<longleftrightarrow> (case c of (h, d) \<Rightarrow> header_wf h \<and> data_len h = length d \<and>
     header_crc h = crc32_calc e (header_prefix h))"

definition command_bytes :: "'e api_env_scheme \<Rightarrow> cmd_header_t \<times> bytes \<Rightarrow> bytes" where
  "command_bytes e c = frame_bytes e (fst c) (snd c)"

text \<open>The downlink stream of a list of commands: each followed by its backup copy.\<close>

definition doubled :: "'e api_env_scheme \<Rightarrow> (cmd_header_t \<times> bytes) list \<Rightarrow> bytes" where
  "doubled e cs = concat (map (\<lambda>c. command_bytes e c @ command_bytes e c) cs)"

text \<open>The reference: run the commands one after the other, each on its own bytes.\<close>

fun run_commands :: "spi_env \<Rightarrow> (cmd_header_t \<times> bytes) list \<Rightarrow> spi_state \<Rightarrow> spi_state option" where
  "run_commands e [] s = Some s"
| "run_commands e (c # cs) s = do {
     s' \<leftarrow> dispatch e (fst c) (command_bytes e c) s;
     run_commands e cs s'
   }"

lemma frame_starts: "\<exists>r. frame_bytes e h d = header_bytes h @ r"
  by (simp add: frame_bytes_def frame_body_def)

lemma header_ok_frame:
  assumes "command_wf e (h, d)"
  shows "header_ok e (header_bytes h)"
proof -
  have "bytes_header (header_bytes h @ []) = h"
    using assms by (intro bytes_header_header_bytes) (simp add: command_wf_def)
  moreover have "take 4 (header_bytes h) = header_prefix h"
    by (simp add: header_bytes_def)
  ultimately show ?thesis using assms by (simp add: header_ok_def command_wf_def)
qed

lemma data_ok_frame:
  assumes "d \<noteq> []" "dl = pre @ frame_bytes e h d @ rest"
  shows "data_ok e dl (length pre) (8 + align4 (length d) + 4) = Some True"
proof -
  let ?b = "frame_body h d"
  have dl: "dl = pre @ ?b @ (le32 (crc32_calc e ?b) @ rest)"
    using assms by (simp add: frame_bytes_def)
  have l: "length ?b = 8 + align4 (length d)" by (rule frame_body_length)
  have "mem_read dl (length pre) (8 + align4 (length d)) = Some ?b"
    unfolding dl by (rule mem_read_append_mid) (simp_all add: l)
  moreover have "read_u32 dl (length pre + (8 + align4 (length d))) = Some (crc32_calc e ?b)"
    unfolding dl by (simp add: read_u32_def mem_read_def l)
  ultimately show ?thesis by (simp add: data_ok_def c_assert_def ac_simps)
qed

lemma parse_round_command:
  assumes wf: "command_wf e c" and dl: "dl = pre @ command_bytes e c @ command_bytes e c @ rest"
    and len: "length dl < 32768"
  shows "parse_round e dl (length pre) s =
    map_option (\<lambda>s'. Next dl (length pre + 2 * length (command_bytes e c)) s')
      (dispatch e (fst c) (command_bytes e c @ command_bytes e c @ rest) s)"
proof -
  obtain h d where c: "c = (h, d)" by force
  let ?f = "frame_bytes e h d"
  have cb: "command_bytes e c = ?f" by (simp add: c command_bytes_def)
  have wf': "header_wf h" "data_len h = length d" using wf by (simp_all add: c command_wf_def)
  obtain r where r: "?f = header_bytes h @ r" using frame_starts by blast
  have rd: "mem_read dl (length pre) 8 = Some (header_bytes h)"
    unfolding dl cb r by (simp add: mem_read_def)
  have hdr: "check_header e dl (length pre) = Some (Some (dl, length pre))"
    using header_ok_frame [of e h d] wf rd by (simp add: check_header_def c)
  have bh: "bytes_header (header_bytes h) = h"
    using bytes_header_header_bytes [OF wf'(1), of "[]"] by simp
  have dr: "drop (length pre) dl = ?f @ ?f @ rest" unfolding dl cb by simp
  have tot: "length pre + 2 * length ?f \<le> length dl" unfolding dl cb by simp
  show ?thesis
  proof (cases "d = []")
    case True
    then have "length ?f = 8" by (simp add: frame_bytes_length)
    then show ?thesis
      using hdr rd bh wf' True dr tot len
      by (cases "dispatch e h (?f @ ?f @ rest) s")
        (simp_all add: parse_round_def run_command_def c command_bytes_def)
  next
    case False
    let ?n = "8 + align4 (length d) + 4"
    have n: "length ?f = ?n" using False by (simp add: frame_bytes_length)
    have "data_ok e dl (length pre) ?n = Some True"
      using data_ok_frame [OF False] dl cb by blast
    then have "check_data e dl (length pre) (length pre) ?n = Some (Some (dl, length pre))"
      by (simp add: check_data_def)
    moreover have "to_u16 (align4 (length d)) = align4 (length d)" "to_u16 ?n = ?n"
      "to_u16 (?n * 2) = 2 * length ?f" "to_u16 (length pre + 2 * length ?f) = length pre + 2 * length ?f"
      using n tot len by simp_all
    ultimately show ?thesis
      using hdr rd bh wf' False dr tot
      by (cases "dispatch e h (?f @ ?f @ rest) s")
        (simp_all add: parse_round_def run_command_def c command_bytes_def Let_def)
  qed
qed

lemma parse_loop_doubled:
  assumes "\<forall>c\<in>set cs. command_wf e c" "length (pre @ doubled e cs) < 32768"
    and "run_commands e cs s = Some s'"
  shows "parse_loop e (pre @ doubled e cs) (length pre) s = Some (Some (length (pre @ doubled e cs), s'))"
  using assms
proof (induction cs arbitrary: pre s)
  case Nil
  then show ?case by (subst parse_loop.simps) (simp add: doubled_def)
next
  case (Cons c cs)
  let ?f = "command_bytes e c"
  let ?dl = "pre @ ?f @ ?f @ doubled e cs"
  have dl: "pre @ doubled e (c # cs) = ?dl" by (simp add: doubled_def)
  obtain s1 where s1: "dispatch e (fst c) ?f s = Some s1" "run_commands e cs s1 = Some s'"
    using Cons.prems(3) by (auto simp: bind_eq_Some_conv)
  have "dispatch e (fst c) (?f @ ?f @ doubled e cs) s = Some s1"
    using ext_mono_dispatch [of e "fst c" s] s1(1) by (simp add: ext_mono_def)
  then have "parse_round e ?dl (length pre) s = Some (Next ?dl (length pre + 2 * length ?f) s1)"
    using parse_round_command [OF _ refl, of e c pre "doubled e cs" s] Cons.prems dl by simp
  moreover have "8 \<le> length ?f" by (simp add: command_bytes_def frame_bytes_length)
  then have "?f \<noteq> []" by force
  moreover have "parse_loop e ((pre @ ?f @ ?f) @ doubled e cs) (length (pre @ ?f @ ?f)) s1 =
      Some (Some (length ((pre @ ?f @ ?f) @ doubled e cs), s'))"
    using Cons.prems s1(2) dl by (intro Cons.IH) simp_all
  ultimately show ?case unfolding dl by (subst parse_loop.simps) (simp add: mult_2 add.assoc)
qed

section \<open>Damage in a single command\<close>

text \<open>
  When the block holds one command, its middle is the backup copy: a first copy
  with a damaged header, or with damaged data behind an intact header, is replaced.
\<close>

lemma parse_round_header_damaged:
  assumes wf: "command_wf e c" and len: "2 * length (command_bytes e c) < 32768"
    and dmg: "length x = 8" "\<not> header_ok e x"
    and dl: "dl = (x @ drop 8 (command_bytes e c)) @ command_bytes e c"
  shows "parse_round e dl 0 s = map_option (Next (command_bytes e c @ command_bytes e c)
      (2 * length (command_bytes e c)))
    (dispatch e (fst c) (command_bytes e c @ command_bytes e c) s)"
proof -
  obtain h d where c: "c = (h, d)" by force
  let ?f = "frame_bytes e h d"
  have cb: "command_bytes e c = ?f" by (simp add: c command_bytes_def)
  have wf': "header_wf h" "data_len h = length d" using wf by (simp_all add: c command_wf_def)
  obtain r where r: "?f = header_bytes h @ r" using frame_starts by blast
  have half: "length dl div 2 = length ?f" and ll: "length dl = 2 * length ?f"
    using dmg(1) unfolding dl cb r by simp_all
  have bh: "bytes_header (header_bytes h) = h"
    using bytes_header_header_bytes [OF wf'(1), of "[]"] by simp
  have "mem_read dl 0 8 = Some x" "mem_read dl (length ?f) 8 = Some (header_bytes h)"
    using dmg(1) unfolding dl cb r by (simp_all add: mem_read_def)
  moreover have "mem_write dl 0 (header_bytes h) = Some (?f @ ?f)"
    using dmg(1) unfolding dl cb r by (simp add: mem_write_def)
  ultimately have hdr: "check_header e dl 0 = Some (Some (?f @ ?f, length ?f))"
    using dmg(2) half header_ok_frame [of e h d] wf by (simp add: check_header_def c)
  have rd: "mem_read (?f @ ?f) (length ?f) 8 = Some (header_bytes h)"
    unfolding r by (simp add: mem_read_def)
  show ?thesis
  proof (cases "d = []")
    case True
    then have "length ?f = 8" by (simp add: frame_bytes_length)
    then show ?thesis
      using hdr rd bh wf' True
      by (cases "dispatch e h (?f @ ?f) s")
        (simp_all add: parse_round_def run_command_def c command_bytes_def)
  next
    case False
    let ?n = "8 + align4 (length d) + 4"
    have n: "length ?f = ?n" using False by (simp add: frame_bytes_length)
    have "data_ok e (?f @ ?f) 0 ?n = Some True"
      using data_ok_frame [OF False, of "?f @ ?f" "[]" e h ?f] by simp
    then have "check_data e (?f @ ?f) (length ?f) 0 ?n = Some (Some (?f @ ?f, 0))"
      by (simp add: check_data_def)
    moreover have "to_u16 (align4 (length d)) = align4 (length d)" "to_u16 ?n = ?n"
      "to_u16 (?n * 2) = 2 * length ?f" "to_u16 (2 * length ?f) = 2 * length ?f"
      using n len cb by simp_all
    ultimately show ?thesis
      using hdr rd bh wf' False
      by (cases "dispatch e h (?f @ ?f) s")
        (simp_all add: parse_round_def run_command_def c command_bytes_def Let_def)
  qed
qed

lemma parse_round_data_damaged:
  assumes wf: "command_wf e (h, d)" and d: "d \<noteq> []" and f: "f = frame_bytes e h d"
    and len: "2 * length f < 32768"
    and dmg: "g = header_bytes h @ y" "length g = length f"
      "data_ok e (g @ f) 0 (length f) = Some False"
  shows "parse_round e (g @ f) 0 s = map_option (Next (g @ f) (2 * length f)) (dispatch e h f s)"
proof -
  have wf': "header_wf h" "data_len h = length d" using wf by (simp_all add: command_wf_def)
  obtain r where r: "f = header_bytes h @ r" using frame_starts f by blast
  have bh: "bytes_header (header_bytes h) = h"
    using bytes_header_header_bytes [OF wf'(1), of "[]"] by simp
  let ?n = "8 + align4 (length d) + 4"
  have n: "length f = ?n" using d f by (simp add: frame_bytes_length)
  have rd: "mem_read (g @ f) 0 8 = Some (header_bytes h)"
    unfolding dmg(1) by (simp add: mem_read_def)
  have hdr: "check_header e (g @ f) 0 = Some (Some (g @ f, 0))"
    using header_ok_frame [of e h d] wf rd by (simp add: check_header_def)
  have "mem_write (g @ f) (length f) (header_bytes h) = Some (g @ f)"
    using dmg(2) unfolding r by (simp add: mem_write_def)
  moreover have "data_ok e (g @ f) (length f) (length f) = Some True"
    using data_ok_frame [OF d, of "g @ f" g e h "[]"] dmg(2) n f by simp
  ultimately have "check_data e (g @ f) 0 0 (length f) = Some (Some (g @ f, length f))"
    using dmg(3) rd by (simp add: check_data_def)
  moreover have "to_u16 (align4 (length d)) = align4 (length d)" "to_u16 ?n = ?n"
    "to_u16 (length f * 2) = 2 * length f" "to_u16 (2 * length f) = 2 * length f"
    using n len by simp_all
  ultimately show ?thesis
    using hdr rd bh wf' d dmg(2) n
    by (cases "dispatch e h f s") (simp_all add: parse_round_def run_command_def Let_def)
qed

section \<open>From the ring to the commands\<close>

lemma ringbuffer_get_length:
  "uc_wiota_ringbuffer_get rb cap n = Some (rb', d, k) \<Longrightarrow> length d = k \<and> k \<le> cap"
  by (auto simp: uc_wiota_ringbuffer_get_def Let_def bind_eq_Some_conv dest!: mem_read_length
      split: if_splits)

lemma get_dl_data_len_bound: "uc_wiota_get_dl_data_len s \<le> buffer_size (dl_rb s)"
  by (simp add: uc_wiota_get_dl_data_len_def Let_def)

lemma get_dl_write_idx_size:
  "uc_wiota_ringbuffer_get_dl_write_idx e s = (r, s1) \<Longrightarrow>
     buffer_size (dl_rb s1) = buffer_size (dl_rb s)"
  by (auto simp: uc_wiota_ringbuffer_get_dl_write_idx_def Let_def split: if_splits)

text \<open>The downlink ring as the next receive sees it, and the state once it is drained.\<close>

definition dl_synced :: "spi_state \<Rightarrow> rt_ringbuffer" where
  "dl_synced s = (dl_rb s)\<lparr>write_index := st_index (dl_rb_write_state s),
     write_mirror := st_mirror (dl_rb_write_state s)\<rparr>"

definition dl_ready :: "'e api_env_scheme \<Rightarrow> spi_state \<Rightarrow> bool" where
  "dl_ready e s \<longleftrightarrow> st_channel (dl_rb_write_state s) = ap_channel_id s \<and>
     rb_state_valid e (dl_rb_write_state s) \<and> rb_inv (dl_synced s)"

definition drained :: "'e api_env_scheme \<Rightarrow> rt_ringbuffer \<Rightarrow> spi_state \<Rightarrow> spi_state" where
  "drained e rb s = uc_wiota_ringbuffer_set_dl_read_idx e (s\<lparr>mallocs := mallocs s + 1, dl_rb := rb\<rparr>)"

lemma dl_data_parse_drains:
  assumes "dl_ready e s" "rb_contents (dl_synced s) = d" "4 dvd length d" "8 \<le> length d"
    and "malloc_ok e (mallocs s) (length d)"
  shows "\<exists>rb. rb_inv rb \<and> rb_contents rb = [] \<and> buffer_size rb = buffer_size (dl_rb s) \<and>
    uc_wiota_dl_data_parse e s = parse_loop e d 0 (drained e rb s)"
proof -
  let ?rb = "dl_synced s"
  have inv: "rb_inv ?rb" using assms(1) by (simp add: dl_ready_def)
  have idx: "uc_wiota_ringbuffer_get_dl_write_idx e s = (0, s\<lparr>dl_rb := ?rb\<rparr>)"
    using assms(1)
    by (simp add: dl_ready_def uc_wiota_ringbuffer_get_dl_write_idx_def rb_state_valid_def Let_def
        dl_synced_def)
  have dl: "rt_ringbuffer_data_len ?rb = length d" using assms(2) contents_length by metis
  then have le: "length d \<le> buffer_size ?rb" "length d < 65536"
    using data_len_le_size [OF inv] inv by (auto simp: rb_inv_def)
  then have n: "uc_wiota_get_dl_data_len (s\<lparr>dl_rb := ?rb\<rparr>) = length d"
    using dl assms(4) by (simp add: uc_wiota_get_dl_data_len_def Let_def)
  obtain rb where rb: "uc_wiota_ringbuffer_get ?rb (length d) (length d) =
      Some (rb, take (length d) (rb_contents ?rb), length d)"
    "rb_inv rb" "rb_contents rb = drop (length d) (rb_contents ?rb)" "buffer_size rb = buffer_size ?rb"
    using get_refines [OF inv assms(3), of "length d"] dl by auto
  have "buffer_size ?rb = buffer_size (dl_rb s)" by (simp add: dl_synced_def)
  moreover have "uc_wiota_dl_data_parse e s = parse_loop e d 0 (drained e rb s)"
    using idx n rb(1) assms(2,4,5)
    by (auto simp: uc_wiota_dl_data_parse_def Let_def malloc_def drained_def)
  ultimately show ?thesis using rb assms(2) by auto
qed

lemma doubled_dvd: "4 dvd length (doubled e cs)"
  by (induction cs) (simp_all add: doubled_def command_bytes_def)

lemma doubled_length: "cs \<noteq> [] \<Longrightarrow> 8 \<le> length (doubled e cs)"
  by (cases cs) (simp_all add: doubled_def command_bytes_def frame_bytes_length)

section \<open>A concrete downlink\<close>

text \<open>An execution command with its CRC, as the worked examples use it.\<close>

definition sample_header :: "nat \<Rightarrow> cmd_header_t" where
  "sample_header c = send_header sample_env 0 0 (zero_header\<lparr>cmd := c\<rparr>)"

lemma sample_command_wf: "c < 64 \<Longrightarrow> command_wf sample_env (sample_header c, [])"
  by (simp add: command_wf_def sample_header_def send_header_def header_wf_def zero_header_def
      header_prefix_def header_flags_def)

lemma sample_header_fields [simp]: "cmd_type (sample_header c) = 0" "cmd (sample_header c) = c"
  by (simp_all add: sample_header_def send_header_def zero_header_def Let_def)

lemma sample_dispatch:
  assumes "c < 64" "c \<noteq> WIOTA_REBOOT" "ul_ready sample_env s" "8 \<le> ul_space s"
  shows "\<exists>s'. dispatch sample_env (sample_header c) (header_bytes (sample_header c)) s = Some s'"
proof -
  have "header_wf (sample_header c)"
    using sample_command_wf [OF assms(1)] by (simp add: command_wf_def)
  then have "sub_header (header_bytes (sample_header c)) = Some (sample_header c)"
    using bytes_header_header_bytes [of "sample_header c" "[]"] by (simp add: sub_header_def mem_read_def)
  then obtain s0 where "link_eq s0 s" "uc_wiota_handle_exec_msg sample_env (header_bytes (sample_header c)) s =
      wiota_cmd_exec_result sample_env 0 c s0"
    using exec_step [of _ "sample_header c" s sample_env] assms(2) by auto
  then show ?thesis
    using exec_result_ok [OF _ assms(3,4), of s0 0 c] by (auto simp: dispatch_def)
qed

definition sample_downlink :: spi_state where
  "sample_downlink = sample_state\<lparr>
     dl_rb := (sample_ring 64)\<lparr>buffer_ptr := doubled sample_env [(sample_header 4, [])] @ replicate 48 0\<rparr>,
     dl_rb_write_state := zero_rb_state\<lparr>st_index := 16, st_crc := 16\<rparr>\<rparr>"

lemma sample_doubled: "doubled sample_env [(sample_header 4, [])] =
    header_bytes (sample_header 4) @ header_bytes (sample_header 4)"
  by (simp add: doubled_def command_bytes_def frame_bytes_def)

lemma sample_downlink_ready:
  "dl_ready sample_env sample_downlink"
  "rb_contents (dl_synced sample_downlink) = doubled sample_env [(sample_header 4, [])]"
proof -
  let ?d = "doubled sample_env [(sample_header 4, [])]"
  have syn: "dl_synced sample_downlink = \<lparr>buffer_ptr = ?d @ replicate 48 0, read_mirror = False,
      read_index = 0, write_mirror = False, write_index = 16, buffer_size = 64\<rparr>"
    by (simp add: dl_synced_def sample_downlink_def sample_ring_def zero_rb_state_def)
  have len: "length ?d = 16" by (simp add: sample_doubled)
  have inv: "rb_inv (dl_synced sample_downlink)" using len by (simp add: syn rb_inv_def)
  have "rb_state_valid sample_env (dl_rb_write_state sample_downlink)"
    by (simp add: rb_state_valid_def sample_downlink_def zero_rb_state_def sample_env_def
        rb_state_bytes_def le16_def drop_bit_eq_div)
  then show "dl_ready sample_env sample_downlink"
    using inv by (simp add: dl_ready_def sample_downlink_def sample_state_def zero_rb_state_def)
  have dl: "rt_ringbuffer_data_len (dl_synced sample_downlink) = 16"
    by (simp add: syn rt_ringbuffer_data_len_def rt_ringbuffer_status_def)
  show "rb_contents (dl_synced sample_downlink) = ?d"
    by (rule nth_equalityI)
      (simp_all add: dl len, simp add: contents_nth [OF inv] dl, simp add: syn nth_append len)
qed

lemma drained_link:
  "ul_ready e (drained e' rb s) = ul_ready e s" "ul_space (drained e' rb s) = ul_space s"
  "ul_ready e sample_downlink = ul_ready e sample_state" "ul_space sample_downlink = ul_space sample_state"
  by (simp_all add: drained_def uc_wiota_ringbuffer_set_dl_read_idx_def ul_ready_def ul_space_def
      ul_synced_def sample_downlink_def)

section \<open>Properties\<close>



text \<open>C2: The receive routine refines the specification that runs the commands one
  after the other.  When the downlink ring holds any number of intact commands, each
  followed by its backup, it empties the ring, publishes the new read index, runs every
  command exactly once, in order and on its own bytes only, and returns the number of
  bytes consumed.\<close>

theorem dl_data_parse_runs_commands:
  assumes "dl_ready e s" "rb_contents (dl_synced s) = doubled e cs" "cs \<noteq> []"
    and "\<forall>c\<in>set cs. command_wf e c" "malloc_ok e (mallocs s) (length (doubled e cs))"
  shows "\<exists>rb. rb_inv rb \<and> rb_contents rb = [] \<and>
    (\<forall>s'. run_commands e cs (drained e rb s) = Some s' \<longrightarrow>
       uc_wiota_dl_data_parse e s = Some (Some (length (doubled e cs), s')))"
proof -
  have "length (doubled e cs) \<le> buffer_size (dl_synced s)" "buffer_size (dl_synced s) < 32768"
    using data_len_le_size [of "dl_synced s"] contents_length [of "dl_synced s"] assms(1,2)
    by (auto simp: dl_ready_def rb_inv_def)
  moreover obtain rb where rb: "rb_inv rb" "rb_contents rb = []"
    "uc_wiota_dl_data_parse e s = parse_loop e (doubled e cs) 0 (drained e rb s)"
    using dl_data_parse_drains [OF assms(1,2) doubled_dvd doubled_length [OF assms(3)] assms(5)] by blast
  ultimately show ?thesis
    using parse_loop_doubled [OF assms(4), of "[]"] by (intro exI [of _ rb]) auto
qed

theorem dl_data_parse_runs_commands_witness:
  "\<exists>rb s'. run_commands sample_env [(sample_header 4, [])] (drained sample_env rb sample_downlink) = Some s' \<and>
     uc_wiota_dl_data_parse sample_env sample_downlink = Some (Some (16, s'))"
proof -
  have "malloc_ok sample_env k n" for k n by (simp add: sample_env_def)
  then obtain rb where rb: "\<forall>s'. run_commands sample_env [(sample_header 4, [])]
      (drained sample_env rb sample_downlink) = Some s' \<longrightarrow>
      uc_wiota_dl_data_parse sample_env sample_downlink = Some (Some (16, s'))"
    using dl_data_parse_runs_commands [OF sample_downlink_ready] sample_command_wf [of 4]
    by (auto simp: sample_doubled)
  have "ul_ready sample_env (drained sample_env rb sample_downlink)"
    "8 \<le> ul_space (drained sample_env rb sample_downlink)"
    by (simp_all add: drained_link sample_ready)
  then obtain s' where "dispatch sample_env (sample_header 4) (header_bytes (sample_header 4))
      (drained sample_env rb sample_downlink) = Some s'"
    using sample_dispatch [of 4] by auto
  then have "run_commands sample_env [(sample_header 4, [])] (drained sample_env rb sample_downlink) = Some s'"
    by (simp add: command_bytes_def frame_bytes_def)
  then show ?thesis using rb by blast
qed

text \<open>C21: A single damaged command is recovered.  When the block holds one command and
  its backup, damage to the header of the first copy, or damage to the data of the first
  copy that its CRC detects, leaves the outcome as if nothing had happened: the command
  runs once and the whole block is consumed.\<close>

theorem single_command_recovers:
  assumes "command_wf e (h, d)" "f = frame_bytes e h d" "2 * length f < 32768"
    and "dispatch e h f s = Some s'"
    and "(length x = 8 \<and> \<not> header_ok e x \<and> g = x @ drop 8 f) \<or>
         (d \<noteq> [] \<and> length g = length f \<and> g = header_bytes h @ y \<and>
          data_ok e (g @ f) 0 (length f) = Some False)"
  shows "parse_loop e (g @ f) 0 s = Some (Some (2 * length f, s'))"
proof -
  have cb: "command_bytes e (h, d) = f" using assms(2) by (simp add: command_bytes_def)
  have l: "8 \<le> length f" using assms(2) by (simp add: frame_bytes_length)
  have ff: "dispatch e h (f @ f) s = Some s'"
    using ext_mono_dispatch [of e h s] assms(4) by (simp add: ext_mono_def)
  obtain dl' where "parse_round e (g @ f) 0 s = Some (Next dl' (2 * length f) s')"
    "length dl' = 2 * length f"
    using assms(5)
  proof
    assume "length x = 8 \<and> \<not> header_ok e x \<and> g = x @ drop 8 f"
    then show ?thesis
      using that parse_round_header_damaged [OF assms(1) _ _ _ refl, of x s] assms(3) ff cb by auto
  next
    assume "d \<noteq> [] \<and> length g = length f \<and> g = header_bytes h @ y \<and>
        data_ok e (g @ f) 0 (length f) = Some False"
    then show ?thesis
      using that parse_round_data_damaged [OF assms(1) _ assms(2,3), of g y s] assms(4) by auto
  qed
  moreover have "f \<noteq> []" using l by force
  ultimately show ?thesis
    by (subst parse_loop.simps) (simp, subst parse_loop.simps, simp)
qed

theorem single_command_recovers_witness:
  "\<exists>s'. parse_loop sample_env (([255, 0, 0, 0, 0, 0, 0, 0] @ drop 8 (header_bytes (sample_header 4))) @
      header_bytes (sample_header 4)) 0 sample_state = Some (Some (16, s'))"
proof -
  have x: "\<not> header_ok sample_env [255, 0, 0, 0, 0, 0, 0, 0]"
    by (simp add: header_ok_def bytes_header_def sample_env_def Let_def)
  have f: "frame_bytes sample_env (sample_header 4) [] = header_bytes (sample_header 4)"
    by (simp add: frame_bytes_def)
  obtain s' where s': "dispatch sample_env (sample_header 4) (header_bytes (sample_header 4)) sample_state = Some s'"
    using sample_dispatch [of 4, OF _ _ sample_ready(1)] sample_ready(3) by auto
  have "(length [255, 0, 0, 0, 0, 0, 0, 0 :: u8] = 8 \<and> \<not> header_ok sample_env [255, 0, 0, 0, 0, 0, 0, 0] \<and>
      [255, 0, 0, 0, 0, 0, 0, 0] @ drop 8 (header_bytes (sample_header 4)) =
      [255, 0, 0, 0, 0, 0, 0, 0] @ drop 8 (header_bytes (sample_header 4)))" using x by simp
  from single_command_recovers [OF sample_command_wf f [symmetric] _ s' disjI1 [OF this]]
  show ?thesis by simp
qed

text \<open>C26: With more than one command the recovery looks in the wrong place.  A damaged
  header of a second command is looked up in the middle of the whole block, which for
  two bare commands is the damaged header itself: the second command is never run,
  although its backup is intact.\<close>

theorem second_command_lost:
  assumes "command_wf e (h1, [])" "dispatch e h1 (header_bytes h1) s = Some s1"
    and "length x = 8" "\<not> header_ok e x"
  shows "parse_loop e ((header_bytes h1 @ header_bytes h1) @ x @ header_bytes h2) 0 s =
    Some (Some (16, s1))"
proof -
  let ?f = "header_bytes h1"
  let ?dl = "?f @ ?f @ x @ header_bytes h2"
  have f: "command_bytes e (h1, []) = ?f" by (simp add: command_bytes_def frame_bytes_def)
  have "dispatch e h1 ?dl s = Some s1"
    using ext_mono_dispatch [of e h1 s] assms(2) by (simp add: ext_mono_def)
  then have r1: "parse_round e ?dl 0 s = Some (Next ?dl 16 s1)"
    using parse_round_command [OF assms(1) refl, of "[]" "x @ header_bytes h2" s] f assms(3) by simp
  have "mem_read ?dl 16 8 = Some x" using assms(3) by (simp add: mem_read_def)
  then have "check_header e ?dl 16 = Some None"
    using assms(3,4) by (simp add: check_header_def)
  then have r2: "parse_round e ?dl 16 s1 = Some Stop" by (simp add: parse_round_def)
  have "?f \<noteq> []" by (metis header_bytes_length list.size(3) zero_neq_numeral)
  then show ?thesis
    using r1 r2 assms(3) by (subst parse_loop.simps) (simp, subst parse_loop.simps, simp)
qed

theorem second_command_lost_witness:
  "\<exists>s1. parse_loop sample_env ((header_bytes (sample_header 4) @ header_bytes (sample_header 4)) @
      [255, 0, 0, 0, 0, 0, 0, 0] @ header_bytes (sample_header 5)) 0 sample_state = Some (Some (16, s1))"
proof -
  have x: "\<not> header_ok sample_env [255, 0, 0, 0, 0, 0, 0, 0]"
    by (simp add: header_ok_def bytes_header_def sample_env_def Let_def)
  obtain s1 where "dispatch sample_env (sample_header 4) (header_bytes (sample_header 4)) sample_state = Some s1"
    using sample_dispatch [of 4, OF _ _ sample_ready(1)] sample_ready(3) by auto
  then show ?thesis
    using second_command_lost [OF sample_command_wf, of 4 sample_state s1 "[255, 0, 0, 0, 0, 0, 0, 0]"] x by auto
qed

text \<open>The length in a header is trusted before it is compared with the block: a block
  shorter than the command its intact header announces makes the CRC over the data read
  outside the allocation, because the comparison comes after it.\<close>

theorem announced_length_overread:
  assumes "header_wf h" "header_crc h = crc32_calc e (header_prefix h)"
    and "0 < data_len h" "data_len h < 65000" "length r < align4 (data_len h) + 4"
  shows "parse_loop e (header_bytes h @ r) 0 s = Some None"
proof -
  let ?dl = "header_bytes h @ r"
  have bh: "bytes_header (header_bytes h) = h"
    using bytes_header_header_bytes [OF assms(1), of "[]"] by simp
  have rd: "mem_read ?dl 0 8 = Some (header_bytes h)" by (simp add: mem_read_def)
  have "take 4 (header_bytes h) = header_prefix h" by (simp add: header_bytes_def)
  then have hdr: "check_header e ?dl 0 = Some (Some (?dl, 0))"
    using rd bh assms(2) by (simp add: check_header_def header_ok_def)
  let ?n = "8 + align4 (data_len h) + 4"
  have n: "to_u16 (align4 (data_len h)) = align4 (data_len h)" "to_u16 ?n = ?n"
    using align4_lt [of "data_len h"] assms(4) by simp_all
  have "data_ok e ?dl 0 ?n = None"
    using data_ok_bounds [of e ?dl 0 ?n] assms(5) by (cases "data_ok e ?dl 0 ?n") auto
  then have "parse_round e ?dl 0 s = None"
    using hdr rd bh n assms(3) by (simp add: parse_round_def check_data_def Let_def)
  moreover have "?dl \<noteq> []" by (metis append_is_Nil_conv header_bytes_length list.size(3) zero_neq_numeral)
  ultimately show ?thesis by (subst parse_loop.simps) simp
qed

theorem announced_length_overread_witness:
  "parse_loop sample_env (header_bytes (send_header sample_env 0 100 zero_header) @ []) 0 sample_state = Some None"
  by (rule announced_length_overread)
    (simp_all add: header_wf_def send_header_def zero_header_def header_prefix_def header_flags_def)

end
