(* ===== verification/FastLZ.thy ===== *)
theory FastLZ
  imports Prelude
begin

text \<open>
  The compressor of app/codec/fastlz/fastlz.c at level 1, the level
  fastlz_compress selects for every block below 64 KiB (the codec hands it at most
  1008 bytes), and the matching decompressor with FASTLZ_SAFE.  Reads go through
  \<^term>\<open>mem_get\<close>, so a result other than \<^term>\<open>None\<close> means that no pointer left
  its block.
\<close>

section \<open>Compressor\<close>

definition flz_hash :: "bytes \<Rightarrow> nat \<Rightarrow> nat option" where
  "flz_hash x p = do {
     a \<leftarrow> mem_get x p;
     b \<leftarrow> mem_get x (p + 1);
     c \<leftarrow> mem_get x (p + 2);
     let v = (ucast a OR push_bit 8 (ucast b) :: u32);
     let w = (ucast b OR push_bit 8 (ucast c) :: u32);
     Some (unat ((v XOR (w XOR drop_bit 6 v)) AND 1023))
   }"

text \<open>The run: compare \<open>*ref++\<close> with the repeated byte while \<open>ip < ip_bound\<close>.\<close>

function run_ext :: "bytes \<Rightarrow> u8 \<Rightarrow> nat \<Rightarrow> nat \<Rightarrow> nat \<Rightarrow> nat option" where
  "run_ext x b bound ref ip =
     (if ip < bound then do {
        c \<leftarrow> mem_get x ref;
        if c \<noteq> b then Some ip else run_ext x b bound (ref + 1) (ip + 1)
      } else Some ip)"
  by pat_completeness auto
termination by (relation "measure (\<lambda>(x, b, bound, ref, ip). bound - ip)") auto

text \<open>Any other match: eight unchecked comparisons, then while \<open>ip < ip_bound\<close>.\<close>

function cmp_while :: "bytes \<Rightarrow> nat \<Rightarrow> nat \<Rightarrow> nat \<Rightarrow> nat option" where
  "cmp_while x bound ref ip =
     (if ip < bound then do {
        a \<leftarrow> mem_get x ref;
        b \<leftarrow> mem_get x ip;
        if a \<noteq> b then Some (ip + 1) else cmp_while x bound (ref + 1) (ip + 1)
      } else Some ip)"
  by pat_completeness auto
termination by (relation "measure (\<lambda>(x, bound, ref, ip). bound - ip)") auto

fun cmp_ext :: "nat \<Rightarrow> bytes \<Rightarrow> nat \<Rightarrow> nat \<Rightarrow> nat \<Rightarrow> nat option" where
  "cmp_ext 0 x bound ref ip = cmp_while x bound ref ip"
| "cmp_ext (Suc k) x bound ref ip = do {
     a \<leftarrow> mem_get x ref;
     b \<leftarrow> mem_get x ip;
     if a \<noteq> b then Some (ip + 1) else cmp_ext k x bound (ref + 1) (ip + 1)
   }"

text \<open>The first three bytes, compared one after the other.\<close>

definition match3 :: "bytes \<Rightarrow> nat \<Rightarrow> nat \<Rightarrow> bool option" where
  "match3 x ref ip = do {
     a0 \<leftarrow> mem_get x ref;
     b0 \<leftarrow> mem_get x ip;
     if a0 \<noteq> b0 then Some False
     else do {
       a1 \<leftarrow> mem_get x (ref + 1);
       b1 \<leftarrow> mem_get x (ip + 1);
       if a1 \<noteq> b1 then Some False
       else do {
         a2 \<leftarrow> mem_get x (ref + 2);
         b2 \<leftarrow> mem_get x (ip + 2);
         Some (a2 = b2)
       }
     }
   }"

text \<open>The encoding of a match of \<open>len + 2\<close> bytes at the biased distance.\<close>

function encode_match :: "nat \<Rightarrow> nat \<Rightarrow> bytes" where
  "encode_match len d =
     (if len > 262 then
        [of_nat (7 * 32 + d div 256), 253, of_nat (d mod 256)] @ encode_match (len - 262) d
      else if len < 7 then [of_nat (len * 32 + d div 256), of_nat (d mod 256)]
      else [of_nat (7 * 32 + d div 256), of_nat (len - 7), of_nat (d mod 256)])"
  by pat_completeness auto
termination by (relation "measure fst") auto

text \<open>Patch the pending copy count, or drop it when nothing was copied.\<close>

definition close_copy :: "bytes \<Rightarrow> nat \<Rightarrow> bytes" where
  "close_copy out copy =
     (if copy > 0 then out[length out - copy - 1 := of_nat (copy - 1)] else butlast out)"

definition put_literal :: "u8 \<Rightarrow> bytes \<Rightarrow> nat \<Rightarrow> bytes \<times> nat" where
  "put_literal b out copy =
     (if copy + 1 = 32 then (out @ [b, 31], 0) else (out @ [b], copy + 1))"

record flz_state =
  fz_htab :: "nat list"
  fz_ip :: nat
  fz_out :: bytes
  fz_copy :: nat

definition match_end :: "bytes \<Rightarrow> nat \<Rightarrow> u8 \<Rightarrow> nat \<Rightarrow> nat \<Rightarrow> nat option" where
  "match_end x distance b ref ip =
     (if distance = 0 then run_ext x b (length x - 2) ref ip else cmp_ext 8 x (length x - 2) ref ip)"

definition flz_match :: "bytes \<Rightarrow> nat \<Rightarrow> nat \<Rightarrow> flz_state \<Rightarrow> flz_state option" where
  "flz_match x anchor ref s = (
     let distance = anchor - ref - 1 in do {
       b \<leftarrow> mem_get x (anchor + 2);
       e \<leftarrow> match_end x distance b (ref + 3) (anchor + 3);
       let ip = e - 3;
       h1 \<leftarrow> flz_hash x ip;
       h2 \<leftarrow> flz_hash x (ip + 1);
       Some \<lparr>fz_htab = (fz_htab s)[h1 := ip, h2 := ip + 1], fz_ip = ip + 2,
             fz_out = close_copy (fz_out s) (fz_copy s) @ encode_match (ip - anchor) distance @ [31],
             fz_copy = 0\<rparr>
     })"

definition flz_step :: "bytes \<Rightarrow> flz_state \<Rightarrow> flz_state option" where
  "flz_step x s = (let anchor = fz_ip s in do {
     hval \<leftarrow> flz_hash x anchor;
     ref \<leftarrow> mem_get (fz_htab s) hval;
     let distance = anchor - ref;
     let s1 = s\<lparr>fz_htab := (fz_htab s)[hval := anchor]\<rparr>;
     m \<leftarrow> (if distance = 0 \<or> distance \<ge> 8192 then Some False else match3 x ref anchor);
     if m then flz_match x anchor ref s1
     else do {
       b \<leftarrow> mem_get x anchor;
       let (out, copy) = put_literal b (fz_out s) (fz_copy s);
       Some (s1\<lparr>fz_ip := anchor + 1, fz_out := out, fz_copy := copy\<rparr>)
     }
   })"

text \<open>The main loop; the fuel bounds the number of rounds, \<^term>\<open>None\<close> when it runs out.\<close>

fun flz_loop :: "nat \<Rightarrow> bytes \<Rightarrow> flz_state \<Rightarrow> flz_state option" where
  "flz_loop 0 x s = None"
| "flz_loop (Suc k) x s =
     (if fz_ip s + 12 < length x then do { s' \<leftarrow> flz_step x s; flz_loop k x s' } else Some s)"

fun flz_rest :: "bytes \<Rightarrow> bytes \<Rightarrow> nat \<Rightarrow> bytes" where
  "flz_rest [] out copy = close_copy out copy"
| "flz_rest (b # bs) out copy = (case put_literal b out copy of (out', copy') \<Rightarrow> flz_rest bs out' copy')"

definition fastlz1_compress :: "bytes \<Rightarrow> bytes option" where
  "fastlz1_compress x =
     (if length x = 0 then Some []
      else if length x < 4 then Some (of_nat (length x - 1) # x)
      else do {
        s \<leftarrow> flz_loop (length x + 1) x
          \<lparr>fz_htab = replicate 1024 0, fz_ip = 2, fz_out = [31, x ! 0, x ! 1], fz_copy = 2\<rparr>;
        Some (flz_rest (drop (fz_ip s) x) (fz_out s) (fz_copy s))
      })"

text \<open>
  The number of bytes of the output block the compressor touches: the count byte it
  reserves last is dropped from the result when no literal follows it.
\<close>

fun flz_fill :: "bytes \<Rightarrow> bytes \<Rightarrow> nat \<Rightarrow> bytes \<times> nat" where
  "flz_fill [] out copy = (out, copy)"
| "flz_fill (b # bs) out copy = (case put_literal b out copy of (out', copy') \<Rightarrow> flz_fill bs out' copy')"

definition fastlz1_extent :: "bytes \<Rightarrow> nat option" where
  "fastlz1_extent x =
     (if length x = 0 then Some 0
      else if length x < 4 then Some (length x + 1)
      else do {
        s \<leftarrow> flz_loop (length x + 1) x
          \<lparr>fz_htab = replicate 1024 0, fz_ip = 2, fz_out = [31, x ! 0, x ! 1], fz_copy = 2\<rparr>;
        Some (length (fst (flz_fill (drop (fz_ip s) x) (fz_out s) (fz_copy s))))
      })"

text \<open>
  fastlz\_compress on a block below 64 KiB with an output block of \<open>cap\<close> bytes:
  \<^term>\<open>Some None\<close> is the return -1 when the hash table cannot be allocated.
\<close>

definition fastlz_compress :: "bool \<Rightarrow> bytes \<Rightarrow> nat \<Rightarrow> bytes option option" where
  "fastlz_compress htab_ok x cap =
     (if \<not> htab_ok then Some None
      else do {
        n \<leftarrow> fastlz1_extent x;
        c_assert (n \<le> cap);
        z \<leftarrow> fastlz1_compress x;
        Some (Some z)
      })"

section \<open>Decompressor\<close>

fun copy_back :: "nat \<Rightarrow> nat \<Rightarrow> bytes \<Rightarrow> bytes" where
  "copy_back d 0 out = out"
| "copy_back d (Suc k) out = copy_back d k (out @ [out ! (length out - d)])"

text \<open>
  The token of a match behind its control byte: the length, which level 2 extends by
  any number of bytes 255, and the distance, which level 2 may give in 16 more bits.
\<close>

function len_ext :: "bytes \<Rightarrow> nat \<Rightarrow> nat \<Rightarrow> (nat \<times> nat) option" where
  "len_ext buf ip len = do {
     code \<leftarrow> mem_get buf ip;
     if code = 255 then len_ext buf (ip + 1) (len + 255) else Some (len + unat code, ip + 1)
   }"
  by pat_completeness auto
termination by (relation "measure (\<lambda>(buf, ip, len). length buf - ip)") (auto simp: mem_get_def split: if_splits)

definition match_len :: "nat \<Rightarrow> bytes \<Rightarrow> nat \<Rightarrow> nat \<Rightarrow> (nat \<times> nat) option" where
  "match_len level buf ip ctrl =
     (if ctrl div 32 - 1 = 6
      then if level = 1 then map_option (\<lambda>l. (6 + unat l, ip + 1)) (mem_get buf ip) else len_ext buf ip 6
      else Some (ctrl div 32 - 1, ip))"

definition match_head :: "nat \<Rightarrow> bytes \<Rightarrow> nat \<Rightarrow> nat \<Rightarrow> (nat \<times> nat \<times> nat) option" where
  "match_head level buf ip ctrl = do {
     (len, ip1) \<leftarrow> match_len level buf ip ctrl;
     code \<leftarrow> mem_get buf ip1;
     let ofs = ctrl mod 32 * 256;
     if level = 2 \<and> code = 255 \<and> ofs = 31 * 256 then do {
       h \<leftarrow> mem_get buf (ip1 + 1);
       l \<leftarrow> mem_get buf (ip1 + 2);
       Some (len, unat h * 256 + unat l + 8191 + 1, ip1 + 3)
     }
     else Some (len, ofs + unat code + 1, ip1 + 1)
   }"

definition dec_copy :: "nat \<Rightarrow> nat \<Rightarrow> bytes \<Rightarrow> bytes" where
  "dec_copy dist n out =
     (if dist = 1 then out @ replicate n (last out) else copy_back dist n out)"

declare len_ext.simps [simp del]

lemma len_ext_ip: "len_ext buf ip len = Some (l, ip1) \<Longrightarrow> ip < ip1"
proof (induction buf ip len rule: len_ext.induct)
  case (1 buf ip len)
  from "1.prems" obtain code where code: "mem_get buf ip = Some code"
    "(if code = 255 then len_ext buf (ip + 1) (len + 255) else Some (len + unat code, ip + 1)) = Some (l, ip1)"
    by (subst (asm) len_ext.simps) (auto simp: bind_eq_Some_conv)
  then show ?case using "1.IH" [OF code(1)] by (auto split: if_splits)
qed

lemma match_head_ip: "match_head level buf ip ctrl = Some (len, dist, ip1) \<Longrightarrow> ip < ip1"
  by (auto simp: match_head_def match_len_def bind_eq_Some_conv Let_def dest: len_ext_ip split: if_splits)

text \<open>
  \<open>ip\<close> is the position behind the control byte \<open>ctrl\<close>, \<open>lim\<close> the length handed in,
  which the block \<open>buf\<close> may exceed.  Inside the option, \<^term>\<open>None\<close> is the error
  return 0 and \<open>Some out\<close> the bytes written.
\<close>

function dec_loop :: "nat \<Rightarrow> bytes \<Rightarrow> nat \<Rightarrow> nat \<Rightarrow> nat \<Rightarrow> nat \<Rightarrow> bytes \<Rightarrow> bytes option option" where
  "dec_loop level buf lim maxout ip ctrl out =
     (if ctrl \<ge> 32 then do {
        (len, dist, ip1) \<leftarrow> match_head level buf ip ctrl;
        if length out + len + 3 > maxout then Some None
        else if dist > length out then Some None
        else if ip1 < lim then do {
          c \<leftarrow> mem_get buf ip1;
          dec_loop level buf lim maxout (ip1 + 1) (unat c) (dec_copy dist (len + 3) out)
        }
        else Some (Some (dec_copy dist (len + 3) out))
      }
      else if length out + ctrl + 1 > maxout then Some None
      else if ip + ctrl + 1 > lim then Some None
      else do {
        lit \<leftarrow> mem_read buf ip (ctrl + 1);
        if ip + ctrl + 1 < lim then do {
          c \<leftarrow> mem_get buf (ip + ctrl + 1);
          dec_loop level buf lim maxout (ip + ctrl + 2) (unat c) (out @ lit)
        }
        else Some (Some (out @ lit))
      })"
  by pat_completeness auto
termination
  by (relation "measure (\<lambda>(level, buf, lim, maxout, ip, ctrl, out). lim - ip)") (auto dest: match_head_ip)

definition fastlz_level_decompress :: "nat \<Rightarrow> bytes \<Rightarrow> nat \<Rightarrow> nat \<Rightarrow> bytes option option" where
  "fastlz_level_decompress level buf lim maxout = do {
     c \<leftarrow> mem_get buf 0;
     dec_loop level buf lim maxout 1 (unat c mod 32) []
   }"

text \<open>The entry points: the length decides the level of the compressor, for which only
  the level of short blocks is modelled; the first byte decides that of the decompressor.\<close>

definition fastlz_decompress :: "bytes \<Rightarrow> nat \<Rightarrow> nat \<Rightarrow> bytes option option" where
  "fastlz_decompress buf lim maxout = do {
     c \<leftarrow> mem_get buf 0;
     let level = unat (drop_bit 5 c) + 1;
     if level = 1 then fastlz_level_decompress 1 buf lim maxout
     else if level = 2 then fastlz_level_decompress 2 buf lim maxout
     else Some None
   }"

declare run_ext.simps [simp del] cmp_while.simps [simp del] encode_match.simps [simp del]
  dec_loop.simps [simp del]

section \<open>The token language\<close>

text \<open>
  What a sequence of tokens means, without indices and limits: a count below 32
  introduces literals, anything else a copy from behind.
\<close>

function decode :: "bytes \<Rightarrow> bytes \<Rightarrow> bytes option" where
  "decode [] out = Some out"
| "decode (c # r) out =
     (if unat c < 32 then
        if unat c + 1 \<le> length r then decode (drop (unat c + 1) r) (out @ take (unat c + 1) r) else None
      else let ofs = unat c mod 32 * 256 in
        if unat c div 32 = 7 then
          (case r of l # o1 # r' \<Rightarrow>
             if ofs + unat o1 + 1 \<le> length out
             then decode r' (copy_back (ofs + unat o1 + 1) (9 + unat l) out) else None
           | _ \<Rightarrow> None)
        else
          (case r of o1 # r' \<Rightarrow>
             if ofs + unat o1 + 1 \<le> length out
             then decode r' (copy_back (ofs + unat o1 + 1) (unat c div 32 + 2) out) else None
           | _ \<Rightarrow> None))"
  by pat_completeness auto
termination by (relation "measure (\<lambda>(r, out). length r)") auto

lemma copy_back_length [simp]: "length (copy_back d k out) = length out + k"
  by (induction d k out rule: copy_back.induct) auto

lemma copy_back_run: "out \<noteq> [] \<Longrightarrow> copy_back 1 k out = out @ replicate k (last out)"
proof (induction k arbitrary: out)
  case (Suc k)
  have "out ! (length out - 1) = last out" using Suc.prems by (simp add: last_conv_nth)
  then show ?case using Suc.IH [of "out @ [last out]"] Suc.prems by (simp add: replicate_append_same)
qed simp

lemma decode_longer: "decode r out = Some out' \<Longrightarrow> length out \<le> length out'"
  by (induction r out rule: decode.induct)
    (fastforce simp: Let_def split: if_splits list.splits)+

lemma decode_append: "decode t out = Some out1 \<Longrightarrow> decode (t @ u) out = decode u out1"
  by (induction t out rule: decode.induct)
    (auto simp: Let_def split: if_splits list.splits)

text \<open>The decompressor loop follows the token language as long as the limit allows.\<close>

lemma mem_get_split: "mem_get (pre @ r) (length pre) = (case r of [] \<Rightarrow> None | c # _ \<Rightarrow> Some c)"
  by (cases r) (simp_all add: mem_get_def)

declare decode.simps(2) [simp del]

lemma dec_loop_next:
  assumes "inp = pre @ t" "decode t out = Some out'"
    and "\<And>c r. t = c # r \<Longrightarrow> dec_loop 1 (inp @ e) (length inp) maxout (length pre + 1) (unat c) out = Some (Some out')"
  shows "(if length pre < length inp then do {
       c \<leftarrow> mem_get (inp @ e) (length pre);
       dec_loop 1 (inp @ e) (length inp) maxout (length pre + 1) (unat c) out
     } else Some (Some out)) = Some (Some out')"
  using assms by (cases t) (auto simp: mem_get_split)

lemma dec_loop_decode:
  "decode (c # r) out = Some out' \<Longrightarrow> length out' \<le> maxout \<Longrightarrow> inp = pre @ c # r \<Longrightarrow>
     dec_loop 1 (inp @ e) (length inp) maxout (length pre + 1) (unat c) out = Some (Some out')"
proof (induction "length r" arbitrary: c r out pre rule: less_induct)
  case less
  show ?case
  proof (cases "unat c < 32")
    case True
    let ?k = "unat c + 1" let ?out = "out @ take ?k r" let ?pre = "pre @ c # take ?k r"
    have k: "?k \<le> length r" and dec: "decode (drop ?k r) ?out = Some out'"
      using less.prems(1) True by (auto simp: decode.simps(2) split: if_splits)
    have inp: "inp = ?pre @ drop ?k r" using less.prems(3) by simp
    have len: "length ?out \<le> maxout" using decode_longer [OF dec] less.prems(2) by simp
    have pre: "length ?pre = length pre + 1 + unat c + 1" using k by simp
    have nxt: "(if length ?pre < length inp then do {
        c \<leftarrow> mem_get (inp @ e) (length ?pre);
        dec_loop 1 (inp @ e) (length inp) maxout (length ?pre + 1) (unat c) ?out
      } else Some (Some ?out)) = Some (Some out')"
    proof (rule dec_loop_next [OF inp dec])
      fix c' r' assume r': "drop ?k r = c' # r'"
      have "length r' < length r" using arg_cong [OF r', of length] by simp
      then show "dec_loop 1 (inp @ e) (length inp) maxout (length ?pre + 1) (unat c') ?out = Some (Some out')"
        using less.hyps dec [unfolded r'] less.prems(2) inp [unfolded r'] by blast
    qed
    have "mem_read (inp @ e) (length pre + 1) ?k = Some (take ?k r)"
      using k less.prems(3) by (simp add: mem_read_def)
    moreover have "length out + unat c + 1 \<le> maxout" "length pre + 1 + unat c + 1 \<le> length inp"
      using len k less.prems(3) by simp_all
    ultimately show ?thesis
      using True nxt [unfolded pre] by (subst dec_loop.simps) (simp split: if_splits)
  next
    case False
    let ?ofs = "unat c mod 32 * 256"
    have c7: "unat c div 32 - 1 = 6 \<longleftrightarrow> unat c div 32 = 7" using False by auto
    obtain l o1 r' pre' where tok: "inp = (pre' @ [o1]) @ r'" "length r' < length r"
      "?ofs + unat o1 + 1 \<le> length out"
      "decode r' (copy_back (?ofs + unat o1 + 1) (l + 3) out) = Some out'"
      "match_len 1 (inp @ e) (length pre + 1) (unat c) = Some (l, length pre')"
    proof (cases "unat c div 32 = 7")
      case True
      then obtain l o1 r' where r: "r = l # o1 # r'" "?ofs + unat o1 + 1 \<le> length out"
        "decode r' (copy_back (?ofs + unat o1 + 1) (9 + unat l) out) = Some out'"
        using less.prems(1) False by (auto simp: decode.simps(2) Let_def split: list.splits if_splits)
      then show thesis
        using that [of "pre @ [c, l]" o1 r' "6 + unat l"] True less.prems(3)
        by (simp add: c7 match_len_def mem_get_def nth_append ac_simps)
    next
      case no7: False
      then obtain o1 r' where r: "r = o1 # r'" "?ofs + unat o1 + 1 \<le> length out"
        "decode r' (copy_back (?ofs + unat o1 + 1) (unat c div 32 + 2) out) = Some out'"
        using less.prems(1) False by (auto simp: decode.simps(2) Let_def split: list.splits if_splits)
      moreover have "unat c div 32 + 2 = unat c div 32 - 1 + 3" using False by simp
      ultimately show thesis
        using that [of "pre @ [c]" o1 r' "unat c div 32 - 1"] no7 less.prems(3) by (simp add: c7 match_len_def)
    qed
    let ?d = "?ofs + unat o1 + 1" let ?out = "copy_back ?d (l + 3) out"
    have len: "length out + l + 3 \<le> maxout" using decode_longer [OF tok(4)] less.prems(2) by simp
    have o1: "mem_get (inp @ e) (length pre') = Some o1" using tok(1) by (simp add: mem_get_def nth_append)
    then have head: "match_head 1 (inp @ e) (length pre + 1) (unat c) = Some (l, ?d, length (pre' @ [o1]))"
      using tok(5) by (simp add: match_head_def)
    have out: "dec_copy ?d (l + 3) out = ?out"
      using tok(3) copy_back_run [of out "l + 3"] by (cases "out = []") (auto simp: dec_copy_def)
    have "(if length (pre' @ [o1]) < length inp then do {
        c \<leftarrow> mem_get (inp @ e) (length (pre' @ [o1]));
        dec_loop 1 (inp @ e) (length inp) maxout (length (pre' @ [o1]) + 1) (unat c) ?out
      } else Some (Some ?out)) = Some (Some out')"
    proof (rule dec_loop_next [OF tok(1,4)])
      fix c' r'' assume r1: "r' = c' # r''"
      show "dec_loop 1 (inp @ e) (length inp) maxout (length (pre' @ [o1]) + 1) (unat c') ?out = Some (Some out')"
        by (rule less.hyps) (use r1 tok less.prems(2) in simp_all)
    qed
    then show ?thesis
      using False tok(3) len head out by (subst dec_loop.simps) (simp split: if_splits)
  qed
qed

lemma fastlz_decompress_decode:
  assumes "decode (c # r) [] = Some out" "unat c < 32" "length out \<le> maxout" "n = length (c # r)"
  shows "fastlz_decompress ((c # r) @ e) n maxout = Some (Some out)"
proof -
  have "unat (drop_bit 5 c) = 0" using assms(2) by (simp add: drop_bit_eq_div unat_div)
  then show ?thesis
    using dec_loop_decode [OF assms(1,3), of "c # r" "[]" e] assms(2,4)
    by (simp add: fastlz_decompress_def fastlz_level_decompress_def mem_get_def)
qed

text \<open>The decompressor never writes beyond the limit, whatever it is given.\<close>

lemma dec_copy_length [simp]: "length (dec_copy d n out) = length out + n"
  by (simp add: dec_copy_def)

lemma dec_loop_bound:
  "dec_loop level buf lim maxout ip ctrl out = Some (Some out') \<Longrightarrow> length out' \<le> maxout"
proof (induction level buf lim maxout ip ctrl out rule: dec_loop.induct)
  case (1 level buf lim maxout ip ctrl out)
  show ?case
  proof (cases "32 \<le> ctrl")
    case True
    then obtain len dist ip1 where h: "match_head level buf ip ctrl = Some (len, dist, ip1)"
      using "1.prems" by (subst (asm) dec_loop.simps) (auto simp: bind_eq_Some_conv)
    have ok: "\<not> length out + len + 3 > maxout" "\<not> dist > length out"
      using "1.prems" True h by (subst (asm) dec_loop.simps; auto split: if_splits)+
    show ?thesis
    proof (cases "ip1 < lim")
      case lt: True
      then obtain c where c: "mem_get buf ip1 = Some c"
        "dec_loop level buf lim maxout (ip1 + 1) (unat c) (dec_copy dist (len + 3) out) = Some (Some out')"
        using "1.prems" True h ok by (subst (asm) dec_loop.simps) (auto simp: bind_eq_Some_conv)
      show ?thesis using "1.IH"(1) [OF True h refl refl ok lt c(1) c(2)] .
    next
      case False
      then show ?thesis using "1.prems" True h ok by (subst (asm) dec_loop.simps) auto
    qed
  next
    case False
    have ok: "\<not> length out + ctrl + 1 > maxout" "\<not> ip + ctrl + 1 > lim"
      using "1.prems" False by (subst (asm) dec_loop.simps; auto split: if_splits)+
    then obtain lit where l: "mem_read buf ip (ctrl + 1) = Some lit"
      using "1.prems" False by (subst (asm) dec_loop.simps) (auto simp: bind_eq_Some_conv)
    show ?thesis
    proof (cases "ip + ctrl + 1 < lim")
      case lt: True
      then obtain c where c: "mem_get buf (ip + ctrl + 1) = Some c"
        "dec_loop level buf lim maxout (ip + ctrl + 2) (unat c) (out @ lit) = Some (Some out')"
        using "1.prems" False l ok by (subst (asm) dec_loop.simps) (auto simp: bind_eq_Some_conv)
      show ?thesis using "1.IH"(2) [OF False ok l lt c(1) c(2)] .
    next
      case nlt: False
      then show ?thesis using "1.prems" False l ok mem_read_length [OF l]
        by (subst (asm) dec_loop.simps) auto
    qed
  qed
qed

section \<open>What the compressor finds and writes\<close>

text \<open>\<open>periodic x d i j\<close>: every byte of \<open>x\<close> from \<open>i\<close> up to \<open>j\<close> repeats the one \<open>d\<close> before.\<close>

definition periodic :: "bytes \<Rightarrow> nat \<Rightarrow> nat \<Rightarrow> nat \<Rightarrow> bool" where
  "periodic x d i j \<longleftrightarrow> (\<forall>k. i \<le> k \<and> k < j \<longrightarrow> x ! k = x ! (k - d))"

lemma periodic_extend: "periodic x d i j \<Longrightarrow> x ! j = x ! (j - d) \<Longrightarrow> periodic x d i (Suc j)"
  by (auto simp: periodic_def less_Suc_eq)

lemma run_ext_spec:
  assumes "ref < ip" "ip \<le> bound" "bound \<le> length x" "\<And>k. i \<le> k \<Longrightarrow> k < ref \<Longrightarrow> x ! k = b"
  shows "\<exists>e. run_ext x b bound ref ip = Some e \<and> ip \<le> e \<and> e \<le> bound \<and>
    (\<forall>k. i \<le> k \<and> k < e - (ip - ref) \<longrightarrow> x ! k = b) \<and> (ip < bound \<and> x ! ref = b \<longrightarrow> ip < e)"
  using assms
proof (induction "bound - ip" arbitrary: ref ip)
  case 0
  then show ?case by (subst run_ext.simps) auto
next
  case (Suc n)
  then have "ip < bound" "ref < length x" by auto
  show ?case
  proof (cases "x ! ref = b")
    case False
    then show ?thesis using \<open>ip < bound\<close> \<open>ref < length x\<close> Suc.prems
      by (subst run_ext.simps) (auto simp: mem_get_def)
  next
    case True
    have "\<exists>e. run_ext x b bound (ref + 1) (ip + 1) = Some e \<and> ip + 1 \<le> e \<and> e \<le> bound \<and>
        (\<forall>k. i \<le> k \<and> k < e - (ip + 1 - (ref + 1)) \<longrightarrow> x ! k = b) \<and>
        (ip + 1 < bound \<and> x ! (ref + 1) = b \<longrightarrow> ip + 1 < e)"
      using Suc.hyps(2) Suc.prems True by (intro Suc.hyps(1)) (auto simp: less_Suc_eq)
    then show ?thesis using \<open>ip < bound\<close> \<open>ref < length x\<close> True
      by (subst run_ext.simps) (auto simp: mem_get_def)
  qed
qed

lemma cmp_while_spec:
  assumes "ref < ip" "ip \<le> bound" "bound \<le> length x" "periodic x (ip - ref) i ip"
  shows "\<exists>e. cmp_while x bound ref ip = Some e \<and> ip \<le> e \<and> e \<le> bound \<and>
    periodic x (ip - ref) i (e - 1)"
  using assms
proof (induction "bound - ip" arbitrary: ref ip)
  case 0
  then show ?case by (subst cmp_while.simps) (auto simp: periodic_def)
next
  case (Suc n)
  then have lt: "ip < bound" "ip < length x" "ref < length x" by auto
  show ?case
  proof (cases "x ! ref = x ! ip")
    case False
    then show ?thesis using lt Suc.prems by (subst cmp_while.simps) (auto simp: mem_get_def)
  next
    case True
    have "periodic x (ip + 1 - (ref + 1)) i (ip + 1)"
      using periodic_extend [OF Suc.prems(4)] True Suc.prems(1) by simp
    then have "\<exists>e. cmp_while x bound (ref + 1) (ip + 1) = Some e \<and> ip + 1 \<le> e \<and> e \<le> bound \<and>
        periodic x (ip + 1 - (ref + 1)) i (e - 1)"
      using Suc.hyps(2) Suc.prems lt by (intro Suc.hyps(1)) auto
    then show ?thesis using lt True by (subst cmp_while.simps) (auto simp: mem_get_def)
  qed
qed

lemma cmp_ext_spec:
  assumes "ref < ip" "ip + n \<le> bound" "bound \<le> length x" "periodic x (ip - ref) i ip"
  shows "\<exists>e. cmp_ext n x bound ref ip = Some e \<and> ip + min n 1 \<le> e \<and> e \<le> bound \<and>
    periodic x (ip - ref) i (e - 1)"
  using assms
proof (induction n arbitrary: ref ip)
  case 0
  then show ?case using cmp_while_spec by simp
next
  case (Suc n)
  then have lt: "ip < length x" "ref < length x" by auto
  show ?case
  proof (cases "x ! ref = x ! ip")
    case False
    then show ?thesis using lt Suc.prems by (auto simp: mem_get_def)
  next
    case True
    have "periodic x (ip + 1 - (ref + 1)) i (ip + 1)"
      using periodic_extend [OF Suc.prems(4)] True Suc.prems(1) by simp
    then have "\<exists>e. cmp_ext n x bound (ref + 1) (ip + 1) = Some e \<and> ip + 1 + min n 1 \<le> e \<and> e \<le> bound \<and>
        periodic x (ip + 1 - (ref + 1)) i (e - 1)"
      using Suc.prems by (intro Suc.IH) auto
    then show ?thesis using lt True by (auto simp: mem_get_def)
  qed
qed

lemma match3_spec:
  assumes "ref < ip" "ip + 2 < length x"
  shows "\<exists>m. match3 x ref ip = Some m \<and> (m \<longrightarrow> periodic x (ip - ref) ip (ip + 3))"
proof -
  have *: "periodic x (ip - ref) ip (ip + 3)"
    if "x ! ref = x ! ip" "x ! (ref + 1) = x ! (ip + 1)" "x ! (ref + 2) = x ! (ip + 2)"
  proof -
    have "periodic x (ip - ref) ip ip" by (simp add: periodic_def)
    from periodic_extend [OF periodic_extend [OF periodic_extend [OF this]]]
    show ?thesis using that assms(1) by (simp add: numeral_3_eq_3 Suc_diff_le)
  qed
  show ?thesis using assms * by (auto simp: match3_def mem_get_def Suc_lessD)
qed

text \<open>Copying from behind rebuilds a periodic stretch.\<close>

lemma copy_back_periodic:
  assumes "periodic x d a (a + k)" "0 < d" "d \<le> a" "a + k \<le> length x"
  shows "copy_back d k (take a x) = take (a + k) x"
  using assms
proof (induction k arbitrary: a)
  case (Suc k)
  have "x ! a = x ! (a - d)" using Suc.prems(1) by (auto simp: periodic_def)
  then have "take a x @ [take a x ! (length (take a x) - d)] = take (Suc a) x"
    using Suc.prems by (simp add: take_Suc_conv_app_nth)
  moreover have "copy_back d k (take (Suc a) x) = take (Suc a + k) x"
    using Suc.prems by (intro Suc.IH) (auto simp: periodic_def)
  ultimately show ?case by simp
qed simp

lemma copy_back_add: "copy_back d (k + m) out = copy_back d m (copy_back d k out)"
  by (induction d k out rule: copy_back.induct) auto

declare copy_back.simps [simp del]

lemma decode_long:
  assumes "unat c div 32 = 7" "unat c mod 32 * 256 + unat o1 = d" "d + 1 \<le> length out"
  shows "decode (c # l # o1 # r) out = decode r (copy_back (d + 1) (9 + unat l) out)"
proof -
  have "\<not> unat c < 32" using assms(1) by auto
  then show ?thesis using assms by (auto simp: decode.simps(2) Let_def)
qed

lemma decode_encode_match:
  assumes "1 \<le> len" "d < 8192" "d + 1 \<le> length out"
  shows "decode (encode_match len d) out = Some (copy_back (d + 1) (len + 2) out)"
  using assms
proof (induction len d arbitrary: out rule: encode_match.induct)
  case (1 len d)
  have d: "d div 256 < 32" "d div 256 * 256 + d mod 256 = d" using "1.prems"(2) by auto
  have c7: "unat (of_nat (7 * 32 + d div 256) :: u8) = d div 256 + 32 * 7"
    using d(1) unat_of_nat8 [of "7 * 32 + d div 256"] by simp
  have o1: "unat (of_nat (d mod 256) :: u8) = d mod 256" by simp
  have long: "decode (of_nat (7 * 32 + d div 256) # l # of_nat (d mod 256) # r) out =
      decode r (copy_back (d + 1) (9 + unat l) out)" for l r
    by (rule decode_long) (simp_all only: c7 o1 horner [OF d(1)] d(2) "1.prems"(3))
  consider "262 < len" | "len < 7" | "7 \<le> len" "len \<le> 262" by linarith
  then show ?case
  proof cases
    case 1
    then have "decode (encode_match (len - 262) d) (copy_back (d + 1) 262 out) =
        Some (copy_back (d + 1) (len - 262 + 2) (copy_back (d + 1) 262 out))"
      using "1.prems" by (intro "1.IH") auto
    moreover have "copy_back (d + 1) (len - 262 + 2) (copy_back (d + 1) 262 out) =
        copy_back (d + 1) (len + 2) out"
      using 1 by (simp flip: copy_back_add)
    ultimately show ?thesis using 1 long [of 253] by (subst encode_match.simps) simp
  next
    case 2
    have c: "unat (of_nat (len * 32 + d div 256) :: u8) = len * 32 + d div 256"
      using 2 d(1) by (intro unat_of_nat8) simp
    have "(len * 32 + d div 256) div 32 = len" "(len * 32 + d div 256) mod 32 = d div 256"
      using d(1) by simp_all
    then show ?thesis using 2 c o1 d(2) "1.prems"
      by (subst encode_match.simps) (simp add: decode.simps(2) Let_def)
  next
    case 3
    have l: "unat (of_nat (len - 7) :: u8) = len - 7" by (rule unat_of_nat8) (use 3 in simp)
    show ?thesis using 3 long [of "of_nat (len - 7)" "[]", unfolded l] "1.prems"
      by (subst encode_match.simps) (simp del: of_nat_diff)
  qed
qed

section \<open>The invariant of the compressor\<close>

text \<open>
  The output is a sequence of complete tokens, which decodes to the input up to the
  pending literals, a provisional count and those literals; the tokens are no longer
  than the decoded prefix and one count for every 32 bytes of it.
\<close>

definition flz_inv :: "bytes \<Rightarrow> nat \<Rightarrow> bytes \<Rightarrow> nat \<Rightarrow> bool" where
  "flz_inv x ip out copy \<longleftrightarrow> 0 < ip \<and> ip \<le> length x \<and> copy \<le> ip \<and> copy < 32 \<and>
     (\<exists>toks. out = toks @ 31 # take copy (drop (ip - copy) x) \<and>
        decode toks [] = Some (take (ip - copy) x) \<and> (toks \<noteq> [] \<longrightarrow> unat (hd toks) < 32) \<and>
        length toks \<le> (ip - copy) + (ip - copy) div 32)"

lemma decode_literals:
  assumes "length lits = Suc k" "k < 32"
  shows "decode (of_nat k # lits) out = Some (out @ lits)"
  using assms by (simp add: decode.simps(2))

lemma take_pending:
  "copy \<le> ip \<Longrightarrow> take (ip - copy) x @ take copy (drop (ip - copy) x) = take ip x"
  by (metis le_add_diff_inverse2 take_add)

lemma close_copy_inv:
  assumes "flz_inv x ip out copy"
  shows "decode (close_copy out copy) [] = Some (take ip x)" "close_copy out copy \<noteq> []"
    "unat (hd (close_copy out copy)) < 32" "length (close_copy out copy) \<le> ip + ip div 32 + 1"
    "copy = 0 \<Longrightarrow> length (close_copy out copy) \<le> ip + ip div 32"
proof -
  let ?lits = "take copy (drop (ip - copy) x)"
  obtain toks where t: "out = toks @ 31 # ?lits" "decode toks [] = Some (take (ip - copy) x)"
    "toks \<noteq> [] \<longrightarrow> unat (hd toks) < 32" "length toks \<le> (ip - copy) + (ip - copy) div 32"
    and b: "0 < ip" "ip \<le> length x" "copy \<le> ip" "copy < 32"
    using assms by (auto simp: flz_inv_def)
  have "decode (close_copy out copy) [] = Some (take ip x) \<and> close_copy out copy \<noteq> [] \<and>
    unat (hd (close_copy out copy)) < 32 \<and> length (close_copy out copy) \<le> ip + ip div 32 + 1 \<and>
    (copy = 0 \<longrightarrow> length (close_copy out copy) \<le> ip + ip div 32)"
  proof (cases "copy = 0")
    case True
    then have "toks \<noteq> []" using t(2) b by (cases "toks = []") auto
    then show ?thesis using True t by (simp add: close_copy_def butlast_append)
  next
    case False
    then obtain k where k: "copy = Suc k" by (cases copy) auto
    have l: "length ?lits = copy" using b by simp
    have cl: "close_copy out copy = toks @ of_nat k # ?lits"
      using k t(1) l by (simp add: close_copy_def list_update_append)
    have "decode (of_nat k # ?lits) (take (ip - copy) x) = Some (take ip x)"
      using decode_literals [of ?lits k] k b l take_pending [OF b(3)] by simp
    moreover have "(ip - copy) div 32 \<le> ip div 32" by (simp add: div_le_mono)
    moreover have "unat (of_nat k :: u8) < 32" using k b by simp
    moreover have "length (close_copy out copy) = length toks + 1 + copy" using cl l by simp
    ultimately show ?thesis
      using t(2-4) b cl False decode_append [OF t(2), of "of_nat k # ?lits"]
      by (cases toks) auto
  qed
  then show "decode (close_copy out copy) [] = Some (take ip x)" "close_copy out copy \<noteq> []"
    "unat (hd (close_copy out copy)) < 32" "length (close_copy out copy) \<le> ip + ip div 32 + 1"
    "copy = 0 \<Longrightarrow> length (close_copy out copy) \<le> ip + ip div 32" by blast+
qed

lemma put_literal_inv:
  assumes inv: "flz_inv x ip out copy" and ip: "ip < length x"
    and put: "put_literal (x ! ip) out copy = (out', copy')"
  shows "flz_inv x (ip + 1) out' copy'"
proof -
  let ?lits = "take copy (drop (ip - copy) x)"
  obtain toks where t: "out = toks @ 31 # ?lits" "decode toks [] = Some (take (ip - copy) x)"
    "toks \<noteq> [] \<longrightarrow> unat (hd toks) < 32" "length toks \<le> (ip - copy) + (ip - copy) div 32"
    and b: "0 < ip" "copy \<le> ip" "copy < 32"
    using inv by (auto simp: flz_inv_def)
  have lits: "?lits @ [x ! ip] = take (Suc copy) (drop (ip - copy) x)"
    using b ip by (simp add: take_Suc_conv_app_nth)
  show ?thesis
  proof (cases "copy + 1 = 32")
    case False
    then show ?thesis using put t b ip lits
      by (auto simp: put_literal_def flz_inv_def Suc_diff_le intro!: exI [of _ toks])
  next
    case True
    let ?t = "toks @ 31 # (?lits @ [x ! ip])"
    have "decode (of_nat 31 # (?lits @ [x ! ip])) (take (ip - copy) x) =
        Some (take (ip - copy) x @ (?lits @ [x ! ip]))"
      using True b ip by (intro decode_literals) simp_all
    then have "decode ?t [] = Some (take (ip + 1) x)"
      using decode_append [OF t(2), of "31 # (?lits @ [x ! ip])"] take_pending [OF b(2), of x] ip
      by (simp add: take_Suc_conv_app_nth)
    moreover have "length ?t \<le> (ip + 1) + (ip + 1) div 32"
    proof -
      have "(ip + 1) div 32 = (ip - copy) div 32 + 1" using True b by (simp add: div_if)
      then show ?thesis using t(4) True b ip by simp
    qed
    moreover have "?t \<noteq> [] \<longrightarrow> unat (hd ?t) < 32" using t(3) by (cases toks) auto
    moreover have "out' = ?t @ [31]" "copy' = 0" using put True t(1) by (auto simp: put_literal_def)
    ultimately show ?thesis using b ip by (auto simp: flz_inv_def)
  qed
qed

lemma encode_match_length: "1 \<le> len \<Longrightarrow> length (encode_match len d) \<le> len + 1"
proof (induction len d rule: encode_match.induct)
  case (1 len d)
  show ?case
  proof (cases "262 < len")
    case True
    then have "length (encode_match (len - 262) d) \<le> len - 262 + 1" by (intro "1.IH") auto
    then show ?thesis using True by (subst encode_match.simps) simp
  qed (use "1.prems" in \<open>subst encode_match.simps, simp\<close>)
qed

lemma match_inv:
  assumes inv: "flz_inv x ip out copy" and per: "periodic x (d + 1) ip (ip + len + 2)"
    and b: "1 \<le> len" "d < 8192" "d + 1 \<le> ip" "ip + len + 2 \<le> length x"
  shows "flz_inv x (ip + len + 2) (close_copy out copy @ encode_match len d @ [31]) 0"
proof -
  note c = close_copy_inv [OF inv]
  let ?t = "close_copy out copy @ encode_match len d"
  have "decode ?t [] = decode (encode_match len d) (take ip x)" by (rule decode_append [OF c(1)])
  also have "\<dots> = Some (copy_back (d + 1) (len + 2) (take ip x))"
    using b by (intro decode_encode_match) simp_all
  also have "\<dots> = Some (take (ip + len + 2) x)"
    using copy_back_periodic [of x "d + 1" ip "len + 2"] per b by (simp add: add.assoc)
  finally have "decode ?t [] = Some (take (ip + len + 2) x)" .
  moreover have "length ?t \<le> (ip + len + 2) + (ip + len + 2) div 32"
  proof -
    have "ip div 32 \<le> (ip + len + 2) div 32" by (simp add: div_le_mono)
    then show ?thesis using encode_match_length [OF b(1), of d] c(4) by simp
  qed
  moreover have "unat (hd ?t) < 32" using c(2,3) by simp
  ultimately show ?thesis using b inv by (auto simp: flz_inv_def)
qed

lemma flz_hash_spec:
  assumes "p + 2 < length x"
  shows "\<exists>h. flz_hash x p = Some h \<and> h < 1024"
proof -
  have "unat (w AND 1023) < 1024" for w :: u32
  proof -
    have "w AND 1023 = take_bit 10 w" by (simp add: take_bit_eq_mask mask_eq_exp_minus_1)
    moreover have "unat (take_bit 10 w) < 1024"
      using take_bit_nat_less_exp [of 10 "unat w"] unsigned_take_bit_eq [of 10 w, where 'a = nat] by simp
    ultimately show ?thesis by simp
  qed
  then show ?thesis using assms by (auto simp: flz_hash_def mem_get_def Let_def)
qed

definition flz_ok :: "bytes \<Rightarrow> flz_state \<Rightarrow> bool" where
  "flz_ok x s \<longleftrightarrow> length (fz_htab s) = 1024 \<and> flz_inv x (fz_ip s) (fz_out s) (fz_copy s)"

lemma flz_match_spec:
  assumes ok: "flz_ok x s" and ref: "ref < fz_ip s" "fz_ip s - ref < 8192"
    and lim: "fz_ip s + 12 < length x" and per: "periodic x (fz_ip s - ref) (fz_ip s) (fz_ip s + 3)"
  shows "\<exists>s'. flz_match x (fz_ip s) ref s = Some s' \<and> flz_ok x s' \<and> fz_ip s < fz_ip s'"
proof -
  let ?a = "fz_ip s" let ?d = "?a - ref" let ?bound = "length x - 2"
  have "\<exists>e. match_end x (?d - 1) (x ! (?a + 2)) (ref + 3) (?a + 3) = Some e \<and> ?a + 4 \<le> e \<and> e \<le> ?bound \<and>
      periodic x ?d ?a (e - 1)"
  proof (cases "?d = 1")
    case True
    then have a: "?a = ref + 1" by simp
    have step: "x ! Suc k = x ! k" if "ref \<le> k" "k < ref + 3" for k
      using per [unfolded periodic_def, rule_format, of "Suc k"] that True a by simp
    let ?b = "x ! (ref + 3)"
    have b: "x ! (ref + 2) = ?b" "x ! (ref + 1) = ?b" "x ! ref = ?b"
      using step [of "ref + 2"] step [of "ref + 1"] step [of ref] by (simp_all add: numeral_3_eq_3)
    have eq: "x ! k = ?b" if "ref \<le> k" "k < ref + 3" for k
    proof -
      have "k = ref \<or> k = ref + 1 \<or> k = ref + 2" using that by arith
      then show ?thesis using b by auto
    qed
    have "?a + 3 < ?bound" using lim by arith
    then have "\<exists>e. run_ext x ?b ?bound (ref + 3) (?a + 3) = Some e \<and> ?a + 3 \<le> e \<and> e \<le> ?bound \<and>
        (\<forall>k. ref \<le> k \<and> k < e - 1 \<longrightarrow> x ! k = ?b) \<and> ?a + 3 < e"
      using run_ext_spec [of "ref + 3" "?a + 3" ?bound x ref ?b] eq lim a by auto
    then obtain e where run: "run_ext x ?b ?bound (ref + 3) (?a + 3) = Some e" "e \<le> ?bound" "?a + 3 < e"
      and all: "\<And>k. ref \<le> k \<Longrightarrow> k < e - 1 \<Longrightarrow> x ! k = ?b" by blast
    have "x ! k = x ! (k - 1)" if "?a \<le> k" "k < e - 1" for k
      using all [of k] all [of "k - 1"] that a by (metis add_leE le_add_diff_inverse2 le_diff_conv2
          less_imp_diff_less order_refl add_leD2)
    then have "periodic x 1 ?a (e - 1)" by (auto simp: periodic_def)
    moreover have "x ! (?a + 2) = ?b" using a by (simp add: numeral_3_eq_3 numeral_2_eq_2)
    ultimately show ?thesis using run True by (intro exI [of _ e]) (simp add: match_end_def)
  next
    case False
    have "\<exists>e. cmp_ext 8 x ?bound (ref + 3) (?a + 3) = Some e \<and> ?a + 3 + min 8 1 \<le> e \<and> e \<le> ?bound \<and>
        periodic x (?a + 3 - (ref + 3)) ?a (e - 1)"
      by (rule cmp_ext_spec) (use ref lim per in simp_all)
    moreover have "?d - 1 \<noteq> 0" using False ref by simp
    ultimately show ?thesis by (simp add: match_end_def add.commute)
  qed
  then obtain e where e: "match_end x (?d - 1) (x ! (?a + 2)) (ref + 3) (?a + 3) = Some e" "?a + 4 \<le> e" "e \<le> ?bound"
      "periodic x ?d ?a (e - 1)" by blast
  have lt: "e - 3 + 2 < length x" "e - 3 + 1 + 2 < length x" using e(2,3) lim by arith+
  obtain h1 where h1: "flz_hash x (e - 3) = Some h1" using flz_hash_spec [OF lt(1)] by blast
  obtain h2 where h2: "flz_hash x (e - 3 + 1) = Some h2" using flz_hash_spec [OF lt(2)] by blast
  let ?len = "e - 3 - ?a"
  have "?d - 1 + 1 = ?d" "?a + ?len + 2 = e - 1" using e(2) ref(1) by arith+
  then have per': "periodic x (?d - 1 + 1) ?a (?a + ?len + 2)" using e(4) by (simp only:)
  have "flz_inv x (?a + ?len + 2) (close_copy (fz_out s) (fz_copy s) @ encode_match ?len (?d - 1) @ [31]) 0"
    by (rule match_inv [OF _ per']) (use ok e(2,3) ref lim in \<open>auto simp: flz_ok_def\<close>)
  moreover have "?a + ?len + 2 = e - 3 + 2" using e by simp
  moreover have "flz_match x ?a ref s = Some \<lparr>fz_htab = (fz_htab s)[h1 := e - 3, h2 := e - 3 + 1],
      fz_ip = e - 3 + 2, fz_out = close_copy (fz_out s) (fz_copy s) @ encode_match ?len (?d - 1) @ [31],
      fz_copy = 0\<rparr>"
    using e(1) h1 h2 lim by (simp add: flz_match_def mem_get_def Let_def)
  ultimately show ?thesis using ok e(2) by (simp add: flz_ok_def)
qed

lemma flz_step_spec:
  assumes "flz_ok x s" "fz_ip s + 12 < length x"
  shows "\<exists>s'. flz_step x s = Some s' \<and> flz_ok x s' \<and> fz_ip s < fz_ip s'"
proof -
  let ?a = "fz_ip s"
  obtain h where h: "flz_hash x ?a = Some h" "h < 1024" using flz_hash_spec [of ?a x] assms(2) by auto
  have len: "length (fz_htab s) = 1024" and inv: "flz_inv x ?a (fz_out s) (fz_copy s)"
    using assms(1) by (simp_all add: flz_ok_def)
  let ?ref = "fz_htab s ! h"
  let ?s = "s\<lparr>fz_htab := (fz_htab s)[h := ?a]\<rparr>"
  have ok: "flz_ok x ?s" using assms(1) by (simp add: flz_ok_def)
  obtain m where m: "(if ?a - ?ref = 0 \<or> ?a - ?ref \<ge> 8192 then Some False else match3 x ?ref ?a) = Some m"
    "m \<longrightarrow> ?ref < ?a \<and> ?a - ?ref < 8192 \<and> periodic x (?a - ?ref) ?a (?a + 3)"
  proof (cases "?ref < ?a \<and> ?a - ?ref < 8192")
    case True
    then show ?thesis using that match3_spec [of ?ref ?a x] assms(2) by auto
  next
    case False
    then show ?thesis using that [of False] by auto
  qed
  show ?thesis
  proof (cases m)
    case True
    then show ?thesis
      using flz_match_spec [OF ok, of ?ref] h len m assms(2)
      by (simp add: flz_step_def mem_get_def Let_def)
  next
    case False
    obtain out copy where lit: "put_literal (x ! ?a) (fz_out s) (fz_copy s) = (out, copy)" by force
    have "flz_inv x (?a + 1) out copy" using put_literal_inv [OF inv _ lit] assms(2) by simp
    then show ?thesis
      using h len m(1) False lit assms(2) by (simp add: flz_step_def mem_get_def flz_ok_def Let_def)
  qed
qed

lemma flz_loop_spec:
  assumes "flz_ok x s" "length x - fz_ip s < k"
  shows "\<exists>s'. flz_loop k x s = Some s' \<and> flz_ok x s'"
  using assms
proof (induction k arbitrary: s)
  case (Suc k)
  show ?case
  proof (cases "fz_ip s + 12 < length x")
    case True
    then obtain s' where "flz_step x s = Some s'" "flz_ok x s'" "fz_ip s < fz_ip s'"
      using flz_step_spec Suc.prems(1) by blast
    then show ?thesis using Suc.IH [of s'] Suc.prems True by simp
  next
    case False
    then show ?thesis using Suc.prems(1) by simp
  qed
qed simp

lemma flz_rest_spec:
  assumes "flz_inv x ip out copy"
  shows "\<exists>c r. flz_rest (drop ip x) out copy = c # r \<and> decode (c # r) [] = Some x \<and> unat c < 32 \<and>
    length (c # r) \<le> length x + length x div 32 + 1"
  using assms
proof (induction "length x - ip" arbitrary: ip out copy)
  case 0
  then have "drop ip x = []" "take ip x = x" "ip = length x" by (auto simp: flz_inv_def)
  then show ?case using close_copy_inv [OF 0(2)] by (cases "close_copy out copy") auto
next
  case (Suc n)
  then have ip: "ip < length x" by simp
  obtain out' copy' where lit: "put_literal (x ! ip) out copy = (out', copy')" by force
  have "flz_inv x (ip + 1) out' copy'" using put_literal_inv [OF Suc.prems ip lit] .
  then show ?case
    using Suc.hyps(1) [of "ip + 1"] Suc.hyps(2) lit ip by (simp flip: Cons_nth_drop_Suc)
qed

lemma fastlz1_compress_spec:
  assumes "x \<noteq> []" "length x < 65536"
  shows "\<exists>c r. fastlz1_compress x = Some (c # r) \<and> decode (c # r) [] = Some x \<and> unat c < 32 \<and>
    length (c # r) \<le> length x + length x div 32 + 1"
proof (cases "length x < 4")
  case True
  then obtain k where k: "length x = Suc k" "k < 3" using assms(1) by (cases "length x") auto
  then show ?thesis using decode_literals [of x k "[]"] by (simp add: fastlz1_compress_def)
next
  case False
  let ?s = "\<lparr>fz_htab = replicate 1024 0, fz_ip = 2, fz_out = [31, x ! 0, x ! 1], fz_copy = 2\<rparr>"
  have "take 2 x = [x ! 0, x ! 1]" using False by (cases x; cases "tl x") auto
  then have ok: "flz_ok x ?s" using False by (auto simp: flz_ok_def flz_inv_def)
  have "length x - fz_ip ?s < length x + 1" by simp
  then obtain s where s: "flz_loop (length x + 1) x ?s = Some s" "flz_ok x s"
    using flz_loop_spec [OF ok] by blast
  then have "fastlz1_compress x = Some (flz_rest (drop (fz_ip s) x) (fz_out s) (fz_copy s))"
    using False assms(1) by (simp add: fastlz1_compress_def del: flz_loop.simps)
  then show ?thesis using flz_rest_spec s(2) by (auto simp: flz_ok_def)
qed

lemma flz_rest_fill:
  "flz_fill bs out copy = (out', copy') \<Longrightarrow> flz_rest bs out copy = close_copy out' copy'"
  by (induction bs out copy rule: flz_fill.induct) (auto split: prod.splits)

lemma close_copy_length: "length out \<le> length (close_copy out copy) + 1 \<and> length (close_copy out copy) \<le> length out"
  by (auto simp: close_copy_def)

lemma fastlz1_extent_spec:
  assumes "fastlz1_compress x = Some z"
  shows "\<exists>n. fastlz1_extent x = Some n \<and> length z \<le> n \<and> n \<le> length z + 1"
proof (cases "length x < 4")
  case True
  then show ?thesis using assms by (auto simp: fastlz1_compress_def fastlz1_extent_def split: if_splits)
next
  case False
  then obtain s where s: "flz_loop (length x + 1) x
      \<lparr>fz_htab = replicate 1024 0, fz_ip = 2, fz_out = [31, x ! 0, x ! 1], fz_copy = 2\<rparr> = Some s"
    and z: "z = flz_rest (drop (fz_ip s) x) (fz_out s) (fz_copy s)"
    using assms by (auto simp: fastlz1_compress_def bind_eq_Some_conv simp del: flz_loop.simps split: if_splits)
  obtain out copy where f: "flz_fill (drop (fz_ip s) x) (fz_out s) (fz_copy s) = (out, copy)" by force
  then have "z = close_copy out copy" using z flz_rest_fill by simp
  moreover have "fastlz1_extent x = Some (length out)"
    using s f False by (auto simp: fastlz1_extent_def simp del: flz_loop.simps)
  ultimately show ?thesis using close_copy_length [of out copy] by simp
qed

lemma fastlz_compress_fits:
  assumes "x \<noteq> []" "length x < 65536" "length x + length x div 32 + 2 \<le> cap"
  shows "\<exists>z. fastlz_compress True x cap = Some (Some z) \<and> fastlz1_compress x = Some z"
proof -
  obtain z where z: "fastlz1_compress x = Some z" "length z \<le> length x + length x div 32 + 1"
    using fastlz1_compress_spec [OF assms(1,2)] by auto
  then show ?thesis using fastlz1_extent_spec [OF z(1)] assms(3)
    by (auto simp: fastlz_compress_def c_assert_def)
qed

section \<open>Incompressible blocks\<close>

definition no_repeats :: "bytes \<Rightarrow> bool" where
  "no_repeats x \<longleftrightarrow> (\<forall>i j. i < j \<and> j + 2 < length x \<longrightarrow>
     \<not> (x ! i = x ! j \<and> x ! (i + 1) = x ! (j + 1) \<and> x ! (i + 2) = x ! (j + 2)))"

text \<open>The size of the output while only literals have been written.\<close>

definition lit_size :: "nat \<Rightarrow> bytes \<Rightarrow> nat \<Rightarrow> bool" where
  "lit_size ip out copy \<longleftrightarrow> (\<exists>k. ip = 32 * k + copy \<and> copy < 32 \<and> length out = ip + k + 1)"

lemma put_literal_size:
  assumes "lit_size ip out copy" "put_literal b out copy = (out', copy')"
  shows "lit_size (ip + 1) out' copy'"
proof -
  obtain k where k: "ip = 32 * k + copy" "copy < 32" "length out = ip + k + 1"
    using assms(1) by (auto simp: lit_size_def)
  show ?thesis
  proof (cases "copy + 1 = 32")
    case True
    then have "ip + 1 = 32 * Suc k + 0" "length out' = ip + 1 + Suc k + 1" "copy' = 0"
      using assms(2) k by (auto simp: put_literal_def)
    then show ?thesis unfolding lit_size_def by (intro exI [of _ "Suc k"]) simp
  next
    case False
    then show ?thesis using assms(2) k by (auto simp: put_literal_def lit_size_def)
  qed
qed

lemma flz_step_literal:
  assumes "no_repeats x" "fz_ip s + 12 < length x" "length (fz_htab s) = 1024"
    "lit_size (fz_ip s) (fz_out s) (fz_copy s)"
  shows "\<exists>s'. flz_step x s = Some s' \<and> fz_ip s' = fz_ip s + 1 \<and> length (fz_htab s') = 1024 \<and>
    lit_size (fz_ip s') (fz_out s') (fz_copy s')"
proof -
  let ?a = "fz_ip s"
  obtain h where h: "flz_hash x ?a = Some h" "h < 1024" using flz_hash_spec [of ?a x] assms(2) by auto
  let ?ref = "fz_htab s ! h"
  have no: "\<not> periodic x (?a - ?ref) ?a (?a + 3)" if "?ref < ?a"
  proof
    assume *: "periodic x (?a - ?ref) ?a (?a + 3)"
    have "x ! (?a + i) = x ! (?ref + i)" if "i < 3" for i
      using * [unfolded periodic_def, rule_format, of "?a + i"] that \<open>?ref < ?a\<close> by (simp add: add.commute)
    from this [of 0] this [of 1] this [of 2]
    show False using assms(1) [unfolded no_repeats_def, rule_format, of ?ref ?a] assms(2) that by simp
  qed
  have "(if ?a - ?ref = 0 \<or> ?a - ?ref \<ge> 8192 then Some False else match3 x ?ref ?a) = Some False"
    using match3_spec [of ?ref ?a x] no assms(2) by (cases "?ref < ?a") auto
  moreover obtain out copy where "put_literal (x ! ?a) (fz_out s) (fz_copy s) = (out, copy)" by force
  ultimately show ?thesis
    using h assms(2,3) put_literal_size [OF assms(4)]
    by (simp add: flz_step_def mem_get_def Let_def)
qed

lemma flz_loop_literal:
  assumes "no_repeats x" "length (fz_htab s) = 1024" "lit_size (fz_ip s) (fz_out s) (fz_copy s)"
    "length x - fz_ip s < k" "fz_ip s \<le> length x"
  shows "\<exists>s'. flz_loop k x s = Some s' \<and> lit_size (fz_ip s') (fz_out s') (fz_copy s') \<and> fz_ip s' \<le> length x"
  using assms(2-)
proof (induction k arbitrary: s)
  case (Suc k)
  show ?case
  proof (cases "fz_ip s + 12 < length x")
    case True
    then obtain s' where "flz_step x s = Some s'" "fz_ip s' = fz_ip s + 1" "length (fz_htab s') = 1024"
      "lit_size (fz_ip s') (fz_out s') (fz_copy s')"
      using flz_step_literal [OF assms(1)] Suc.prems by blast
    then show ?thesis using Suc.IH [of s'] Suc.prems True by simp
  next
    case False
    then show ?thesis using Suc.prems by simp
  qed
qed simp

lemma flz_rest_literal:
  assumes "lit_size ip out copy" "ip \<le> length x"
  shows "length (flz_rest (drop ip x) out copy) = length x + (length x + 31) div 32"
  using assms
proof (induction "length x - ip" arbitrary: ip out copy)
  case 0
  then obtain k where k: "length x = 32 * k + copy" "copy < 32" "length out = length x + k + 1"
    by (auto simp: lit_size_def)
  have "(length x + 31) div 32 = (if copy = 0 then k else k + 1)" using k(1,2) by auto
  then show ?case using 0 k by (simp add: close_copy_def)
next
  case (Suc n)
  then have ip: "ip < length x" by simp
  obtain out' copy' where lit: "put_literal (x ! ip) out copy = (out', copy')" by force
  show ?case
    using Suc.hyps(1) [of "ip + 1" out' copy'] Suc.hyps(2) put_literal_size [OF Suc.prems(1) lit] lit ip
    by (simp flip: Cons_nth_drop_Suc)
qed

lemma fastlz1_compress_literal:
  assumes "no_repeats x" "4 \<le> length x"
  shows "\<exists>z. fastlz1_compress x = Some z \<and> length z = length x + (length x + 31) div 32"
proof -
  let ?s = "\<lparr>fz_htab = replicate 1024 0, fz_ip = 2, fz_out = [31, x ! 0, x ! 1], fz_copy = 2\<rparr>"
  have "lit_size (fz_ip ?s) (fz_out ?s) (fz_copy ?s)" by (simp add: lit_size_def)
  moreover have "length (fz_htab ?s) = 1024" "length x - fz_ip ?s < length x + 1" "fz_ip ?s \<le> length x"
    using assms(2) by simp_all
  ultimately obtain s where "flz_loop (length x + 1) x ?s = Some s"
    "lit_size (fz_ip s) (fz_out s) (fz_copy s)" "fz_ip s \<le> length x"
    using flz_loop_literal [OF assms(1)] by blast
  then show ?thesis
    using flz_rest_literal assms(2) by (auto simp: fastlz1_compress_def simp del: flz_loop.simps)
qed

text \<open>A block of the largest size the codec accepts in which no three bytes recur.\<close>

definition counter_byte :: "nat \<Rightarrow> nat" where
  "counter_byte i = (if even i then i div 2 mod 200 else 200 + i div 400)"

definition counter_block :: bytes where
  "counter_block = map (\<lambda>i. of_nat (counter_byte i)) [0..<1008]"

lemma counter_byte_even: "counter_byte (2 * a) = a mod 200"
  by (simp add: counter_byte_def)

lemma counter_byte_odd: "counter_byte (2 * a + 1) = 200 + a div 200"
  using div_mult2_eq [of "2 * a + 1" 2 200] by (simp add: counter_byte_def)

lemma counter_byte_lt: "counter_byte k < 200 \<longleftrightarrow> even k"
  by (simp add: counter_byte_def)

lemma counter_byte_digits:
  "counter_byte (2 * a) = counter_byte (2 * b) \<Longrightarrow> counter_byte (2 * a + 1) = counter_byte (2 * b + 1) \<Longrightarrow> a = b"
  unfolding counter_byte_even counter_byte_odd by (metis add_left_cancel div_mult_mod_eq)

lemma counter_byte_inj:
  assumes "counter_byte i = counter_byte j" "counter_byte (i + 1) = counter_byte (j + 1)"
    "counter_byte (i + 2) = counter_byte (j + 2)"
  shows "i = j"
proof -
  have par: "even i \<longleftrightarrow> even j" using counter_byte_lt assms(1) by metis
  show ?thesis
  proof (cases "even i")
    case True
    then obtain a b where "i = 2 * a" "j = 2 * b" using par by (auto elim!: evenE)
    then show ?thesis using assms(1,2) counter_byte_digits by metis
  next
    case False
    then obtain a b where ij: "i = 2 * a + 1" "j = 2 * b + 1" using par by (auto elim!: oddE)
    have shift: "2 * k + 1 + 1 = 2 * (k + 1)" for k :: nat by simp
    have "counter_byte (2 * (a + 1)) = counter_byte (2 * (b + 1))"
      using assms(2) unfolding ij shift .
    moreover have "counter_byte (2 * (a + 1) + 1) = counter_byte (2 * (b + 1) + 1)"
    proof -
      have "i + 2 = 2 * (a + 1) + 1" "j + 2 = 2 * (b + 1) + 1" using ij by simp_all
      then show ?thesis using assms(3) by metis
    qed
    ultimately have "a + 1 = b + 1" using counter_byte_digits by metis
    then show ?thesis using ij by simp
  qed
qed

lemma counter_block_length [simp]: "length counter_block = 1008"
  by (simp add: counter_block_def del: upt_rec_numeral)

lemma counter_block_nth: "i < 1008 \<Longrightarrow> counter_block ! i = of_nat (counter_byte i)"
  by (simp add: counter_block_def del: upt_rec_numeral)

lemma counter_byte_bound:
  assumes "i < 1008"
  shows "counter_byte i < 256"
proof -
  have "i div 2 mod 200 < 256" by (rule less_trans [OF mod_less_divisor]) simp_all
  moreover have "i div 400 \<le> 1008 div 400" using assms by (intro div_le_mono) simp
  ultimately show ?thesis by (simp add: counter_byte_def)
qed

lemma counter_block_eq:
  assumes "i < 1008" "j < 1008" "counter_block ! i = counter_block ! j"
  shows "counter_byte i = counter_byte j"
  using assms counter_byte_bound unat_of_nat8 counter_block_nth by metis

lemma counter_block_no_repeats: "no_repeats counter_block"
  unfolding no_repeats_def
proof (intro allI impI notI)
  fix i j assume ij: "i < j \<and> j + 2 < length counter_block"
    and eq: "counter_block ! i = counter_block ! j \<and> counter_block ! (i + 1) = counter_block ! (j + 1) \<and>
      counter_block ! (i + 2) = counter_block ! (j + 2)"
  have "i = j" by (rule counter_byte_inj; rule counter_block_eq) (use ij eq in auto)
  then show False using ij by simp
qed

section \<open>Properties\<close>

text \<open>C5: Compression is lossless.  For every non-empty block below 64 KiB the compressor
  finishes without leaving its memory, the decompressor accepts the result, in a buffer
  that may be longer, whenever the output limit admits the original, and returns exactly
  the original bytes.\<close>

theorem fastlz1_roundtrip:
  assumes "x \<noteq> []" "length x < 65536" "length x \<le> maxout"
  shows "\<exists>z. fastlz1_compress x = Some z \<and> fastlz_decompress (z @ e) (length z) maxout = Some (Some x)"
  using fastlz1_compress_spec [OF assms(1,2)] fastlz_decompress_decode assms(3) by blast

theorem fastlz1_roundtrip_witness:
  "\<exists>z. fastlz1_compress [7, 7, 7, 7, 7, 7, 7, 7, 7, 7, 7, 7, 7, 7, 7, 7, 7, 7, 7, 9] = Some z \<and>
     fastlz_decompress (z @ [0]) (length z) 294 = Some (Some [7, 7, 7, 7, 7, 7, 7, 7, 7, 7, 7, 7, 7, 7, 7, 7, 7, 7, 7, 9])"
  by (rule fastlz1_roundtrip) simp_all

text \<open>C27: Compression expands a block by at most one byte for every 32 and one more, which
  is within the five percent the interface asks the caller to reserve.\<close>

theorem fastlz1_compress_bound:
  assumes "length x < 65536"
  shows "\<exists>z. fastlz1_compress x = Some z \<and> length z \<le> length x + length x div 32 + 1"
  using fastlz1_compress_spec [OF _ assms]
  by (cases "x = []") (auto simp: fastlz1_compress_def)

theorem fastlz1_compress_bound_witness:
  "\<exists>z. fastlz1_compress (replicate 40 1) = Some z \<and> length z \<le> 42"
  using fastlz1_compress_bound [of "replicate 40 1"] by simp

text \<open>Whatever it is given, the decompressor of either level returns at most as many
  bytes as the output limit allows.\<close>

theorem fastlz_decompress_bound:
  assumes "fastlz_decompress buf lim maxout = Some (Some out)"
  shows "length out \<le> maxout"
  using assms dec_loop_bound
  by (fastforce simp: fastlz_decompress_def fastlz_level_decompress_def bind_eq_Some_conv Let_def split: if_splits)

theorem fastlz_decompress_bound_witness:
  "fastlz_decompress [1, 7, 8, 32, 1] 5 5 = Some (Some [7, 8, 7, 8, 7]) \<and> length [7, 8, 7, 8, 7 :: u8] \<le> 5"
proof
  show ok: "fastlz_decompress [1, 7, 8, 32, 1] 5 5 = Some (Some [7, 8, 7, 8, 7])" by code_simp
  show "length [7, 8, 7, 8, 7 :: u8] \<le> 5" by (rule fastlz_decompress_bound [OF ok])
qed

text \<open>A block that ends in the middle of a match is read past its end: the limit on
  the input is checked for literals and control bytes only, although the interface calls
  decompression memory safe.\<close>

theorem fastlz_decompress_overread:
  assumes "32 \<le> unat c"
  shows "fastlz_decompress [0, b, c] 3 maxout = (if maxout = 0 then Some None else None)"
  by (cases "maxout = 0")
    (use assms in \<open>simp_all add: fastlz_decompress_def fastlz_level_decompress_def mem_get_def mem_read_def
      dec_loop.simps match_head_def match_len_def len_ext.simps\<close>)

theorem fastlz_decompress_overread_witness:
  "fastlz_decompress [0, 65, 224] 3 294 = None"
  using fastlz_decompress_overread [of 224 65 294] by simp

end
