(* ===== verification/Coding.thy ===== *)
theory Coding
  imports FastLZ
begin

text \<open>
  The application codec, app/codec/coding/uc\_coding.c: an optional-field header in
  front of a payload that is compressed when it gets shorter.  The structures are
  those of uc\_coding.h on the RV32 target, where the header takes 16 bytes in memory
  and at most 13 on the wire.  \<open>mo k n\<close> tells whether the \<open>k\<close>-th call of rt\_malloc in
  the operation, of \<open>n\<close> bytes, succeeds.
\<close>

section \<open>Headers\<close>

type_synonym app_ps_property_t = u8

record app_ps_addr_t =
  src_addr :: u32
  dest_addr :: u32

record app_ps_segment_info_t =
  total_num :: u8
  current_num :: u8

record app_ps_header_t =
  property :: app_ps_property_t
  addr :: app_ps_addr_t
  packet_num :: u8
  segment_info :: app_ps_segment_info_t
  cmd_type :: u8

text \<open>The bit fields of the property byte, least significant first.\<close>

definition compress_flag :: "app_ps_property_t \<Rightarrow> bool" where "compress_flag p = bit p 1"
definition segment_flag :: "app_ps_property_t \<Rightarrow> bool" where "segment_flag p = bit p 2"
definition is_packet_num :: "app_ps_property_t \<Rightarrow> bool" where "is_packet_num p = bit p 5"
definition is_dest_addr :: "app_ps_property_t \<Rightarrow> bool" where "is_dest_addr p = bit p 6"
definition is_src_addr :: "app_ps_property_t \<Rightarrow> bool" where "is_src_addr p = bit p 7"

definition clear_compress_flag :: "app_ps_property_t \<Rightarrow> app_ps_property_t" where
  "clear_compress_flag p = p AND NOT 2"

definition app_packet_num :: "u8 \<Rightarrow> u8 \<times> u8" where
  "app_packet_num packet = (packet, packet + 1)"

definition app_set_header_property :: "nat \<Rightarrow> u8 \<Rightarrow> app_ps_property_t \<Rightarrow> app_ps_property_t" where
  "app_set_header_property bit_no v p =
     (if bit_no > 7 then p
      else let v' = (if v > 1 then 1 else v) in p OR push_bit bit_no v')"

definition header_size :: nat where "header_size = 16"
definition APP_MAX_CODING_DATA_LEN :: nat where "APP_MAX_CODING_DATA_LEN = 1024 - header_size"
definition APP_MAX_DECODING_DATA_LEN :: nat where "APP_MAX_DECODING_DATA_LEN = 310 - header_size"

section \<open>Coding\<close>

text \<open>rt\_memcpy to \<open>buf + offset\<close>, and the offset advanced.\<close>

definition put_field :: "bool \<Rightarrow> bytes \<Rightarrow> bytes \<times> nat \<Rightarrow> (bytes \<times> nat) option" where
  "put_field present d = (\<lambda>(buf, offset).
     if present then map_option (\<lambda>buf'. (buf', offset + length d)) (mem_write buf offset d)
     else Some (buf, offset))"

definition coding_header :: "app_ps_header_t \<Rightarrow> bytes \<Rightarrow> (bytes \<times> nat) option" where
  "coding_header h buf = do {
     let p = property h;
     w1 \<leftarrow> put_field True [p] (buf, 0);
     w2 \<leftarrow> put_field (is_src_addr p) (le32 (src_addr (addr h))) w1;
     w3 \<leftarrow> put_field (is_dest_addr p) (le32 (dest_addr (addr h))) w2;
     w4 \<leftarrow> put_field (is_packet_num p) [packet_num h] w3;
     w5 \<leftarrow> put_field (segment_flag p) [total_num (segment_info h), current_num (segment_info h)] w4;
     put_field True [cmd_type h] w5
   }"

text \<open>The payload; the result carries the return value, the header and the output.\<close>

definition coding_data ::
  "(nat \<Rightarrow> nat \<Rightarrow> bool) \<Rightarrow> app_ps_header_t \<Rightarrow> bytes \<Rightarrow> nat \<Rightarrow> bytes \<times> nat \<Rightarrow>
     (int \<times> app_ps_header_t \<times> (bytes \<times> nat) option) option" where
  "coding_data mo h d n w =
     (if compress_flag (property h) then
        if \<not> mo 1 APP_MAX_CODING_DATA_LEN then Some (-3, h, None)
        else do {
          inp \<leftarrow> mem_read d 0 n;
          comp \<leftarrow> fastlz_compress (mo 2 4096) inp APP_MAX_CODING_DATA_LEN;
          let comp_data_len = (case comp of None \<Rightarrow> 2 ^ 32 - 1 | Some z \<Rightarrow> length z);
          if comp_data_len < n then do {
            w' \<leftarrow> put_field True (case comp of None \<Rightarrow> [] | Some z \<Rightarrow> z) w;
            Some (0, h, Some w')
          }
          else do {
            let h' = h\<lparr>property := clear_compress_flag (property h)\<rparr>;
            buf \<leftarrow> mem_write (fst w) 0 [property h'];
            w' \<leftarrow> put_field True inp (buf, snd w);
            Some (0, h', Some w')
          }
        }
      else do {
        inp \<leftarrow> mem_read d 0 n;
        w' \<leftarrow> put_field True inp w;
        Some (0, h, Some w')
      })"

definition app_data_coding ::
  "(nat \<Rightarrow> nat \<Rightarrow> bool) \<Rightarrow> app_ps_header_t option \<Rightarrow> bytes option \<Rightarrow> nat \<Rightarrow>
     (int \<times> app_ps_header_t \<times> (bytes \<times> nat) option) option" where
  "app_data_coding mo ps_header input_data input_data_len = do {
     h \<leftarrow> ps_header;
     if input_data_len > APP_MAX_CODING_DATA_LEN then Some (-1, h, None)
     else let buf_len = header_size + input_data_len in
       if \<not> mo 0 buf_len then Some (-2, h, None)
       else do {
         w \<leftarrow> coding_header h (replicate buf_len 0);
         case input_data of
           Some d \<Rightarrow> if input_data_len \<noteq> 0 then coding_data mo h d input_data_len w else Some (0, h, Some w)
         | None \<Rightarrow> Some (0, h, Some w)
       }
   }"

section \<open>Decoding\<close>

definition get_field :: "bool \<Rightarrow> nat \<Rightarrow> bytes \<Rightarrow> nat \<Rightarrow> (bytes option \<times> nat) option" where
  "get_field present n inp offset =
     (if present then map_option (\<lambda>d. (Some d, offset + n)) (mem_read inp offset n) else Some (None, offset))"

definition opt_set :: "bytes option \<Rightarrow> (bytes \<Rightarrow> 'a \<Rightarrow> 'a) \<Rightarrow> 'a \<Rightarrow> 'a" where
  "opt_set d f h = (case d of None \<Rightarrow> h | Some b \<Rightarrow> f b h)"

definition set_src :: "bytes \<Rightarrow> app_ps_header_t \<Rightarrow> app_ps_header_t" where
  "set_src b h = h\<lparr>addr := (addr h)\<lparr>src_addr := un_le32 b\<rparr>\<rparr>"

definition set_dest :: "bytes \<Rightarrow> app_ps_header_t \<Rightarrow> app_ps_header_t" where
  "set_dest b h = h\<lparr>addr := (addr h)\<lparr>dest_addr := un_le32 b\<rparr>\<rparr>"

definition set_segment :: "bytes \<Rightarrow> app_ps_header_t \<Rightarrow> app_ps_header_t" where
  "set_segment b h = h\<lparr>segment_info := \<lparr>total_num = b ! 0, current_num = b ! 1\<rparr>\<rparr>"

definition decoding_header :: "bytes \<Rightarrow> app_ps_header_t \<Rightarrow> (app_ps_header_t \<times> nat) option" where
  "decoding_header inp h = do {
     p \<leftarrow> mem_get inp 0;
     (f1, o1) \<leftarrow> get_field (is_src_addr p) 4 inp 1;
     (f2, o2) \<leftarrow> get_field (is_dest_addr p) 4 inp o1;
     (f3, o3) \<leftarrow> get_field (is_packet_num p) 1 inp o2;
     (f4, o4) \<leftarrow> get_field (segment_flag p) 2 inp o3;
     (f5, o5) \<leftarrow> get_field True 1 inp o4;
     Some (opt_set f5 (\<lambda>b. cmd_type_update (\<lambda>_. b ! 0))
            (opt_set f4 set_segment (opt_set f3 (\<lambda>b. packet_num_update (\<lambda>_. b ! 0))
              (opt_set f2 set_dest (opt_set f1 set_src (h\<lparr>property := p\<rparr>))))), o5)
   }"

text \<open>
  \<open>input_data\<close> is the block handed in and \<open>input_data_len\<close> the length announced for it.
  The result carries the return value, the output block with its length when one is set,
  and the header.
\<close>

definition decoding_data ::
  "(nat \<Rightarrow> nat \<Rightarrow> bool) \<Rightarrow> app_ps_header_t \<Rightarrow> bytes \<Rightarrow> nat \<Rightarrow> nat \<Rightarrow>
     (int \<times> (bytes \<times> nat) option \<times> app_ps_header_t) option" where
  "decoding_data mo h inp offset buf_len =
     (if \<not> mo 0 ((buf_len + 1) mod 2 ^ 32) then Some (-2, None, h)
      else do {
        c_assert (buf_len + 1 < 2 ^ 32);
        d \<leftarrow> mem_read inp offset buf_len;
        let buf = d @ [0];
        if compress_flag (property h) then
          if \<not> mo 1 APP_MAX_DECODING_DATA_LEN then Some (-3, None, h)
          else do {
            r \<leftarrow> fastlz_decompress buf buf_len APP_MAX_DECODING_DATA_LEN;
            case r of
              None \<Rightarrow> Some (0, Some ([], 0), h)
            | Some out \<Rightarrow> Some (0, Some (out, length out), h)
          }
        else Some (0, Some (buf, buf_len), h)
      })"

definition app_data_decoding ::
  "(nat \<Rightarrow> nat \<Rightarrow> bool) \<Rightarrow> bytes option \<Rightarrow> nat \<Rightarrow> app_ps_header_t \<Rightarrow>
     (int \<times> (bytes \<times> nat) option \<times> app_ps_header_t) option" where
  "app_data_decoding mo input_data input_data_len h =
     (case input_data of
        None \<Rightarrow> Some (-1, None, h)
      | Some inp \<Rightarrow>
          if input_data_len = 0 \<or> input_data_len > APP_MAX_DECODING_DATA_LEN then Some (-1, None, h)
          else do {
            (h', offset) \<leftarrow> decoding_header inp h;
            let buf_len = nat ((int input_data_len - int offset) mod 2 ^ 32);
            if buf_len > 0 then decoding_data mo h' inp offset buf_len else Some (0, None, h')
          })"

section \<open>The wire format\<close>

definition header_wire :: "app_ps_header_t \<Rightarrow> bytes" where
  "header_wire h = (let p = property h in
     [p] @ (if is_src_addr p then le32 (src_addr (addr h)) else [])
     @ (if is_dest_addr p then le32 (dest_addr (addr h)) else [])
     @ (if is_packet_num p then [packet_num h] else [])
     @ (if segment_flag p then [total_num (segment_info h), current_num (segment_info h)] else [])
     @ [cmd_type h])"

text \<open>What a receiver knows of a header: its own fields where the sender left them out.\<close>

definition header_received :: "app_ps_header_t \<Rightarrow> app_ps_header_t \<Rightarrow> app_ps_header_t" where
  "header_received h0 h = (let p = property h in
     \<lparr>property = p,
      addr = \<lparr>src_addr = if is_src_addr p then src_addr (addr h) else src_addr (addr h0),
              dest_addr = if is_dest_addr p then dest_addr (addr h) else dest_addr (addr h0)\<rparr>,
      packet_num = if is_packet_num p then packet_num h else packet_num h0,
      segment_info = if segment_flag p then segment_info h else segment_info h0,
      cmd_type = cmd_type h\<rparr>)"

text \<open>\<open>filled w k\<close>: the bytes \<open>w\<close> have been written to a cleared block with room for \<open>k\<close> more.\<close>

definition filled :: "bytes \<Rightarrow> nat \<Rightarrow> bytes \<times> nat" where
  "filled w k = (w @ replicate k 0, length w)"

lemma put_field_filled:
  assumes "c \<Longrightarrow> length d \<le> k"
  shows "put_field c d (filled w k) =
    Some (filled (w @ (if c then d else [])) (k - (if c then length d else 0)))"
  using assms by (simp add: put_field_def filled_def mem_write_def)

lemma header_wire_length [layout]: "2 \<le> length (header_wire h)" "length (header_wire h) \<le> 13"
  by (simp_all add: header_wire_def Let_def)

lemma coding_header_filled:
  assumes "13 \<le> k"
  shows "coding_header h (replicate k 0) = Some (filled (header_wire h) (k - length (header_wire h)))"
proof -
  have 0: "(replicate k 0, 0) = filled [] k" by (simp add: filled_def)
  show ?thesis
    using assms unfolding coding_header_def 0
    by (simp add: put_field_filled header_wire_def Let_def)
qed

lemma get_field_mid:
  assumes "c \<Longrightarrow> length d = n" "inp = pre @ (if c then d else []) @ post" "offset = length pre"
  shows "get_field c n inp offset = Some (if c then Some d else None, length (pre @ (if c then d else [])))"
  using assms by (simp add: get_field_def mem_read_def)

lemma decoding_header_wire:
  "decoding_header (header_wire h @ post) h0 = Some (header_received h0 h, length (header_wire h))"
proof -
  let ?p = "property h"
  let ?f1 = "if is_src_addr ?p then le32 (src_addr (addr h)) else []"
  let ?f2 = "if is_dest_addr ?p then le32 (dest_addr (addr h)) else []"
  let ?f3 = "if is_packet_num ?p then [packet_num h] else []"
  let ?f4 = "if segment_flag ?p then [total_num (segment_info h), current_num (segment_info h)] else []"
  let ?inp = "header_wire h @ post"
  have inp: "?inp = [?p] @ ?f1 @ ?f2 @ ?f3 @ ?f4 @ [cmd_type h] @ post"
    by (simp add: header_wire_def Let_def)
  have g0: "mem_get ?inp 0 = Some ?p" by (simp add: inp mem_get_def)
  have g1: "get_field (is_src_addr ?p) 4 ?inp 1 = Some (if is_src_addr ?p then Some (le32 (src_addr (addr h))) else None,
      length ([?p] @ ?f1))"
    by (rule get_field_mid) (simp_all add: inp)
  have g2: "get_field (is_dest_addr ?p) 4 ?inp (length ([?p] @ ?f1)) =
      Some (if is_dest_addr ?p then Some (le32 (dest_addr (addr h))) else None, length (([?p] @ ?f1) @ ?f2))"
    by (rule get_field_mid) (simp_all add: inp)
  have g3: "get_field (is_packet_num ?p) 1 ?inp (length (([?p] @ ?f1) @ ?f2)) =
      Some (if is_packet_num ?p then Some [packet_num h] else None, length ((([?p] @ ?f1) @ ?f2) @ ?f3))"
    by (rule get_field_mid) (simp_all add: inp)
  have g4: "get_field (segment_flag ?p) 2 ?inp (length ((([?p] @ ?f1) @ ?f2) @ ?f3)) =
      Some (if segment_flag ?p then Some [total_num (segment_info h), current_num (segment_info h)] else None,
        length (((([?p] @ ?f1) @ ?f2) @ ?f3) @ ?f4))"
    by (rule get_field_mid) (simp_all add: inp)
  have g5: "get_field True 1 ?inp (length (((([?p] @ ?f1) @ ?f2) @ ?f3) @ ?f4)) =
      Some (Some [cmd_type h], length (((((([?p] @ ?f1) @ ?f2) @ ?f3) @ ?f4) @ [cmd_type h])))"
    by (rule get_field_mid [where c = True, simplified if_True]) (simp_all add: inp)
  have len: "length (((((([?p] @ ?f1) @ ?f2) @ ?f3) @ ?f4) @ [cmd_type h])) = length (header_wire h)"
    by (simp add: header_wire_def Let_def)
  show ?thesis
    unfolding decoding_header_def g0 bind.simps(2) g1 g2 g3 g4 g5 case_prod_conv len
    by (simp add: header_received_def opt_set_def set_src_def set_dest_def set_segment_def Let_def)
qed

lemma clear_compress_flags [simp]:
  fixes p :: app_ps_property_t
  shows "compress_flag (clear_compress_flag p) = False" "segment_flag (clear_compress_flag p) = segment_flag p"
    "is_packet_num (clear_compress_flag p) = is_packet_num p" "is_dest_addr (clear_compress_flag p) = is_dest_addr p"
    "is_src_addr (clear_compress_flag p) = is_src_addr p"
proof -
  have "bit (2 :: u8) n \<longleftrightarrow> n = 1" for n
    using bit_exp_iff [where ?'a = u8, of 1 n] by auto
  then show "compress_flag (clear_compress_flag p) = False" "segment_flag (clear_compress_flag p) = segment_flag p"
    "is_packet_num (clear_compress_flag p) = is_packet_num p" "is_dest_addr (clear_compress_flag p) = is_dest_addr p"
    "is_src_addr (clear_compress_flag p) = is_src_addr p"
    by (simp_all add: compress_flag_def segment_flag_def is_packet_num_def is_dest_addr_def
        is_src_addr_def clear_compress_flag_def bit_and_iff bit_not_iff)
qed

lemma header_wire_clear:
  "header_wire (h\<lparr>property := clear_compress_flag (property h)\<rparr>) = (clear_compress_flag (property h)) # tl (header_wire h)"
  by (simp add: header_wire_def Let_def)

lemma clear_property_filled:
  "mem_write (fst (filled (header_wire h) k)) 0 [clear_compress_flag (property h)] =
     Some (fst (filled (header_wire (h\<lparr>property := clear_compress_flag (property h)\<rparr>)) k))"
proof -
  obtain c r where "header_wire h = c # r" using header_wire_length(1) [of h] by (cases "header_wire h") auto
  then show ?thesis by (simp add: mem_write_def filled_def header_wire_clear)
qed

text \<open>The payload sent for \<open>d\<close> under the header \<open>h'\<close> that goes with it.\<close>

definition payload_ok :: "app_ps_header_t \<Rightarrow> bytes \<Rightarrow> app_ps_header_t \<Rightarrow> bytes \<Rightarrow> bool" where
  "payload_ok h d h' pay \<longleftrightarrow> length pay \<le> length d \<and>
     (if compress_flag (property h') then h' = h \<and> pay \<noteq> [] \<and> fastlz1_compress d = Some pay
      else pay = d \<and> (h' = h \<or> h' = h\<lparr>property := clear_compress_flag (property h)\<rparr>))"

lemma coding_data_spec:
  assumes "d \<noteq> []" "length d \<le> 976" "length d \<le> k"
    "compress_flag (property h) \<Longrightarrow> mo 1 APP_MAX_CODING_DATA_LEN"
  shows "\<exists>h' pay. coding_data mo h d (length d) (filled (header_wire h) k) =
      Some (0, h', Some (filled (header_wire h' @ pay) (k - length pay))) \<and> payload_ok h d h' pay"
proof (cases "compress_flag (property h)")
  case False
  then show ?thesis using assms(3)
    by (intro exI [of _ h] exI [of _ d])
      (simp add: coding_data_def payload_ok_def mem_read_def put_field_filled)
next
  case True
  let ?h = "h\<lparr>property := clear_compress_flag (property h)\<rparr>"
  have cap: "length d + length d div 32 + 2 \<le> APP_MAX_CODING_DATA_LEN"
    using assms(2) by (simp add: APP_MAX_CODING_DATA_LEN_def header_size_def)
  obtain comp where comp: "fastlz_compress (mo 2 4096) d APP_MAX_CODING_DATA_LEN = Some comp"
    and z: "\<And>z. comp = Some z \<Longrightarrow> fastlz1_compress d = Some z"
    using fastlz_compress_fits [OF assms(1) _ cap] assms(2)
    by (cases "mo 2 4096") (auto simp: fastlz_compress_def)
  have len: "length (header_wire ?h) = length (header_wire h)"
    using header_wire_length(1) [of h] by (simp add: header_wire_clear)
  have plain: "put_field True d (fst (filled (header_wire ?h) k), snd (filled (header_wire h) k)) =
      Some (filled (header_wire ?h @ d) (k - length d))"
    using put_field_filled [of True d k "header_wire ?h"] assms(3) len by (simp add: filled_def)
  show ?thesis
  proof (cases "\<exists>z. comp = Some z \<and> length z < length d")
    case shorter: True
    then obtain z where "comp = Some z" "length z < length d" by auto
    moreover have "z \<noteq> []"
      using z [OF \<open>comp = Some z\<close>] fastlz1_compress_spec [OF assms(1)] assms(2) by auto
    ultimately show ?thesis
      using True comp z assms(3,4)
      by (intro exI [of _ h] exI [of _ z]) (simp add: coding_data_def mem_read_def payload_ok_def put_field_filled)
  next
    case False
    have "\<not> (case comp of None \<Rightarrow> 2 ^ 32 - 1 | Some z \<Rightarrow> length z) < length d"
      using False assms(2) by (cases comp) auto
    then show ?thesis
      using True comp assms(3,4) plain clear_property_filled [of h k]
      by (intro exI [of _ ?h] exI [of _ d]) (simp add: coding_data_def mem_read_def payload_ok_def Let_def)
  qed
qed

lemma app_data_coding_spec:
  assumes "d \<noteq> []" "length d \<le> 976" "mo 0 (header_size + length d)"
    "compress_flag (property h) \<Longrightarrow> mo 1 APP_MAX_CODING_DATA_LEN"
  shows "\<exists>h' pay k. app_data_coding mo (Some h) (Some d) (length d) =
      Some (0, h', Some (filled (header_wire h' @ pay) k)) \<and> payload_ok h d h' pay"
proof -
  have "length d \<le> header_size + length d - length (header_wire h)" "13 \<le> header_size + length d"
    using header_wire_length(2) [of h] by (simp_all add: header_size_def)
  moreover have "\<not> length d > APP_MAX_CODING_DATA_LEN"
    using assms(2) by (simp add: APP_MAX_CODING_DATA_LEN_def header_size_def)
  ultimately show ?thesis
    using coding_data_spec [of d _ h mo] assms coding_header_filled
    by (fastforce simp: app_data_coding_def Let_def)
qed

lemma app_data_coding_plain:
  assumes "d \<noteq> []" "length d \<le> APP_MAX_CODING_DATA_LEN" "mo 0 (header_size + length d)"
    "\<not> compress_flag (property h)"
  shows "app_data_coding mo (Some h) (Some d) (length d) =
    Some (0, h, Some (filled (header_wire h @ d) (header_size - length (header_wire h))))"
proof -
  have k: "length d \<le> header_size + length d - length (header_wire h)" "13 \<le> header_size + length d"
    "header_size + length d - length (header_wire h) - length d = header_size - length (header_wire h)"
    using header_wire_length(2) [of h] by (simp_all add: header_size_def)
  then show ?thesis
    using assms coding_header_filled [OF k(2)]
    by (simp add: app_data_coding_def coding_data_def Let_def mem_read_def put_field_filled)
qed

lemma app_data_decoding_spec:
  assumes "payload_ok h d h' pay" "d \<noteq> []" "length d \<le> 281" "\<And>k n. 0 < n \<Longrightarrow> n \<le> 300 \<Longrightarrow> mo k n"
  shows "\<exists>out. app_data_decoding mo (Some (header_wire h' @ pay @ post)) (length (header_wire h' @ pay)) h0 =
      Some (0, Some (out, length d), header_received h0 h') \<and> take (length d) out = d"
proof -
  let ?n = "length (header_wire h' @ pay)"
  have pay: "pay \<noteq> []" "length pay \<le> 281"
    using assms(1-3) by (auto simp: payload_ok_def split: if_splits)
  have n: "0 < ?n" "?n \<le> APP_MAX_DECODING_DATA_LEN"
    using pay header_wire_length [of h'] by (simp_all add: APP_MAX_DECODING_DATA_LEN_def header_size_def)
  have len: "nat ((int ?n - int (length (header_wire h'))) mod 2 ^ 32) = length pay"
    using pay(2) by simp
  have pr: "property (header_received h0 h') = property h'" by (simp add: header_received_def Let_def)
  have "\<exists>out. decoding_data mo (header_received h0 h') (header_wire h' @ pay @ post) (length (header_wire h')) (length pay) =
      Some (0, Some (out, length d), header_received h0 h') \<and> take (length d) out = d"
  proof (cases "compress_flag (property h')")
    case True
    then have z: "fastlz1_compress d = Some pay" using assms(1) by (simp add: payload_ok_def)
    have "fastlz_decompress (pay @ [0]) (length pay) APP_MAX_DECODING_DATA_LEN = Some (Some d)"
      using fastlz1_compress_spec [OF assms(2)] z assms(3) fastlz_decompress_decode
      by (fastforce simp: APP_MAX_DECODING_DATA_LEN_def header_size_def)
    then show ?thesis using True pay assms(4) pr
      by (simp add: decoding_data_def mem_read_def c_assert_def APP_MAX_DECODING_DATA_LEN_def header_size_def)
  next
    case False
    then have "pay = d" using assms(1) by (simp add: payload_ok_def)
    then show ?thesis using False pay assms(4) pr
      by (simp add: decoding_data_def mem_read_def c_assert_def)
  qed
  then show ?thesis using n len pay(1) by (simp add: app_data_decoding_def decoding_header_wire)
qed

text \<open>The number of bytes the header of a property byte takes.\<close>

definition header_need :: "app_ps_property_t \<Rightarrow> nat" where
  "header_need p = 2 + (if is_src_addr p then 4 else 0) + (if is_dest_addr p then 4 else 0)
     + (if is_packet_num p then 1 else 0) + (if segment_flag p then 2 else 0)"

lemma get_field_Some:
  "get_field c n inp off = Some (f, off') \<Longrightarrow> off' = off + (if c then n else 0) \<and> (c \<longrightarrow> off' \<le> length inp)"
  by (auto simp: get_field_def mem_read_def split: if_splits)

lemma decoding_header_need:
  assumes "decoding_header inp h0 = Some (h, off)"
  shows "off = header_need (inp ! 0) \<and> off \<le> length inp"
proof -
  from assms obtain f1 o1 f2 o2 f3 o3 f4 o4 f5 where
    "mem_get inp 0 = Some (inp ! 0)"
    "get_field (is_src_addr (inp ! 0)) 4 inp 1 = Some (f1, o1)"
    "get_field (is_dest_addr (inp ! 0)) 4 inp o1 = Some (f2, o2)"
    "get_field (is_packet_num (inp ! 0)) 1 inp o2 = Some (f3, o3)"
    "get_field (segment_flag (inp ! 0)) 2 inp o3 = Some (f4, o4)"
    "get_field True 1 inp o4 = Some (f5, off)"
    by (auto simp: decoding_header_def bind_eq_Some_conv mem_get_def split: if_splits)
  from this(2-) [THEN get_field_Some] show ?thesis by (simp add: header_need_def)
qed

text \<open>A header with every field on the wire and an empty one, for the examples.\<close>

definition sample_header :: app_ps_header_t where
  "sample_header = \<lparr>property = 0xE6, addr = \<lparr>src_addr = 0x11223344, dest_addr = 5\<rparr>, packet_num = 9,
     segment_info = \<lparr>total_num = 3, current_num = 1\<rparr>, cmd_type = 20\<rparr>"

definition blank_header :: app_ps_header_t where
  "blank_header = \<lparr>property = 0, addr = \<lparr>src_addr = 0, dest_addr = 0\<rparr>, packet_num = 0,
     segment_info = \<lparr>total_num = 0, current_num = 0\<rparr>, cmd_type = 0\<rparr>"

lemma sample_received:
  "header_received blank_header sample_header = sample_header"
  "header_received blank_header (sample_header\<lparr>property := clear_compress_flag (property sample_header)\<rparr>) =
     sample_header\<lparr>property := clear_compress_flag (property sample_header)\<rparr>"
proof -
  have bits: "is_src_addr (property sample_header)" "is_dest_addr (property sample_header)"
    "is_packet_num (property sample_header)" "segment_flag (property sample_header)" by code_simp+
  show "header_received blank_header sample_header = sample_header"
    using bits by (simp add: header_received_def Let_def)
  show "header_received blank_header (sample_header\<lparr>property := clear_compress_flag (property sample_header)\<rparr>) =
     sample_header\<lparr>property := clear_compress_flag (property sample_header)\<rparr>"
    using bits by (simp add: header_received_def Let_def)
qed

section \<open>Properties\<close>

text \<open>C4: The codec is lossless.  When its allocations succeed, coding a payload of at most
  281 bytes answers 0 with the header as given or with its compression flag cleared, and
  decoding the result answers 0 with the payload and with every header field that is on
  the wire; fields left out keep the value the receiver had.\<close>

theorem app_data_roundtrip:
  assumes "d \<noteq> []" "length d \<le> 281"
    "mo 0 (header_size + length d)" "mo 1 APP_MAX_CODING_DATA_LEN"
    "\<And>k n. 0 < n \<Longrightarrow> n \<le> 300 \<Longrightarrow> mo' k n"
  shows "\<exists>h' buf n out. app_data_coding mo (Some h) (Some d) (length d) = Some (0, h', Some (buf, n)) \<and>
    (h' = h \<or> h' = h\<lparr>property := clear_compress_flag (property h)\<rparr>) \<and>
    app_data_decoding mo' (Some buf) n h0 = Some (0, Some (out, length d), header_received h0 h') \<and>
    take (length d) out = d"
proof -
  have "length d \<le> 976" using assms(2) by simp
  then obtain h' pay k where c: "app_data_coding mo (Some h) (Some d) (length d) =
      Some (0, h', Some (filled (header_wire h' @ pay) k))" and pay: "payload_ok h d h' pay"
    using app_data_coding_spec [of d mo h] assms(1,3,4) by blast
  have "h' = h \<or> h' = h\<lparr>property := clear_compress_flag (property h)\<rparr>"
    using pay by (auto simp: payload_ok_def split: if_splits)
  then show ?thesis
    using c app_data_decoding_spec [OF pay assms(1,2), of mo' "replicate k 0" h0] assms(5)
    by (auto simp: filled_def)
qed

theorem app_data_roundtrip_witness:
  "\<exists>h' buf n out. app_data_coding (\<lambda>_ _. True) (Some sample_header) (Some (replicate 40 1)) 40 = Some (0, h', Some (buf, n)) \<and>
    app_data_decoding (\<lambda>_ _. True) (Some buf) n blank_header = Some (0, Some (out, 40), h') \<and>
    take 40 out = replicate 40 1"
proof -
  let ?d = "replicate 40 1 :: bytes"
  have "?d \<noteq> []" "length ?d \<le> 281" by simp_all
  then have "\<exists>h' buf n out. app_data_coding (\<lambda>_ _. True) (Some sample_header) (Some ?d) (length ?d) =
      Some (0, h', Some (buf, n)) \<and>
    (h' = sample_header \<or> h' = sample_header\<lparr>property := clear_compress_flag (property sample_header)\<rparr>) \<and>
    app_data_decoding (\<lambda>_ _. True) (Some buf) n blank_header =
      Some (0, Some (out, length ?d), header_received blank_header h') \<and> take (length ?d) out = ?d"
    by (rule app_data_roundtrip) simp_all
  then show ?thesis unfolding length_replicate using sample_received by metis
qed

text \<open>C28: The block that receives the compressed payload is too small.  With compression
  requested, a payload of the admitted 1008 bytes that contains no repetition compresses to
  1040 bytes, which are written to a block of 1008.\<close>

theorem app_data_coding_overflow:
  assumes "compress_flag (property h)" "\<And>k n. mo k n"
  shows "app_data_coding mo (Some h) (Some counter_block) APP_MAX_CODING_DATA_LEN = None"
proof -
  have max: "APP_MAX_CODING_DATA_LEN = 1008" by (simp add: APP_MAX_CODING_DATA_LEN_def header_size_def)
  obtain z where z: "fastlz1_compress counter_block = Some z" "length z = 1040"
    using fastlz1_compress_literal [OF counter_block_no_repeats] by auto
  have inp: "mem_read counter_block 0 1008 = Some counter_block" by (simp add: mem_read_def)
  have "fastlz_compress True counter_block 1008 = None"
    using fastlz1_extent_spec [OF z(1)] z(2) by (auto simp: fastlz_compress_def c_assert_def)
  then have "coding_data mo h counter_block 1008 w = None" for w
    using assms inp max by (simp add: coding_data_def)
  then show ?thesis using assms max coding_header_filled [of "header_size + 1008" h]
    by (simp add: app_data_coding_def header_size_def)
qed

theorem app_data_coding_overflow_witness:
  "app_data_coding (\<lambda>_ _. True) (Some sample_header) (Some counter_block) APP_MAX_CODING_DATA_LEN = None"
proof -
  have "compress_flag (property sample_header)" by code_simp
  then show ?thesis by (intro app_data_coding_overflow) simp_all
qed

text \<open>A packet cut off inside its header is read out of bounds; the length is compared
  with the limits only, and the subtraction of the header length wraps.\<close>

theorem app_data_decoding_truncated:
  assumes "inp \<noteq> []" "length inp \<le> APP_MAX_DECODING_DATA_LEN" "length inp < header_need (inp ! 0)"
  shows "app_data_decoding mo (Some inp) (length inp) h0 = None"
proof -
  have "decoding_header inp h0 = None"
    using decoding_header_need [of inp h0] assms(3) by (cases "decoding_header inp h0") fastforce+
  then show ?thesis using assms(1,2) by (simp add: app_data_decoding_def)
qed

theorem app_data_decoding_truncated_witness:
  "app_data_decoding (\<lambda>_ _. True) (Some [0x80, 1, 2]) 3 blank_header = None"
proof -
  have "length [0x80, 1, 2 :: u8] < header_need ([0x80, 1, 2 :: u8] ! 0)" by code_simp
  moreover have "length [0x80, 1, 2 :: u8] \<le> APP_MAX_DECODING_DATA_LEN" by code_simp
  ultimately show ?thesis using app_data_decoding_truncated [of "[0x80, 1, 2]"] by (simp add: numeral_3_eq_3)
qed

end
