(* ===== verification/DataPacket.thy ===== *)
theory DataPacket
  imports Prelude
begin

text \<open>
  The store of partly received packets, app/wiota\_manager/manager\_data\_packet.c.  The
  intrusive list of RT-Thread is the list of its nodes, each under its address; a pointer
  handed out is an address, and using one that is no longer in the list is a fault.  A
  segment is the block it owns and the length recorded for it.
\<close>

section \<open>State\<close>

record data_segment =
  seg_length :: nat
  seg_data :: "bytes option"

record data_packet =
  source_id :: u32
  packet_id :: u32
  seg_total :: nat
  seg_count :: nat
  segment :: "data_segment list option"

type_synonym packet_list = "(nat \<times> data_packet) list"

section \<open>Operations\<close>

definition recv_data_packet_init :: packet_list where
  "recv_data_packet_init = []"

definition recv_data_packet_isempty :: "packet_list \<Rightarrow> bool" where
  "recv_data_packet_isempty ps \<longleftrightarrow> ps = []"

definition recv_data_packet_len :: "packet_list \<Rightarrow> nat" where
  "recv_data_packet_len ps = length ps"

definition recv_data_packet_find :: "packet_list \<Rightarrow> u32 \<Rightarrow> u32 \<Rightarrow> nat option" where
  "recv_data_packet_find ps src pkt =
     map_option fst (find (\<lambda>(a, p). source_id p = src \<and> packet_id p = pkt) ps)"

text \<open>A node at the address \<open>a\<close> that rt\_malloc returned; \<open>seg_ok\<close> tells whether the
  second allocation succeeds.  Both failures end in RT\_ASSERT.\<close>

definition new_packet :: "bool \<Rightarrow> u32 \<Rightarrow> u32 \<Rightarrow> u8 \<Rightarrow> data_packet option" where
  "new_packet seg_ok src pkt n_seg = do {
     c_assert (unat n_seg > 0 \<longrightarrow> seg_ok);
     Some \<lparr>source_id = src, packet_id = pkt, seg_total = unat n_seg, seg_count = 0,
           segment = (if unat n_seg > 0
                      then Some (replicate (unat n_seg) \<lparr>seg_length = 0, seg_data = None\<rparr>) else None)\<rparr>
   }"

definition recv_data_packet_append ::
  "nat option \<Rightarrow> bool \<Rightarrow> packet_list \<Rightarrow> u32 \<Rightarrow> u32 \<Rightarrow> u8 \<Rightarrow> (packet_list \<times> nat) option" where
  "recv_data_packet_append addr seg_ok ps src pkt n_seg = do {
     a \<leftarrow> addr;
     p \<leftarrow> new_packet seg_ok src pkt n_seg;
     Some (ps @ [(a, p)], a)
   }"

definition recv_data_packet_prepend ::
  "nat option \<Rightarrow> bool \<Rightarrow> packet_list \<Rightarrow> u32 \<Rightarrow> u32 \<Rightarrow> u8 \<Rightarrow> (packet_list \<times> nat) option" where
  "recv_data_packet_prepend addr seg_ok ps src pkt n_seg = do {
     a \<leftarrow> addr;
     p \<leftarrow> new_packet seg_ok src pkt n_seg;
     Some ((a, p) # ps, a)
   }"

text \<open>The node behind a pointer.\<close>

definition packet_at :: "packet_list \<Rightarrow> nat option \<Rightarrow> data_packet option" where
  "packet_at ps pos = do { a \<leftarrow> pos; map_of ps a }"

definition packet_put :: "packet_list \<Rightarrow> nat \<Rightarrow> data_packet \<Rightarrow> packet_list" where
  "packet_put ps a p = map (\<lambda>(b, q). (b, if b = a then p else q)) ps"

definition add_segment :: "data_packet \<Rightarrow> u8 \<Rightarrow> bytes option \<Rightarrow> u16 \<Rightarrow> (data_packet \<times> int) option" where
  "add_segment p seg_id data len = do {
     segs \<leftarrow> segment p;
     case data of
       None \<Rightarrow> Some (p, 1)
     | Some d \<Rightarrow>
         if unat seg_id \<ge> seg_total p then Some (p, 1)
         else do {
           old \<leftarrow> mem_get segs (unat seg_id);
           let p' = p\<lparr>segment := Some (segs[unat seg_id := \<lparr>seg_length = unat len, seg_data = Some d\<rparr>])\<rparr>;
           Some (if seg_data old = None then p'\<lparr>seg_count := (seg_count p + 1) mod 256\<rparr> else p', 0)
         }
   }"

definition recv_data_packet_add_segment ::
  "packet_list \<Rightarrow> nat option \<Rightarrow> u8 \<Rightarrow> bytes option \<Rightarrow> u16 \<Rightarrow> (packet_list \<times> int) option" where
  "recv_data_packet_add_segment ps pos seg_id data len = do {
     a \<leftarrow> pos;
     p \<leftarrow> packet_at ps pos;
     (p', r) \<leftarrow> add_segment p seg_id data len;
     Some (packet_put ps a p', r)
   }"

text \<open>The bytes copied out of the segments, in order.\<close>

fun copy_segments :: "data_segment list \<Rightarrow> bytes option" where
  "copy_segments [] = Some []"
| "copy_segments (s # ss) = do {
     d \<leftarrow> (case seg_data s of None \<Rightarrow> if seg_length s = 0 then Some [] else None
                            | Some b \<Rightarrow> mem_read b 0 (seg_length s));
     r \<leftarrow> copy_segments ss;
     Some (d @ r)
   }"

text \<open>The return value with what was written to the output pointer, if anything, and to the
  length.\<close>

definition reader :: "bool \<Rightarrow> data_packet \<Rightarrow> (int \<times> bytes option \<times> nat) option" where
  "reader data_ok p = do {
     segs \<leftarrow> segment p;
     if seg_count p \<noteq> seg_total p then Some (1, None, 0)
     else do {
       c_assert (length segs = seg_total p);
       let len = (\<Sum>s \<leftarrow> segs. seg_length s);
       if len > 0 then do {
         c_assert data_ok;
         d \<leftarrow> copy_segments segs;
         Some (0, Some d, len)
       }
       else Some (0, None, 0)
     }
   }"

definition recv_data_packet_reader :: "bool \<Rightarrow> packet_list \<Rightarrow> nat option \<Rightarrow> (int \<times> bytes option \<times> nat) option" where
  "recv_data_packet_reader data_ok ps pos = do { p \<leftarrow> packet_at ps pos; reader data_ok p }"

definition recv_data_packet_remove :: "packet_list \<Rightarrow> nat option \<Rightarrow> packet_list option" where
  "recv_data_packet_remove ps pos = do {
     a \<leftarrow> pos;
     p \<leftarrow> packet_at ps pos;
     Some (filter (\<lambda>(b, q). b \<noteq> a) ps)
   }"

definition recv_data_packet_clear :: "packet_list \<Rightarrow> packet_list" where
  "recv_data_packet_clear ps = []"

section \<open>Well-formed packets\<close>

text \<open>
  A packet has as many segments as announced, each filled one owns at least the bytes
  recorded for it, and the counter counts the filled ones.
\<close>

definition segs_ok :: "nat \<Rightarrow> nat \<Rightarrow> data_segment list \<Rightarrow> bool" where
  "segs_ok n k ss \<longleftrightarrow> length ss = n \<and> n < 256 \<and> k = length (filter (\<lambda>s. seg_data s \<noteq> None) ss) \<and>
     (\<forall>s \<in> set ss. case seg_data s of None \<Rightarrow> seg_length s = 0 | Some d \<Rightarrow> seg_length s \<le> length d)"

definition packet_ok :: "data_packet \<Rightarrow> bool" where
  "packet_ok p \<longleftrightarrow> (case segment p of None \<Rightarrow> seg_total p = 0 \<and> seg_count p = 0
     | Some ss \<Rightarrow> 0 < seg_total p \<and> segs_ok (seg_total p) (seg_count p) ss)"

definition packets_ok :: "packet_list \<Rightarrow> bool" where
  "packets_ok ps \<longleftrightarrow> distinct (map fst ps) \<and> (\<forall>(a, p) \<in> set ps. packet_ok p)"

lemma unat8_lt [simp]: "unat (w :: u8) < 256"
  using unsigned_less [of w] by simp

lemma new_packet_ok: "new_packet seg_ok src pkt n = Some p \<Longrightarrow> packet_ok p"
  by (auto simp: new_packet_def packet_ok_def segs_ok_def bind_eq_Some_conv)

lemma filter_update:
  assumes "i < length xs"
  shows "length (filter P (xs[i := x])) + (if P (xs ! i) then 1 else 0) = length (filter P xs) + (if P x then 1 else 0)"
  using assms
proof (induction xs arbitrary: i)
  case (Cons y ys)
  then show ?case using Cons.IH [of "i - 1"] by (cases i) auto
qed simp

lemma segs_ok_update:
  assumes "segs_ok n k ss" "i < n" "l \<le> length d"
  shows "segs_ok n (if seg_data (ss ! i) = None then k + 1 else k) (ss[i := \<lparr>seg_length = l, seg_data = Some d\<rparr>])"
  using assms filter_update [of i ss "\<lambda>s. seg_data s \<noteq> None" "\<lparr>seg_length = l, seg_data = Some d\<rparr>"]
  by (auto simp: segs_ok_def dest!: set_update_subset_insert [THEN subsetD])

lemma segs_ok_count: "segs_ok n k ss \<Longrightarrow> k \<le> n"
  by (auto simp: segs_ok_def)

lemma segs_ok_room: "segs_ok n k ss \<Longrightarrow> i < n \<Longrightarrow> seg_data (ss ! i) = None \<Longrightarrow> k < n"
proof -
  assume *: "segs_ok n k ss" "i < n" "seg_data (ss ! i) = None"
  then have "length (filter (\<lambda>s. seg_data s \<noteq> None) ss) < length ss"
    by (intro length_filter_less [of "ss ! i"]) (auto simp: segs_ok_def)
  then show "k < n" using *(1) by (simp add: segs_ok_def)
qed

lemma add_segment_spec:
  assumes "segment p = Some ss" "packet_ok p" "unat len \<le> length d"
  shows "add_segment p i (Some d) len =
    (if unat i < seg_total p
     then Some (p\<lparr>segment := Some (ss[unat i := \<lparr>seg_length = unat len, seg_data = Some d\<rparr>]),
                  seg_count := (if seg_data (ss ! unat i) = None then seg_count p + 1 else seg_count p)\<rparr>, 0)
     else Some (p, 1))"
proof (cases "unat i < seg_total p")
  case True
  have ok: "segs_ok (seg_total p) (seg_count p) ss" using assms(1,2) by (simp add: packet_ok_def)
  then have "seg_data (ss ! unat i) = None \<Longrightarrow> (seg_count p + 1) mod 256 = seg_count p + 1"
    using segs_ok_room [OF ok True] by (simp add: segs_ok_def)
  then show ?thesis using True assms(1) ok by (auto simp: add_segment_def mem_get_def segs_ok_def)
next
  case False
  then show ?thesis using assms(1) by (simp add: add_segment_def)
qed

lemma add_segment_ok:
  assumes "add_segment p i data len = Some (p', r)" "packet_ok p" "\<And>d. data = Some d \<Longrightarrow> unat len \<le> length d"
  shows "packet_ok p'"
proof -
  obtain ss where ss: "segment p = Some ss" using assms(1) by (auto simp: add_segment_def bind_eq_Some_conv)
  show ?thesis
  proof (cases data)
    case None
    then show ?thesis using assms(1,2) ss by (simp add: add_segment_def)
  next
    case (Some d)
    show ?thesis
    proof (cases "unat i < seg_total p")
      case True
      have "segs_ok (seg_total p) (seg_count p) ss" using assms(2) ss by (simp add: packet_ok_def)
      from segs_ok_update [OF this True assms(3) [OF Some]] show ?thesis
        using assms(1) add_segment_spec [OF ss assms(2) assms(3) [OF Some]] Some True assms(2) ss
        by (auto simp: packet_ok_def)
    next
      case False
      then show ?thesis using assms(1,2) add_segment_spec [OF ss assms(2) assms(3) [OF Some]] Some by simp
    qed
  qed
qed

section \<open>Reassembly\<close>

text \<open>The segments received so far, by number.\<close>

definition received :: "data_packet \<Rightarrow> nat \<Rightarrow> bytes option" where
  "received p i = (case segment p of None \<Rightarrow> None
     | Some ss \<Rightarrow> if i < length ss then map_option (take (seg_length (ss ! i))) (seg_data (ss ! i)) else None)"

lemma segs_full:
  assumes "segs_ok n n ss" "i < n"
  shows "seg_data (ss ! i) \<noteq> None"
  using segs_ok_room [OF assms] by blast

lemma copy_segments_full:
  "\<forall>s \<in> set ss. case seg_data s of None \<Rightarrow> False | Some d \<Rightarrow> seg_length s \<le> length d \<Longrightarrow>
     copy_segments ss = Some (concat (map (\<lambda>s. take (seg_length s) (the (seg_data s))) ss)) \<and>
     length (concat (map (\<lambda>s. take (seg_length s) (the (seg_data s))) ss)) = (\<Sum>s \<leftarrow> ss. seg_length s)"
  by (induction ss) (auto simp: mem_read_def split: option.splits)

lemma reader_spec:
  assumes "packet_ok p" "segment p \<noteq> None"
  shows "reader True p =
    (if \<forall>i < seg_total p. received p i \<noteq> None
     then let d = concat (map (the \<circ> received p) [0..<seg_total p]) in
       Some (0, if d = [] then None else Some d, length d)
     else Some (1, None, 0))"
proof -
  obtain ss where ss: "segment p = Some ss" "segs_ok (seg_total p) (seg_count p) ss"
    using assms by (auto simp: packet_ok_def)
  then have len: "length ss = seg_total p" by (simp add: segs_ok_def)
  have rec: "received p i = map_option (take (seg_length (ss ! i))) (seg_data (ss ! i))" if "i < seg_total p" for i
    using that ss len by (simp add: received_def)
  have full: "(\<forall>i < seg_total p. received p i \<noteq> None) \<longleftrightarrow> seg_count p = seg_total p"
  proof
    assume "\<forall>i < seg_total p. received p i \<noteq> None"
    then have "\<forall>s \<in> set ss. seg_data s \<noteq> None" using rec len by (fastforce simp: in_set_conv_nth)
    then show "seg_count p = seg_total p" using ss(2) by (simp add: segs_ok_def)
  next
    assume "seg_count p = seg_total p"
    then show "\<forall>i < seg_total p. received p i \<noteq> None" using segs_full ss(2) rec by fastforce
  qed
  show ?thesis
  proof (cases "seg_count p = seg_total p")
    case True
    then have "\<forall>s \<in> set ss. seg_data s \<noteq> None" using full rec len by (fastforce simp: in_set_conv_nth)
    then have all: "\<forall>s \<in> set ss. case seg_data s of None \<Rightarrow> False | Some d \<Rightarrow> seg_length s \<le> length d"
      using ss(2) by (fastforce simp: segs_ok_def split: option.splits)
    define d where "d = concat (map (the \<circ> received p) [0..<seg_total p])"
    have "map (\<lambda>s. take (seg_length s) (the (seg_data s))) ss = map (the \<circ> received p) [0..<seg_total p]"
      using rec len full True by (intro nth_equalityI) (auto simp: option.map_sel)
    then have "copy_segments ss = Some d" "(\<Sum>s \<leftarrow> ss. seg_length s) = length d"
      using copy_segments_full [OF all] by (simp_all only: d_def)
    moreover have "\<forall>i < seg_total p. received p i \<noteq> None" using full True by blast
    ultimately show ?thesis
      unfolding d_def [symmetric] using True ss(1) len by (simp add: reader_def Let_def)
  next
    case False
    then have no: "\<not> (\<forall>i < seg_total p. received p i \<noteq> None)" using full by blast
    show ?thesis unfolding if_not_P [OF no] using ss(1) False by (simp add: reader_def)
  qed
qed


text \<open>The arrival of a segment, and its effect on the segments received so far.\<close>

definition arrival :: "u8 \<times> bytes \<Rightarrow> data_packet \<Rightarrow> data_packet option" where
  "arrival c p = map_option fst (add_segment p (fst c) (Some (snd c)) (of_nat (length (snd c))))"

definition collect :: "nat \<Rightarrow> u8 \<times> bytes \<Rightarrow> (nat \<rightharpoonup> bytes) \<Rightarrow> nat \<rightharpoonup> bytes" where
  "collect n c m = (if unat (fst c) < n then m(unat (fst c) \<mapsto> snd c) else m)"

definition assembles :: "nat \<Rightarrow> data_packet \<Rightarrow> (nat \<rightharpoonup> bytes) \<Rightarrow> bool" where
  "assembles n p m \<longleftrightarrow> packet_ok p \<and> segment p \<noteq> None \<and> seg_total p = n \<and> received p = m"

text \<open>A segment stands at the start of a block, which may be longer.\<close>

lemma add_segment_assembles:
  assumes "assembles n p m" "k \<le> length b" "k < 65536"
  shows "\<exists>p' r. add_segment p i (Some b) (of_nat k) = Some (p', r) \<and> assembles n p' (collect n (i, take k b) m) \<and>
    source_id p' = source_id p \<and> packet_id p' = packet_id p"
proof -
  obtain ss where ss: "segment p = Some ss" "packet_ok p" "seg_total p = n" "received p = m" "length ss = n"
    using assms(1) by (auto simp: assembles_def packet_ok_def segs_ok_def)
  have len: "unat (of_nat k :: u16) = k" using assms(3) by (simp add: unat_of_nat16)
  have spec: "add_segment p i (Some b) (of_nat k) =
    (if unat i < n
     then Some (p\<lparr>segment := Some (ss[unat i := \<lparr>seg_length = k, seg_data = Some b\<rparr>]),
                  seg_count := (if seg_data (ss ! unat i) = None then seg_count p + 1 else seg_count p)\<rparr>, 0)
     else Some (p, 1))"
    using add_segment_spec [OF ss(1,2), of "of_nat k" b i] ss(3) len assms(2) by simp
  show ?thesis
  proof (cases "unat i < n")
    case True
    let ?p = "p\<lparr>segment := Some (ss[unat i := \<lparr>seg_length = k, seg_data = Some b\<rparr>]),
      seg_count := (if seg_data (ss ! unat i) = None then seg_count p + 1 else seg_count p)\<rparr>"
    have "packet_ok ?p"
      using add_segment_ok [OF _ ss(2), of i "Some b" "of_nat k" ?p 0] spec True len assms(2) by simp
    moreover have "received ?p = m(unat i \<mapsto> take k b)"
      unfolding ss(4) [symmetric] using ss(1,3,5) True by (auto simp: received_def nth_list_update)
    ultimately show ?thesis using spec True ss(3) by (simp add: assembles_def collect_def)
  next
    case False
    then show ?thesis using spec assms(1) by (simp add: collect_def)
  qed
qed

lemma arrival_assembles:
  assumes "assembles n p m" "length (snd c) < 65536"
  shows "\<exists>p'. arrival c p = Some p' \<and> assembles n p' (collect n c m)"
  using add_segment_assembles [OF assms(1) order_refl assms(2), of "fst c"] by (auto simp: arrival_def)

interpretation dps: simulation "assembles n" "\<lambda>c _. length (snd c) < 65536" arrival "collect n" for n
  by unfold_locales (rule arrival_assembles)

lemma new_packet_assembles:
  assumes "0 < unat n"
  shows "\<exists>p. new_packet True src pkt n = Some p \<and> assembles (unat n) p Map.empty"
  using assms new_packet_ok [of True src pkt n]
  by (auto simp: new_packet_def assembles_def received_def)

section \<open>The store\<close>

lemma packet_at_member: "a \<in> fst ` set ps \<Longrightarrow> \<exists>p. packet_at ps (Some a) = Some p"
  by (induction ps) (auto simp: packet_at_def)

lemma packet_put_keys [simp]: "map fst (packet_put ps a p) = map fst ps"
  by (auto simp: packet_put_def)

lemma packets_ok_put: "packets_ok ps \<Longrightarrow> packet_ok p \<Longrightarrow> packets_ok (packet_put ps a p)"
  unfolding packets_ok_def packet_put_keys by (auto simp: packet_put_def)

lemma map_of_packet_put: "map_of (packet_put ps a p) b = (if b = a \<and> a \<in> fst ` set ps then Some p else map_of ps b)"
proof (induction ps)
  case (Cons x ps)
  obtain k v where "x = (k, v)" by (cases x)
  then show ?case using Cons.IH by (force simp: packet_put_def)
qed (simp add: packet_put_def)

lemma packet_at_ok: "packets_ok ps \<Longrightarrow> packet_at ps pos = Some p \<Longrightarrow> packet_ok p"
  by (auto simp: packets_ok_def packet_at_def bind_eq_Some_conv dest!: map_of_SomeD)

text \<open>A packet of three segments, received out of order with a repetition and a stray one.\<close>

definition sample_arrivals :: "(u8 \<times> bytes) list" where
  "sample_arrivals = [(2, [50]), (0, [10, 11]), (9, [99]), (1, [20]), (0, [12, 13])]"

lemma sample_arrivals_len: "(i, d) \<in> set sample_arrivals \<Longrightarrow> length d < 65536"
  by (auto simp: sample_arrivals_def)

section \<open>Properties\<close>

text \<open>C29: A packet is reassembled whatever the order of its segments.  Segments of a new
  packet may arrive in any order, more than once and with numbers out of range; reading
  answers 1 until every number has arrived, then 0 with the segments in the order of their
  numbers, the last arrival of each.\<close>

theorem packet_reassembly:
  assumes "0 < unat n" "\<And>i d. (i, d) \<in> set arrivals \<Longrightarrow> length d < 65536"
  shows "\<exists>p p'. new_packet True src pkt n = Some p \<and> run_steps arrival arrivals p = Some p' \<and>
    (let m = fold (collect (unat n)) arrivals Map.empty in
     reader True p' =
      (if \<forall>i < unat n. m i \<noteq> None
       then let d = concat (map (the \<circ> m) [0..<unat n]) in Some (0, if d = [] then None else Some d, length d)
       else Some (1, None, 0)))"
proof -
  obtain p where p: "new_packet True src pkt n = Some p" "assembles (unat n) p Map.empty"
    using new_packet_assembles [OF assms(1)] by blast
  obtain p' where "run_steps arrival arrivals p = Some p'"
    "assembles (unat n) p' (fold (collect (unat n)) arrivals Map.empty)"
    using dps.run_total [OF p(2), of arrivals] assms(2) by fastforce
  moreover from this have "reader True p' = (let m = fold (collect (unat n)) arrivals Map.empty in
      (if \<forall>i < unat n. m i \<noteq> None
       then let d = concat (map (the \<circ> m) [0..<unat n]) in Some (0, if d = [] then None else Some d, length d)
       else Some (1, None, 0)))"
    using reader_spec [of p'] by (simp add: assembles_def Let_def)
  ultimately show ?thesis using p(1) by (auto simp: Let_def)
qed

theorem packet_reassembly_witness:
  "\<exists>p p'. new_packet True 5 1 3 = Some p \<and> run_steps arrival sample_arrivals p = Some p' \<and>
     reader True p' = Some (0, Some [12, 13, 20, 50], 4)"
proof -
  let ?n = "unat (3 :: u8)"
  define m where "m = fold (collect ?n) sample_arrivals Map.empty"
  have m: "m 0 = Some [12, 13]" "m 1 = Some [20]" "m 2 = Some [50]" unfolding m_def by code_simp+
  have all: "\<forall>i < ?n. m i \<noteq> None"
  proof (intro allI impI)
    fix i assume "i < ?n"
    then consider "i = 0" | "i = 1" | "i = 2" by fastforce
    then show "m i \<noteq> None" using m by cases auto
  qed
  have "[0..<?n] = [0, 1, 2]" by code_simp
  then have d: "concat (map (the \<circ> m) [0..<?n]) = [12, 13, 20, 50]" using m by simp
  have "0 < ?n" by simp
  then obtain p p' where p: "new_packet True 5 1 3 = Some p" "run_steps arrival sample_arrivals p = Some p'"
    "let m = fold (collect ?n) sample_arrivals Map.empty in reader True p' =
      (if \<forall>i < ?n. m i \<noteq> None
       then let d = concat (map (the \<circ> m) [0..<?n]) in Some (0, if d = [] then None else Some d, length d)
       else Some (1, None, 0))"
    using packet_reassembly [of 3 sample_arrivals 5 1] sample_arrivals_len by blast
  have "reader True p' = Some (0, Some [12, 13, 20, 50], 4)"
    using p(3) unfolding m_def [symmetric] Let_def d if_P [OF all] by simp
  then show ?thesis using p(1,2) by blast
qed

text \<open>C30: The store stays well formed.  Every operation on a store of well-formed packets at
  distinct addresses leaves one behind: counters count the filled segments, every filled
  segment owns its bytes, and no node is listed twice.\<close>

theorem packets_invariant:
  assumes "packets_ok ps"
  shows "(\<forall>a seg_ok src pkt n. a \<notin> fst ` set ps \<longrightarrow>
      (case recv_data_packet_append (Some a) seg_ok ps src pkt n of Some (qs, _) \<Rightarrow> packets_ok qs | None \<Rightarrow> \<not> seg_ok) \<and>
      (case recv_data_packet_prepend (Some a) seg_ok ps src pkt n of Some (qs, _) \<Rightarrow> packets_ok qs | None \<Rightarrow> \<not> seg_ok)) \<and>
    (\<forall>a i d len. a \<in> fst ` set ps \<and> unat len \<le> length d \<longrightarrow>
      (case recv_data_packet_add_segment ps (Some a) i (Some d) len of Some (qs, _) \<Rightarrow> packets_ok qs
       | None \<Rightarrow> segment (the (packet_at ps (Some a))) = None)) \<and>
    (\<forall>a. a \<in> fst ` set ps \<longrightarrow> (case recv_data_packet_remove ps (Some a) of Some qs \<Rightarrow> packets_ok qs | None \<Rightarrow> False)) \<and>
    packets_ok (recv_data_packet_clear ps) \<and> packets_ok recv_data_packet_init"
proof (intro conjI allI impI)
  fix a seg_ok src pkt n assume a: "a \<notin> fst ` set ps"
  show "case recv_data_packet_append (Some a) seg_ok ps src pkt n of Some (qs, _) \<Rightarrow> packets_ok qs | None \<Rightarrow> \<not> seg_ok"
    using assms a new_packet_ok [of seg_ok src pkt n]
    by (cases "new_packet seg_ok src pkt n") (auto simp: recv_data_packet_append_def packets_ok_def new_packet_def c_assert_def)
  show "case recv_data_packet_prepend (Some a) seg_ok ps src pkt n of Some (qs, _) \<Rightarrow> packets_ok qs | None \<Rightarrow> \<not> seg_ok"
    using assms a new_packet_ok [of seg_ok src pkt n]
    by (cases "new_packet seg_ok src pkt n") (auto simp: recv_data_packet_prepend_def packets_ok_def new_packet_def c_assert_def)
next
  fix a i and d :: bytes and len assume "a \<in> fst ` set ps \<and> unat (len :: u16) \<le> length d"
  then obtain p where p: "packet_at ps (Some a) = Some p" and len: "unat len \<le> length d"
    using packet_at_member [of a ps] by blast
  show "case recv_data_packet_add_segment ps (Some a) i (Some d) len of Some (qs, _) \<Rightarrow> packets_ok qs
    | None \<Rightarrow> segment (the (packet_at ps (Some a))) = None"
  proof (cases "segment p")
    case None
    then show ?thesis using p by (simp add: recv_data_packet_add_segment_def add_segment_def)
  next
    case (Some ss)
    obtain p' r where r: "add_segment p i (Some d) len = Some (p', r)"
      using add_segment_spec [OF Some packet_at_ok [OF assms p] len, of i] by (cases "unat i < seg_total p") auto
    then have "packet_ok p'" using add_segment_ok [OF r packet_at_ok [OF assms p]] len by simp
    then show ?thesis using p r packets_ok_put [OF assms] by (simp add: recv_data_packet_add_segment_def)
  qed
next
  fix a assume "a \<in> fst ` set ps"
  then obtain p where "packet_at ps (Some a) = Some p" using packet_at_member by blast
  then show "case recv_data_packet_remove ps (Some a) of Some qs \<Rightarrow> packets_ok qs | None \<Rightarrow> False"
    using assms by (auto simp: recv_data_packet_remove_def packets_ok_def distinct_map inj_on_def)
qed (simp_all add: packets_ok_def recv_data_packet_clear_def recv_data_packet_init_def)

theorem packets_invariant_witness:
  "case recv_data_packet_append (Some 64) True [] 5 1 3 of Some (qs, _) \<Rightarrow> packets_ok qs | None \<Rightarrow> False"
proof -
  have "packets_ok []" by (simp add: packets_ok_def)
  from conjunct1 [OF packets_invariant [OF this], rule_format, of 64 True 5 1 3]
  show ?thesis by (auto split: option.splits)
qed

end
