(* ===== verification/ManagerList.thy ===== *)
theory ManagerList
  imports Prelude
begin

text \<open>
  The circular doubly linked list of app/platfrom/manager\_list.c, on an explicit heap.
  A node holds the address of its data block and of its neighbours; the list head is a
  node of its own.  A callback sees the heap and a node and answers whether it returned
  0.  Loops are partial functions: \<^term>\<open>None\<close> is a fault or a list that never comes back
  to its head.
\<close>

section \<open>Nodes and blocks\<close>

record mnode =
  mn_data :: nat
  mn_next :: nat
  mn_pre :: nat

record 'd mheap =
  mh_nodes :: "nat \<rightharpoonup> mnode"
  mh_blocks :: "nat \<rightharpoonup> 'd"

definition set_next :: "'d mheap \<Rightarrow> nat \<Rightarrow> nat \<Rightarrow> 'd mheap option" where
  "set_next h p q = map_option (\<lambda>n. h\<lparr>mh_nodes := (mh_nodes h)(p \<mapsto> n\<lparr>mn_next := q\<rparr>)\<rparr>) (mh_nodes h p)"

definition set_pre :: "'d mheap \<Rightarrow> nat \<Rightarrow> nat \<Rightarrow> 'd mheap option" where
  "set_pre h p q = map_option (\<lambda>n. h\<lparr>mh_nodes := (mh_nodes h)(p \<mapsto> n\<lparr>mn_pre := q\<rparr>)\<rparr>) (mh_nodes h p)"

definition free_node :: "'d mheap \<Rightarrow> nat \<Rightarrow> 'd mheap option" where
  "free_node h p = map_option (\<lambda>_. h\<lparr>mh_nodes := (mh_nodes h)(p := None)\<rparr>) (mh_nodes h p)"

text \<open>rt\_free of a data block; the null pointer is ignored.\<close>

definition free_block :: "'d mheap \<Rightarrow> nat \<Rightarrow> 'd mheap option" where
  "free_block h b =
     (if b = 0 then Some h
      else map_option (\<lambda>_. h\<lparr>mh_blocks := (mh_blocks h)(b := None)\<rparr>) (mh_blocks h b))"

section \<open>Operations\<close>

definition init_manager_list :: "'d mheap \<Rightarrow> nat \<Rightarrow> 'd mheap option" where
  "init_manager_list h l = do {
     h1 \<leftarrow> set_next h l l;
     set_pre h1 l l
   }"

partial_function (option) count_loop ::
  "('d mheap \<Rightarrow> nat \<Rightarrow> bool option) \<Rightarrow> 'd mheap \<Rightarrow> nat \<Rightarrow> nat \<Rightarrow> nat \<Rightarrow> nat option" where
  "count_loop cb h l p count =
     (if p = l then Some count
      else do {
        c \<leftarrow> cb h p;
        n \<leftarrow> mh_nodes h p;
        count_loop cb h l (mn_next n) (if c then count + 1 else count)
      })"

definition count_the_manager_list ::
  "('d mheap \<Rightarrow> nat \<Rightarrow> bool option) \<Rightarrow> 'd mheap \<Rightarrow> nat \<Rightarrow> nat option" where
  "count_the_manager_list cb h l = do { n \<leftarrow> mh_nodes h l; count_loop cb h l (mn_next n) 0 }"

definition count_manager_list :: "'d mheap \<Rightarrow> nat \<Rightarrow> nat option" where
  "count_manager_list h l = count_the_manager_list (\<lambda>_ _. Some True) h l"

text \<open>
  \<open>a\<close> is the result of rt\_malloc, a fresh address or \<^term>\<open>None\<close>.  The insertion at
  the head returns silently when the node cannot be allocated, that at the tail faults.
\<close>

definition new_node :: "'d mheap \<Rightarrow> nat \<Rightarrow> nat \<Rightarrow> 'd mheap" where
  "new_node h a d = h\<lparr>mh_nodes := (mh_nodes h)(a \<mapsto> \<lparr>mn_data = d, mn_next = 0, mn_pre = 0\<rparr>)\<rparr>"

definition insert_only :: "'d mheap \<Rightarrow> nat \<Rightarrow> nat \<Rightarrow> 'd mheap option" where
  "insert_only h l node = do {
     h1 \<leftarrow> set_next h l node;
     h2 \<leftarrow> set_pre h1 l node;
     h3 \<leftarrow> set_next h2 node l;
     set_pre h3 node l
   }"

definition insert_head_manager_list :: "nat option \<Rightarrow> 'd mheap \<Rightarrow> nat \<Rightarrow> nat \<Rightarrow> 'd mheap option" where
  "insert_head_manager_list a h l d =
     (case a of
        None \<Rightarrow> Some h
      | Some node \<Rightarrow> do {
          let h0 = new_node h node d;
          head \<leftarrow> mh_nodes h0 l;
          if mn_next head = l then insert_only h0 l node
          else do {
            h1 \<leftarrow> set_next h0 node (mn_next head);
            h2 \<leftarrow> set_pre h1 node l;
            h3 \<leftarrow> set_pre h2 (mn_next head) node;
            set_next h3 l node
          }
        })"

definition insert_tail_manager_list :: "nat option \<Rightarrow> 'd mheap \<Rightarrow> nat \<Rightarrow> nat \<Rightarrow> 'd mheap option" where
  "insert_tail_manager_list a h l d = do {
     node \<leftarrow> a;
     let h0 = new_node h node d;
     head \<leftarrow> mh_nodes h0 l;
     if mn_next head = l then insert_only h0 l node
     else do {
       let old_tail = mn_pre head;
       h1 \<leftarrow> set_next h0 old_tail node;
       h2 \<leftarrow> set_pre h1 node old_tail;
       h3 \<leftarrow> set_next h2 node l;
       set_pre h3 l node
     }
   }"

definition get_head_list :: "'d mheap \<Rightarrow> nat \<Rightarrow> nat option option" where
  "get_head_list h l = map_option (\<lambda>n. if mn_next n \<noteq> l then Some (mn_next n) else None) (mh_nodes h l)"

text \<open>The search all the operations on single nodes begin with; inside, \<^term>\<open>None\<close> is
  RT\_NULL.\<close>

partial_function (option) query_loop ::
  "('d mheap \<Rightarrow> nat \<Rightarrow> bool option) \<Rightarrow> 'd mheap \<Rightarrow> nat \<Rightarrow> nat \<Rightarrow> nat option option" where
  "query_loop cb h l p =
     (if p = l then Some None
      else do {
        c \<leftarrow> cb h p;
        if c then Some (Some p)
        else do { n \<leftarrow> mh_nodes h p; query_loop cb h l (mn_next n) }
      })"

definition query_head_list ::
  "('d mheap \<Rightarrow> nat \<Rightarrow> bool option) option \<Rightarrow> 'd mheap \<Rightarrow> nat \<Rightarrow> nat option option" where
  "query_head_list cb h l = do {
     n \<leftarrow> mh_nodes h l;
     query_loop (case cb of None \<Rightarrow> \<lambda>_ _. Some False | Some f \<Rightarrow> f) h l (mn_next n)
   }"

definition unlink :: "'d mheap \<Rightarrow> nat \<Rightarrow> 'd mheap option" where
  "unlink h p = do {
     n \<leftarrow> mh_nodes h p;
     h1 \<leftarrow> set_next h (mn_pre n) (mn_next n);
     n1 \<leftarrow> mh_nodes h1 p;
     set_pre h1 (mn_next n1) (mn_pre n1)
   }"

definition remove_head_manager_node ::
  "nat option \<Rightarrow> 'd mheap \<Rightarrow> nat \<Rightarrow> nat \<Rightarrow> ('d mheap \<times> int) option" where
  "remove_head_manager_node a h l parament = do {
     r \<leftarrow> query_head_list (Some (\<lambda>_ p. Some (parament = p))) h l;
     case r of
       None \<Rightarrow> Some (h, 1)
     | Some p \<Rightarrow> do {
         n \<leftarrow> mh_nodes h p;
         h1 \<leftarrow> set_pre h (mn_next n) (mn_pre n);
         n1 \<leftarrow> mh_nodes h1 p;
         h2 \<leftarrow> set_next h1 (mn_pre n1) (mn_next n1);
         n2 \<leftarrow> mh_nodes h2 p;
         h3 \<leftarrow> insert_head_manager_list a h2 l (mn_data n2);
         h4 \<leftarrow> free_node h3 p;
         Some (h4, 0)
       }
   }"

definition del_manager_node ::
  "('d mheap \<Rightarrow> nat \<Rightarrow> bool option) \<Rightarrow> 'd mheap \<Rightarrow> nat \<Rightarrow> ('d mheap \<times> int) option" where
  "del_manager_node cb h l = do {
     r \<leftarrow> query_head_list (Some cb) h l;
     case r of
       None \<Rightarrow> Some (h, 1)
     | Some p \<Rightarrow> do {
         h1 \<leftarrow> unlink h p;
         n \<leftarrow> mh_nodes h1 p;
         h2 \<leftarrow> free_block h1 (mn_data n);
         h3 \<leftarrow> free_node h2 p;
         Some (h3, 0)
       }
   }"

definition remove_manager_node ::
  "('d mheap \<Rightarrow> nat \<Rightarrow> bool option) \<Rightarrow> 'd mheap \<Rightarrow> nat \<Rightarrow> ('d mheap \<times> int) option" where
  "remove_manager_node cb h l = do {
     r \<leftarrow> query_head_list (Some cb) h l;
     case r of
       None \<Rightarrow> Some (h, 1)
     | Some p \<Rightarrow> do {
         h1 \<leftarrow> unlink h p;
         h2 \<leftarrow> free_node h1 p;
         Some (h2, 0)
       }
   }"

text \<open>A modifying callback returns the heap it leaves.\<close>

partial_function (option) modify_loop ::
  "('d mheap \<Rightarrow> nat \<Rightarrow> ('d mheap \<times> bool) option) \<Rightarrow> 'd mheap \<Rightarrow> nat \<Rightarrow> nat \<Rightarrow> ('d mheap \<times> int) option" where
  "modify_loop cb h l p =
     (if p = l then Some (h, 1)
      else do {
        (h1, c) \<leftarrow> cb h p;
        if c then Some (h1, 0)
        else do { n \<leftarrow> mh_nodes h1 p; modify_loop cb h1 l (mn_next n) }
      })"

definition modify_manager_node ::
  "('d mheap \<Rightarrow> nat \<Rightarrow> ('d mheap \<times> bool) option) option \<Rightarrow> 'd mheap \<Rightarrow> nat \<Rightarrow> ('d mheap \<times> int) option" where
  "modify_manager_node cb h l = do {
     n \<leftarrow> mh_nodes h l;
     modify_loop (case cb of None \<Rightarrow> \<lambda>h _. Some (h, False) | Some f \<Rightarrow> f) h l (mn_next n)
   }"

partial_function (option) clean_loop :: "'d mheap \<Rightarrow> nat \<Rightarrow> nat \<Rightarrow> 'd mheap option" where
  "clean_loop h l p =
     (if p = l then Some h
      else do {
        n \<leftarrow> mh_nodes h p;
        h1 \<leftarrow> free_block h (mn_data n);
        h2 \<leftarrow> free_node h1 p;
        clean_loop h2 l (mn_next n)
      })"

definition clean_manager_list :: "'d mheap \<Rightarrow> nat \<Rightarrow> 'd mheap option" where
  "clean_manager_list h l = do {
     n \<leftarrow> mh_nodes h l;
     h1 \<leftarrow> clean_loop h l (mn_next n);
     init_manager_list h1 l
   }"

partial_function (option) test_loop ::
  "('d mheap \<Rightarrow> nat \<Rightarrow> 'd mheap option) \<Rightarrow> 'd mheap \<Rightarrow> nat \<Rightarrow> nat \<Rightarrow> 'd mheap option" where
  "test_loop cb h l p =
     (if p = l then Some h
      else do {
        h1 \<leftarrow> cb h p;
        n \<leftarrow> mh_nodes h1 p;
        test_loop cb h1 l (mn_next n)
      })"

definition test_head_list :: "('d mheap \<Rightarrow> nat \<Rightarrow> 'd mheap option) \<Rightarrow> 'd mheap \<Rightarrow> nat \<Rightarrow> 'd mheap option" where
  "test_head_list cb h l = do { n \<leftarrow> mh_nodes h l; test_loop cb h l (mn_next n) }"

section \<open>Segments of a list\<close>

definition nx :: "'d mheap \<Rightarrow> nat \<Rightarrow> nat option" where
  "nx h p = map_option mn_next (mh_nodes h p)"

definition pv :: "'d mheap \<Rightarrow> nat \<Rightarrow> nat option" where
  "pv h p = map_option mn_pre (mh_nodes h p)"

definition dt :: "'d mheap \<Rightarrow> nat \<Rightarrow> nat option" where
  "dt h p = map_option mn_data (mh_nodes h p)"

definition linked :: "'d mheap \<Rightarrow> nat \<Rightarrow> nat \<Rightarrow> bool" where
  "linked h p q \<longleftrightarrow> nx h p = Some q \<and> pv h q = Some p"

fun seg :: "'d mheap \<Rightarrow> nat \<Rightarrow> nat list \<Rightarrow> nat \<Rightarrow> bool" where
  "seg h a [] b \<longleftrightarrow> linked h a b"
| "seg h a (x # xs) b \<longleftrightarrow> linked h a x \<and> seg h x xs b"

text \<open>The list headed by \<open>l\<close> consists of the nodes \<open>ps\<close>, in this order.\<close>

definition dlist :: "'d mheap \<Rightarrow> nat \<Rightarrow> nat list \<Rightarrow> bool" where
  "dlist h l ps \<longleftrightarrow> distinct (l # ps) \<and> seg h l ps l"

text \<open>How the writes act on the three views.\<close>

definition viewed :: "'d mheap \<Rightarrow> (nat \<rightharpoonup> nat) \<Rightarrow> (nat \<rightharpoonup> nat) \<Rightarrow> (nat \<rightharpoonup> nat) \<Rightarrow> (nat \<rightharpoonup> 'd) \<Rightarrow> bool" where
  "viewed h f g d b \<longleftrightarrow> nx h = f \<and> pv h = g \<and> dt h = d \<and> mh_blocks h = b"

lemma viewed_self: "viewed h (nx h) (pv h) (dt h) (mh_blocks h)"
  by (simp add: viewed_def)

lemma viewed_node:
  assumes "viewed h f g d b" "p \<in> dom f"
  shows "\<exists>n. mh_nodes h p = Some n \<and> f p = Some (mn_next n) \<and> g p = Some (mn_pre n) \<and> d p = Some (mn_data n)"
  using assms by (auto simp: viewed_def nx_def pv_def dt_def)

lemma set_next_viewed:
  assumes "viewed h f g d b" "p \<in> dom f"
  shows "\<exists>h'. set_next h p q = Some h' \<and> viewed h' (f(p \<mapsto> q)) g d b"
  using assms viewed_node [OF assms] by (auto simp: viewed_def set_next_def nx_def pv_def dt_def intro!: ext)

lemma set_pre_viewed:
  assumes "viewed h f g d b" "p \<in> dom f"
  shows "\<exists>h'. set_pre h p q = Some h' \<and> viewed h' f (g(p \<mapsto> q)) d b"
  using assms viewed_node [OF assms] by (auto simp: viewed_def set_pre_def nx_def pv_def dt_def intro!: ext)

lemma free_node_viewed:
  assumes "viewed h f g d b" "p \<in> dom f"
  shows "\<exists>h'. free_node h p = Some h' \<and> viewed h' (f(p := None)) (g(p := None)) (d(p := None)) b"
  using assms viewed_node [OF assms] by (auto simp: viewed_def free_node_def nx_def pv_def dt_def)

lemma free_block_viewed:
  assumes "viewed h f g d b" "b x \<noteq> None" "x \<noteq> 0"
  shows "\<exists>h'. free_block h x = Some h' \<and> viewed h' f g d (b(x := None))"
  using assms by (auto simp: viewed_def free_block_def nx_def pv_def dt_def)

lemma new_node_viewed:
  "viewed h f g d b \<Longrightarrow> viewed (new_node h a x) (f(a \<mapsto> 0)) (g(a \<mapsto> 0)) (d(a \<mapsto> x)) b"
  by (auto simp: viewed_def new_node_def nx_def pv_def dt_def fun_eq_iff)

lemma seg_append: "seg h a (xs @ x # ys) b \<longleftrightarrow> seg h a xs x \<and> seg h x ys b"
  by (induction xs arbitrary: a) auto

lemma seg_cong:
  assumes "seg h a xs b" "\<And>p. p \<in> set (a # xs) \<Longrightarrow> nx h' p = nx h p" "\<And>p. p \<in> set (xs @ [b]) \<Longrightarrow> pv h' p = pv h p"
  shows "seg h' a xs b"
  using assms by (induction xs arbitrary: a) (auto simp: linked_def)

lemma seg_first: "seg h a xs b \<Longrightarrow> nx h a = Some (case xs of [] \<Rightarrow> b | x # _ \<Rightarrow> x)"
  by (cases xs) (auto simp: linked_def)

lemma seg_last: "seg h a xs b \<Longrightarrow> pv h b = Some (if xs = [] then a else last xs)"
  by (induction xs arbitrary: a) (auto simp: linked_def)

lemma seg_nodes: "seg h a xs b \<Longrightarrow> p \<in> set (a # xs) \<Longrightarrow> p \<in> dom (nx h)"
  by (induction xs arbitrary: a) (auto simp: linked_def)

lemma seg_end: "seg h a xs b \<Longrightarrow> b \<in> dom (nx h)"
  by (induction xs arbitrary: a) (auto simp: linked_def nx_def pv_def)


lemma dlist_head: "dlist h l ps \<Longrightarrow> nx h l = Some (case ps of [] \<Rightarrow> l | x # _ \<Rightarrow> x)"
  by (auto simp: dlist_def dest: seg_first)

lemma dlist_nodes: "dlist h l ps \<Longrightarrow> p \<in> set (l # ps) \<Longrightarrow> p \<in> dom (nx h)"
  using seg_nodes by (metis dlist_def)

lemma dlist_fresh: "dlist h l ps \<Longrightarrow> mh_nodes h node = None \<Longrightarrow> node \<noteq> l \<and> node \<notin> set ps"
  using dlist_nodes [of h l ps node] by (auto simp: nx_def dom_def)

section \<open>Insertion\<close>

lemma insert_only_viewed:
  assumes "viewed h f g d b" "l \<in> dom f" "node \<in> dom f"
  shows "\<exists>h'. insert_only h l node = Some h' \<and> viewed h' (f(l \<mapsto> node, node \<mapsto> l)) (g(l \<mapsto> node, node \<mapsto> l)) d b"
proof -
  obtain h1 where 1: "set_next h l node = Some h1" "viewed h1 (f(l \<mapsto> node)) g d b"
    using set_next_viewed [OF assms(1,2)] by blast
  obtain h2 where 2: "set_pre h1 l node = Some h2" "viewed h2 (f(l \<mapsto> node)) (g(l \<mapsto> node)) d b"
    using set_pre_viewed [OF 1(2), of l node] by auto
  obtain h3 where 3: "set_next h2 node l = Some h3" "viewed h3 (f(l \<mapsto> node, node \<mapsto> l)) (g(l \<mapsto> node)) d b"
    using set_next_viewed [OF 2(2), of node l] assms(3) by auto
  obtain h4 where "set_pre h3 node l = Some h4" "viewed h4 (f(l \<mapsto> node, node \<mapsto> l)) (g(l \<mapsto> node, node \<mapsto> l)) d b"
    using set_pre_viewed [OF 3(2), of node l] by auto
  then show ?thesis using 1 2 3 by (simp add: insert_only_def)
qed

lemma insert_head_ok:
  assumes "dlist h l ps" "mh_nodes h node = None"
  shows "\<exists>h'. insert_head_manager_list (Some node) h l d = Some h' \<and> dlist h' l (node # ps) \<and>
    dt h' = (dt h)(node \<mapsto> d) \<and> mh_blocks h' = mh_blocks h"
proof -
  have fresh: "node \<noteq> l" "node \<notin> set ps"
    using dlist_fresh [OF assms] by auto
  let ?h = "new_node h node d"
  have v: "viewed ?h ((nx h)(node \<mapsto> 0)) ((pv h)(node \<mapsto> 0)) ((dt h)(node \<mapsto> d)) (mh_blocks h)"
    by (rule new_node_viewed [OF viewed_self])
  obtain head where head: "mh_nodes ?h l = Some head" "mn_next head = (case ps of [] \<Rightarrow> l | x # _ \<Rightarrow> x)"
    using viewed_node [OF v, of l] dlist_head [OF assms(1)] fresh by (auto simp: domI)
  show ?thesis
  proof (cases ps)
    case Nil
    obtain h' where "insert_only ?h l node = Some h'"
      "viewed h' ((nx h)(node \<mapsto> 0, l \<mapsto> node, node \<mapsto> l)) ((pv h)(node \<mapsto> 0, l \<mapsto> node, node \<mapsto> l)) ((dt h)(node \<mapsto> d)) (mh_blocks h)"
      using insert_only_viewed [OF v, of l node] dlist_head [OF assms(1)] by auto
    then show ?thesis using Nil head fresh
      by (auto simp: insert_head_manager_list_def dlist_def linked_def viewed_def)
  next
    case (Cons x xs)
    have x: "x \<noteq> l" "x \<noteq> node" "distinct (l # x # xs)" "x \<in> dom (nx h)"
      using assms(1) fresh Cons dlist_nodes [OF assms(1)] by (auto simp: dlist_def)
    obtain h1 where 1: "set_next ?h node x = Some h1"
      "viewed h1 ((nx h)(node \<mapsto> x)) ((pv h)(node \<mapsto> 0)) ((dt h)(node \<mapsto> d)) (mh_blocks h)"
      using set_next_viewed [OF v, of node x] by auto
    obtain h2 where 2: "set_pre h1 node l = Some h2"
      "viewed h2 ((nx h)(node \<mapsto> x)) ((pv h)(node \<mapsto> l)) ((dt h)(node \<mapsto> d)) (mh_blocks h)"
      using set_pre_viewed [OF 1(2), of node l] by auto
    obtain h3 where 3: "set_pre h2 x node = Some h3"
      "viewed h3 ((nx h)(node \<mapsto> x)) ((pv h)(node \<mapsto> l, x \<mapsto> node)) ((dt h)(node \<mapsto> d)) (mh_blocks h)"
      using set_pre_viewed [OF 2(2), of x node] x by auto
    obtain h4 where 4: "set_next h3 l node = Some h4"
      "viewed h4 ((nx h)(node \<mapsto> x, l \<mapsto> node)) ((pv h)(node \<mapsto> l, x \<mapsto> node)) ((dt h)(node \<mapsto> d)) (mh_blocks h)"
      using set_next_viewed [OF 3(2), of l node] dlist_head [OF assms(1)] by auto
    have "seg h x xs l" using assms(1) Cons by (simp add: dlist_def)
    then have "seg h4 x xs l"
      by (rule seg_cong) (use 4(2) x fresh Cons in \<open>auto simp: viewed_def\<close>)
    then show ?thesis using 1(1) 2(1) 3(1) 4 head x fresh Cons
      by (auto simp: insert_head_manager_list_def dlist_def linked_def viewed_def)
  qed
qed

lemma insert_tail_ok:
  assumes "dlist h l ps" "mh_nodes h node = None"
  shows "\<exists>h'. insert_tail_manager_list (Some node) h l d = Some h' \<and> dlist h' l (ps @ [node]) \<and>
    dt h' = (dt h)(node \<mapsto> d) \<and> mh_blocks h' = mh_blocks h"
proof -
  have fresh: "node \<noteq> l" "node \<notin> set ps"
    using dlist_fresh [OF assms] by auto
  let ?h = "new_node h node d"
  have v: "viewed ?h ((nx h)(node \<mapsto> 0)) ((pv h)(node \<mapsto> 0)) ((dt h)(node \<mapsto> d)) (mh_blocks h)"
    by (rule new_node_viewed [OF viewed_self])
  have last: "pv h l = Some (if ps = [] then l else last ps)"
    using assms(1) unfolding dlist_def by (metis seg_last)
  obtain head where head: "mh_nodes ?h l = Some head" "mn_next head = (case ps of [] \<Rightarrow> l | x # _ \<Rightarrow> x)"
    "mn_pre head = (if ps = [] then l else last ps)"
    using viewed_node [OF v, of l] dlist_head [OF assms(1)] last fresh by (auto simp: domI)
  show ?thesis
  proof (cases ps rule: rev_cases)
    case Nil
    obtain h' where "insert_only ?h l node = Some h'"
      "viewed h' ((nx h)(node \<mapsto> 0, l \<mapsto> node, node \<mapsto> l)) ((pv h)(node \<mapsto> 0, l \<mapsto> node, node \<mapsto> l)) ((dt h)(node \<mapsto> d)) (mh_blocks h)"
      using insert_only_viewed [OF v, of l node] dlist_head [OF assms(1)] by auto
    then show ?thesis using Nil head fresh
      by (auto simp: insert_tail_manager_list_def dlist_def linked_def viewed_def)
  next
    case (snoc xs x)
    have x: "x \<noteq> l" "x \<noteq> node" "distinct (l # xs @ [x])" "x \<in> dom (nx h)"
      using assms(1) fresh snoc dlist_nodes [OF assms(1)] by (auto simp: dlist_def)
    have "mn_next head \<noteq> l" using head(2) assms(1) snoc by (cases xs) (auto simp: dlist_def)
    obtain h1 where 1: "set_next ?h x node = Some h1"
      "viewed h1 ((nx h)(node \<mapsto> 0, x \<mapsto> node)) ((pv h)(node \<mapsto> 0)) ((dt h)(node \<mapsto> d)) (mh_blocks h)"
      using set_next_viewed [OF v, of x node] x by auto
    obtain h2 where 2: "set_pre h1 node x = Some h2"
      "viewed h2 ((nx h)(node \<mapsto> 0, x \<mapsto> node)) ((pv h)(node \<mapsto> x)) ((dt h)(node \<mapsto> d)) (mh_blocks h)"
      using set_pre_viewed [OF 1(2), of node x] by auto
    obtain h3 where 3: "set_next h2 node l = Some h3"
      "viewed h3 ((nx h)(node \<mapsto> 0, x \<mapsto> node, node \<mapsto> l)) ((pv h)(node \<mapsto> x)) ((dt h)(node \<mapsto> d)) (mh_blocks h)"
      using set_next_viewed [OF 2(2), of node l] by auto
    obtain h4 where 4: "set_pre h3 l node = Some h4"
      "viewed h4 ((nx h)(node \<mapsto> 0, x \<mapsto> node, node \<mapsto> l)) ((pv h)(node \<mapsto> x, l \<mapsto> node)) ((dt h)(node \<mapsto> d)) (mh_blocks h)"
      using set_pre_viewed [OF 3(2), of l node] dlist_head [OF assms(1)] by auto
    have "seg h l xs x" using assms(1) snoc seg_append [of h l xs x "[]" l] by (simp add: dlist_def)
    then have "seg h4 l xs x"
      by (rule seg_cong) (use 4(2) x fresh snoc in \<open>auto simp: viewed_def\<close>)
    then show ?thesis using 1(1) 2(1) 3(1) 4 head x fresh snoc \<open>mn_next head \<noteq> l\<close>
      by (auto simp: insert_tail_manager_list_def dlist_def linked_def viewed_def seg_append)
  qed
qed

section \<open>Walking along a list\<close>

fun fwd :: "'d mheap \<Rightarrow> nat \<Rightarrow> nat list \<Rightarrow> nat \<Rightarrow> bool" where
  "fwd h p [] l \<longleftrightarrow> p = l"
| "fwd h p (x # xs) l \<longleftrightarrow> p = x \<and> x \<noteq> l \<and> (\<exists>n. mh_nodes h x = Some n \<and> fwd h (mn_next n) xs l)"

lemma seg_fwd: "seg h a ps l \<Longrightarrow> l \<notin> set ps \<Longrightarrow> \<exists>n. mh_nodes h a = Some n \<and> fwd h (mn_next n) ps l"
  by (induction ps arbitrary: a) (auto simp: linked_def nx_def)

lemma dlist_fwd: "dlist h l ps \<Longrightarrow> \<exists>n. mh_nodes h l = Some n \<and> fwd h (mn_next n) ps l"
  unfolding dlist_def using seg_fwd by fastforce

lemma fwd_cong: "fwd h p ps l \<Longrightarrow> (\<And>q. q \<in> set ps \<Longrightarrow> mh_nodes h' q = mh_nodes h q) \<Longrightarrow> fwd h' p ps l"
  by (induction ps arbitrary: p) auto

lemma count_loop_filter:
  "fwd h p ps l \<Longrightarrow> (\<And>q. q \<in> set ps \<Longrightarrow> cb h q = Some (P q)) \<Longrightarrow>
     count_loop cb h l p k = Some (k + length (filter P ps))"
proof (induction ps arbitrary: p k)
  case Nil
  then show ?case by (subst count_loop.simps) simp
next
  case (Cons x ps)
  then show ?case by (subst count_loop.simps) auto
qed

lemma query_loop_find:
  "fwd h p ps l \<Longrightarrow> (\<And>q. q \<in> set ps \<Longrightarrow> cb h q = Some (P q)) \<Longrightarrow> query_loop cb h l p = Some (find P ps)"
proof (induction ps arbitrary: p)
  case Nil
  then show ?case by (subst query_loop.simps) simp
next
  case (Cons x ps)
  then show ?case by (subst query_loop.simps) auto
qed

lemma query_ok:
  assumes "dlist h l ps" "\<And>q. q \<in> set ps \<Longrightarrow> cb h q = Some (P q)"
  shows "query_head_list (Some cb) h l = Some (find P ps)"
  using dlist_fwd [OF assms(1)] query_loop_find [of h _ ps l cb P] assms(2)
  by (auto simp: query_head_list_def)

lemma count_ok:
  assumes "dlist h l ps" "\<And>q. q \<in> set ps \<Longrightarrow> cb h q = Some (P q)"
  shows "count_the_manager_list cb h l = Some (length (filter P ps))"
  using dlist_fwd [OF assms(1)] count_loop_filter [of h _ ps l cb P 0] assms(2)
  by (auto simp: count_the_manager_list_def)

section \<open>Removal\<close>

lemma dom_dt: "dom (mh_nodes h) = dom (dt h)"
  by (auto simp: dt_def)

lemma dlist_cong:
  assumes "dlist h l ps" "\<And>q. q \<in> set (l # ps) \<Longrightarrow> nx h' q = nx h q" "\<And>q. q \<in> set (l # ps) \<Longrightarrow> pv h' q = pv h q"
  shows "dlist h' l ps"
  using assms(1) unfolding dlist_def by (auto intro!: seg_cong [of h l ps l h'] simp: assms(2,3))

lemma seg_redirect:
  assumes "seg h a xs p" "distinct (a # xs)" "b \<notin> set xs"
    "nx h' = (nx h)(last (a # xs) \<mapsto> b)" "pv h' = (pv h)(b \<mapsto> last (a # xs))"
  shows "seg h' a xs b"
  using assms
proof (induction xs arbitrary: a)
  case (Cons x xs)
  then show ?case using Cons.IH [of x] by (auto simp: linked_def)
qed (simp add: linked_def)

lemma dlist_neighbours:
  assumes "dlist h l (xs @ p # ys)"
  shows "\<exists>n. mh_nodes h p = Some n \<and> mn_pre n = last (l # xs) \<and> mn_next n = hd (ys @ [l])"
proof -
  have "seg h l xs p" "seg h p ys l" using assms by (auto simp: dlist_def seg_append)
  from seg_last [OF this(1)] seg_first [OF this(2)] show ?thesis
    by (cases ys) (auto simp: nx_def pv_def)
qed

lemma dlist_unlinked:
  assumes "dlist h l (xs @ p # ys)"
    "nx h' = (nx h)(last (l # xs) \<mapsto> hd (ys @ [l]))" "pv h' = (pv h)(hd (ys @ [l]) \<mapsto> last (l # xs))"
  shows "dlist h' l (xs @ ys)"
proof -
  have s: "seg h l xs p" "seg h p ys l" and d: "distinct (l # xs @ p # ys)"
    using assms(1) by (auto simp: dlist_def seg_append)
  have x: "seg h' l xs (hd (ys @ [l]))"
    by (rule seg_redirect [OF s(1) _ _ assms(2,3)]) (use d in \<open>cases ys; auto\<close>)+
  show ?thesis
  proof (cases ys)
    case Nil
    then show ?thesis using x d by (simp add: dlist_def)
  next
    case (Cons y zs)
    have "last (l # xs) \<in> set (l # xs)" by (rule last_in_set) simp
    then have "last (l # xs) \<notin> set ys" using d by (auto simp del: last.simps)
    moreover have "seg h y zs l" using s(2) Cons by simp
    ultimately have "seg h' y zs l"
      by (intro seg_cong [of h y zs l h']) (use assms(2,3) d Cons in \<open>auto simp del: last.simps\<close>)
    then show ?thesis using x d Cons by (simp add: dlist_def seg_append)
  qed
qed

lemma unlink_ok:
  assumes "dlist h l (xs @ p # ys)"
  shows "\<exists>h'. unlink h p = Some h' \<and> dlist h' l (xs @ ys) \<and> dt h' = dt h \<and> mh_blocks h' = mh_blocks h \<and>
    dom (mh_nodes h') = dom (mh_nodes h)"
proof -
  let ?a = "last (l # xs)" and ?b = "hd (ys @ [l])"
  obtain n where n: "mh_nodes h p = Some n" "mn_pre n = ?a" "mn_next n = ?b"
    using dlist_neighbours [OF assms] by blast
  have ab: "?a \<in> set (l # xs @ p # ys)" "?b \<in> set (l # xs @ p # ys)"
    using last_in_set [of "l # xs"] by (auto simp: hd_append simp del: last.simps)
  then have dom: "?a \<in> dom (nx h)" "?b \<in> dom (nx h)" using dlist_nodes [OF assms] by auto
  obtain h1 where 1: "set_next h ?a ?b = Some h1" "viewed h1 ((nx h)(?a \<mapsto> ?b)) (pv h) (dt h) (mh_blocks h)"
    using set_next_viewed [OF viewed_self dom(1)] by blast
  have "p \<noteq> ?a" using assms last_in_set [of "l # xs"] by (auto simp: dlist_def simp del: last.simps)
  then obtain n1 where n1: "mh_nodes h1 p = Some n1" "mn_pre n1 = ?a" "mn_next n1 = ?b"
    using viewed_node [OF 1(2), of p] n by (auto simp: nx_def pv_def dom_def)
  obtain h2 where 2: "set_pre h1 ?b ?a = Some h2" "viewed h2 ((nx h)(?a \<mapsto> ?b)) ((pv h)(?b \<mapsto> ?a)) (dt h) (mh_blocks h)"
    using set_pre_viewed [OF 1(2), of ?b ?a] dom(2) by auto
  have "dlist h2 l (xs @ ys)"
    by (rule dlist_unlinked [OF assms]) (use 2(2) in \<open>simp_all add: viewed_def\<close>)
  moreover have "dom (mh_nodes h2) = dom (mh_nodes h)"
    using 2(2) by (simp add: viewed_def dom_dt)
  ultimately show ?thesis using n n1 1(1) 2 by (simp add: unlink_def viewed_def)
qed


lemma remove_ok:
  assumes "dlist h l (xs @ p # ys)" "\<And>q. q \<in> set (xs @ p # ys) \<Longrightarrow> cb h q = Some (P q)"
    "\<And>q. q \<in> set xs \<Longrightarrow> \<not> P q" "P p"
  shows "\<exists>h'. remove_manager_node cb h l = Some (h', 0) \<and> dlist h' l (xs @ ys) \<and> dt h' = (dt h)(p := None) \<and>
    mh_blocks h' = mh_blocks h \<and> dom (mh_nodes h') = dom (mh_nodes h) - {p}"
proof -
  have find: "find P (xs @ p # ys) = Some p" using assms(3,4) by (induction xs) auto
  obtain h1 where 1: "unlink h p = Some h1" "dlist h1 l (xs @ ys)" "dt h1 = dt h" "mh_blocks h1 = mh_blocks h"
    "dom (mh_nodes h1) = dom (mh_nodes h)"
    using unlink_ok [OF assms(1)] by blast
  have "p \<in> dom (nx h1)" using dlist_nodes [OF assms(1), of p] 1(5) by (auto simp: nx_def dom_def)
  from free_node_viewed [OF viewed_self this] obtain h2 where 2: "free_node h1 p = Some h2"
    "viewed h2 ((nx h1)(p := None)) ((pv h1)(p := None)) ((dt h1)(p := None)) (mh_blocks h1)" by blast
  have "dlist h2 l (xs @ ys)"
    by (rule dlist_cong [OF 1(2)]) (use 2(2) assms(1) in \<open>auto simp: viewed_def dlist_def\<close>)
  moreover have "dom (mh_nodes h2) = dom (mh_nodes h) - {p}"
    using 2(2) 1(3) by (simp add: viewed_def dom_dt)
  ultimately show ?thesis
    using query_ok [OF assms(1), of cb P] assms(2) find 1 2 by (simp add: remove_manager_node_def viewed_def)
qed

lemma del_ok:
  assumes "dlist h l (xs @ p # ys)" "\<And>q. q \<in> set (xs @ p # ys) \<Longrightarrow> cb h q = Some (P q)"
    "\<And>q. q \<in> set xs \<Longrightarrow> \<not> P q" "P p" "dt h p = Some b" "b \<noteq> 0" "mh_blocks h b \<noteq> None"
  shows "\<exists>h'. del_manager_node cb h l = Some (h', 0) \<and> dlist h' l (xs @ ys) \<and> dt h' = (dt h)(p := None) \<and>
    mh_blocks h' = (mh_blocks h)(b := None) \<and> dom (mh_nodes h') = dom (mh_nodes h) - {p}"
proof -
  have find: "find P (xs @ p # ys) = Some p" using assms(3,4) by (induction xs) auto
  obtain h1 where 1: "unlink h p = Some h1" "dlist h1 l (xs @ ys)" "dt h1 = dt h" "mh_blocks h1 = mh_blocks h"
    "dom (mh_nodes h1) = dom (mh_nodes h)"
    using unlink_ok [OF assms(1)] by blast
  obtain n where n: "mh_nodes h1 p = Some n" "mn_data n = b"
    using assms(5) 1(3) by (metis dt_def map_option_eq_Some)
  let ?h = "h1\<lparr>mh_blocks := (mh_blocks h1)(b := None)\<rparr>"
  have fb: "free_block h1 b = Some ?h" using assms(6,7) 1(4) by (auto simp: free_block_def)
  have v: "viewed ?h (nx h1) (pv h1) (dt h1) ((mh_blocks h1)(b := None))"
    by (auto simp: viewed_def nx_def pv_def dt_def)
  have "p \<in> dom (nx h1)" using n by (auto simp: nx_def dom_def)
  from free_node_viewed [OF v this] obtain h2 where 2: "free_node ?h p = Some h2"
    "viewed h2 ((nx h1)(p := None)) ((pv h1)(p := None)) ((dt h1)(p := None)) ((mh_blocks h1)(b := None))" by blast
  have "dlist h2 l (xs @ ys)"
    by (rule dlist_cong [OF 1(2)]) (use 2(2) assms(1) in \<open>auto simp: viewed_def dlist_def\<close>)
  moreover have "dom (mh_nodes h2) = dom (mh_nodes h) - {p}"
    using 2(2) 1(3) by (simp add: viewed_def dom_dt)
  ultimately show ?thesis
    using query_ok [OF assms(1), of cb P] assms(2) find 1 2 n fb by (simp add: del_manager_node_def viewed_def)
qed

lemma unlink_swapped:
  assumes "dlist h l (xs @ p # ys)"
  shows "\<exists>n h1 n1 h2. mh_nodes h p = Some n \<and> set_pre h (mn_next n) (mn_pre n) = Some h1 \<and>
    mh_nodes h1 p = Some n1 \<and> set_next h1 (mn_pre n1) (mn_next n1) = Some h2 \<and>
    dlist h2 l (xs @ ys) \<and> dt h2 = dt h \<and> mh_blocks h2 = mh_blocks h \<and> dom (mh_nodes h2) = dom (mh_nodes h)"
proof -
  let ?a = "last (l # xs)" and ?b = "hd (ys @ [l])"
  obtain n where n: "mh_nodes h p = Some n" "mn_pre n = ?a" "mn_next n = ?b"
    using dlist_neighbours [OF assms] by blast
  have ab: "?a \<in> set (l # xs @ p # ys)" "?b \<in> set (l # xs @ p # ys)"
    using last_in_set [of "l # xs"] by (auto simp: hd_append simp del: last.simps)
  then have dom: "?a \<in> dom (nx h)" "?b \<in> dom (nx h)" using dlist_nodes [OF assms] by auto
  obtain h1 where 1: "set_pre h ?b ?a = Some h1" "viewed h1 (nx h) ((pv h)(?b \<mapsto> ?a)) (dt h) (mh_blocks h)"
    using set_pre_viewed [OF viewed_self dom(2)] by blast
  have "p \<noteq> ?b" using assms by (cases ys) (auto simp: dlist_def)
  then obtain n1 where n1: "mh_nodes h1 p = Some n1" "mn_pre n1 = ?a" "mn_next n1 = ?b"
    using viewed_node [OF 1(2), of p] n by (auto simp: nx_def pv_def dom_def)
  obtain h2 where 2: "set_next h1 ?a ?b = Some h2" "viewed h2 ((nx h)(?a \<mapsto> ?b)) ((pv h)(?b \<mapsto> ?a)) (dt h) (mh_blocks h)"
    using set_next_viewed [OF 1(2), of ?a ?b] dom(1) by auto
  have "dlist h2 l (xs @ ys)"
    by (rule dlist_unlinked [OF assms]) (use 2(2) in \<open>simp_all add: viewed_def\<close>)
  moreover have "dom (mh_nodes h2) = dom (mh_nodes h)"
    using 2(2) by (simp add: viewed_def dom_dt)
  ultimately show ?thesis using n n1 1(1) 2 by (auto simp: viewed_def)
qed

text \<open>Moving a node to the front allocates a new node; without one the element is lost.\<close>

lemma remove_head_ok:
  assumes "dlist h l (xs @ p # ys)" "mh_nodes h node = None"
  shows "\<exists>h'. remove_head_manager_node (Some node) h l p = Some (h', 0) \<and> dlist h' l (node # xs @ ys) \<and>
    dt h' = (dt h)(node := dt h p, p := None) \<and> mh_blocks h' = mh_blocks h \<and>
    dom (mh_nodes h') = insert node (dom (mh_nodes h)) - {p}"
proof -
  have q: "query_head_list (Some (\<lambda>_ q. Some (p = q))) h l = Some (Some p)"
  proof -
    have "p \<notin> set xs" using assms(1) by (auto simp: dlist_def)
    then have "find (\<lambda>q. p = q) (xs @ p # ys) = Some p" by (induction xs) auto
    then show ?thesis using query_ok [OF assms(1), of "\<lambda>_ q. Some (p = q)"] by simp
  qed
  obtain n h1 n1 h2 where s: "mh_nodes h p = Some n" "set_pre h (mn_next n) (mn_pre n) = Some h1"
    "mh_nodes h1 p = Some n1" "set_next h1 (mn_pre n1) (mn_next n1) = Some h2"
    "dlist h2 l (xs @ ys)" "dt h2 = dt h" "mh_blocks h2 = mh_blocks h" "dom (mh_nodes h2) = dom (mh_nodes h)"
    using unlink_swapped [OF assms(1)] by blast
  have fresh: "mh_nodes h2 node = None" using s(8) assms(2) by blast
  have dp: "dt h p = Some (mn_data n)" using s(1) by (simp add: dt_def)
  then have "dt h2 p = Some (mn_data n)" using s(6) by simp
  then obtain n2 where n2: "mh_nodes h2 p = Some n2" "dt h p = Some (mn_data n2)"
    using dp by (auto simp: dt_def)
  obtain h3 where 3: "insert_head_manager_list (Some node) h2 l (mn_data n2) = Some h3"
    "dlist h3 l (node # xs @ ys)" "dt h3 = (dt h2)(node \<mapsto> mn_data n2)" "mh_blocks h3 = mh_blocks h2"
    using insert_head_ok [OF s(5) fresh] by blast
  have pn: "p \<noteq> node" "p \<notin> set (l # node # xs @ ys)" using n2(1) fresh assms(1) by (auto simp: dlist_def)
  have "dt h3 p \<noteq> None" using 3(3) n2 s(6) pn by simp
  then have "p \<in> dom (nx h3)" by (auto simp: dt_def nx_def dom_def)
  from free_node_viewed [OF viewed_self this] obtain h4 where 4: "free_node h3 p = Some h4"
    "viewed h4 ((nx h3)(p := None)) ((pv h3)(p := None)) ((dt h3)(p := None)) (mh_blocks h3)" by blast
  have "dlist h4 l (node # xs @ ys)"
    by (rule dlist_cong [OF 3(2)]) (use 4(2) pn in \<open>auto simp: viewed_def\<close>)
  moreover have dt: "dt h4 = (dt h)(node := dt h p, p := None)"
    using 4(2) 3(3) s(6) n2(2) by (simp add: viewed_def)
  moreover have "dom (mh_nodes h4) = insert node (dom (mh_nodes h)) - {p}"
    using dt n2(2) by (auto simp: dom_dt split: if_splits)
  ultimately show ?thesis
    using q s(1-4,7) n2(1) 3(1,4) 4 by (simp add: remove_head_manager_node_def viewed_def)
qed


lemma clean_loop_ok:
  assumes "fwd h p ps l" "distinct ps" "distinct (map (dt h) ps)"
    "\<And>q. q \<in> set ps \<Longrightarrow> \<exists>b. dt h q = Some b \<and> b \<noteq> 0 \<and> mh_blocks h b \<noteq> None"
  shows "\<exists>h'. clean_loop h l p = Some h' \<and> mh_nodes h' = mh_nodes h |` (- set ps) \<and>
    mh_blocks h' = mh_blocks h |` {b. Some b \<notin> dt h ` set ps}"
  using assms
proof (induction ps arbitrary: h p)
  case Nil
  then show ?case by (subst clean_loop.simps) (auto simp: restrict_map_def)
next
  case (Cons x ps)
  obtain n where n: "mh_nodes h x = Some n" "fwd h (mn_next n) ps l" "p = x" "x \<noteq> l" using Cons.prems(1) by auto
  obtain b where b: "dt h x = Some b" "b \<noteq> 0" "mh_blocks h b \<noteq> None" using Cons.prems(4) [of x] by auto
  then have nb: "mn_data n = b" using n(1) by (simp add: dt_def)
  let ?h = "h\<lparr>mh_blocks := (mh_blocks h)(b := None), mh_nodes := (mh_nodes h)(x := None)\<rparr>"
  have dt: "dt ?h = (dt h)(x := None)" by (auto simp: dt_def)
  have "x \<notin> set ps" using Cons.prems(2) by simp
  have "fwd ?h (mn_next n) ps l" by (rule fwd_cong [OF n(2)]) (use \<open>x \<notin> set ps\<close> in auto)
  moreover have "distinct (map (dt ?h) ps)"
    using Cons.prems(3) \<open>x \<notin> set ps\<close> dt by (simp add: distinct_map inj_on_def)
  moreover have "\<exists>c. dt ?h q = Some c \<and> c \<noteq> 0 \<and> mh_blocks ?h c \<noteq> None" if "q \<in> set ps" for q
  proof -
    obtain c where c: "dt h q = Some c" "c \<noteq> 0" "mh_blocks h c \<noteq> None" using Cons.prems(4) [of q] \<open>q \<in> set ps\<close> by auto
    then have "c \<noteq> b" using Cons.prems(3) b(1) that by (auto simp: image_iff)
    then show ?thesis using c dt that \<open>x \<notin> set ps\<close> by auto
  qed
  moreover have "distinct ps" using Cons.prems(2) by simp
  ultimately obtain h' where h': "clean_loop ?h l (mn_next n) = Some h'" "mh_nodes h' = mh_nodes ?h |` (- set ps)"
    "mh_blocks h' = mh_blocks ?h |` {c. Some c \<notin> dt ?h ` set ps}"
    using Cons.IH by blast
  have "clean_loop h l p = Some h'"
    using n b nb h'(1) by (subst clean_loop.simps) (auto simp: free_block_def free_node_def)
  moreover have "mh_nodes h' = mh_nodes h |` (- set (x # ps))" using h'(2) by (auto simp: restrict_map_def)
  moreover have "mh_blocks h' = mh_blocks h |` {c. Some c \<notin> dt h ` set (x # ps)}"
  proof -
    have "dt ?h ` set ps = dt h ` set ps" using dt \<open>x \<notin> set ps\<close> by auto
    then show ?thesis using h'(3) b(1) by (auto simp: restrict_map_def fun_eq_iff)
  qed
  ultimately show ?case by blast
qed

lemma init_ok:
  assumes "mh_nodes h l \<noteq> None"
  shows "\<exists>h'. init_manager_list h l = Some h' \<and> dlist h' l [] \<and> dt h' = dt h \<and> mh_blocks h' = mh_blocks h"
proof -
  have "l \<in> dom (nx h)" using assms by (auto simp: nx_def dom_def)
  then obtain h1 where 1: "set_next h l l = Some h1" "viewed h1 ((nx h)(l \<mapsto> l)) (pv h) (dt h) (mh_blocks h)"
    using set_next_viewed [OF viewed_self] by blast
  obtain h2 where "set_pre h1 l l = Some h2" "viewed h2 ((nx h)(l \<mapsto> l)) ((pv h)(l \<mapsto> l)) (dt h) (mh_blocks h)"
    using set_pre_viewed [OF 1(2), of l l] by auto
  then show ?thesis using 1(1) by (auto simp: init_manager_list_def dlist_def linked_def viewed_def)
qed

lemma clean_ok:
  assumes "dlist h l ps" "distinct (map (dt h) ps)"
    "\<And>q. q \<in> set ps \<Longrightarrow> \<exists>b. dt h q = Some b \<and> b \<noteq> 0 \<and> mh_blocks h b \<noteq> None"
  shows "\<exists>h'. clean_manager_list h l = Some h' \<and> dlist h' l [] \<and> dt h' = dt h |` (- set ps) \<and>
    mh_blocks h' = mh_blocks h |` {b. Some b \<notin> dt h ` set ps}"
proof -
  obtain n where n: "mh_nodes h l = Some n" "fwd h (mn_next n) ps l" using dlist_fwd [OF assms(1)] by blast
  have "distinct ps" "l \<notin> set ps" using assms(1) by (auto simp: dlist_def)
  obtain h1 where 1: "clean_loop h l (mn_next n) = Some h1" "mh_nodes h1 = mh_nodes h |` (- set ps)"
    "mh_blocks h1 = mh_blocks h |` {b. Some b \<notin> dt h ` set ps}"
    using clean_loop_ok [OF n(2) \<open>distinct ps\<close> assms(2,3)] by blast
  have "dt h1 = dt h |` (- set ps)" using 1(2) by (auto simp: dt_def restrict_map_def fun_eq_iff)
  then show ?thesis
    using init_ok [of h1 l] 1 n \<open>l \<notin> set ps\<close> by (auto simp: clean_manager_list_def)
qed

section \<open>Lists of values\<close>

text \<open>
  How the clients use the list: they allocate a block for a value, hand it to the list and
  search by a predicate on values.  The state pairs the heap with the next free address.
\<close>

definition value_of :: "'d mheap \<Rightarrow> nat \<Rightarrow> 'd option" where
  "value_of h p = do { b \<leftarrow> dt h p; mh_blocks h b }"

definition by_value :: "('d \<Rightarrow> bool) \<Rightarrow> 'd mheap \<Rightarrow> nat \<Rightarrow> bool option" where
  "by_value P h p = map_option P (value_of h p)"

definition held :: "'d mheap \<Rightarrow> nat list \<Rightarrow> 'd list \<Rightarrow> bool" where
  "held h ps vs \<longleftrightarrow> list_all2 (\<lambda>p v. value_of h p = Some v) ps vs \<and> distinct (map (dt h) ps) \<and>
     (\<forall>p \<in> set ps. dt h p \<noteq> Some 0)"

definition unused :: "'d mheap \<Rightarrow> nat \<Rightarrow> bool" where
  "unused h k \<longleftrightarrow> 0 < k \<and> (\<forall>a \<ge> k. mh_nodes h a = None \<and> mh_blocks h a = None)"

definition represents :: "nat \<Rightarrow> 'd mheap \<times> nat \<Rightarrow> 'd list \<Rightarrow> bool" where
  "represents l s vs \<longleftrightarrow> (\<exists>ps. dlist (fst s) l ps \<and> held (fst s) ps vs \<and> unused (fst s) (snd s))"

datatype 'd list_op = PushHead 'd | PushTail 'd | DropFirst "'d \<Rightarrow> bool" | Promote "'d \<Rightarrow> bool" | Wipe

definition store_block :: "'d mheap \<Rightarrow> nat \<Rightarrow> 'd \<Rightarrow> 'd mheap" where
  "store_block h k v = h\<lparr>mh_blocks := (mh_blocks h)(k \<mapsto> v)\<rparr>"

fun list_step :: "nat \<Rightarrow> 'd list_op \<Rightarrow> 'd mheap \<times> nat \<Rightarrow> ('d mheap \<times> nat) option" where
  "list_step l (PushHead v) (h, k) =
     map_option (\<lambda>h'. (h', k + 2)) (insert_head_manager_list (Some (k + 1)) (store_block h k v) l k)"
| "list_step l (PushTail v) (h, k) =
     map_option (\<lambda>h'. (h', k + 2)) (insert_tail_manager_list (Some (k + 1)) (store_block h k v) l k)"
| "list_step l (DropFirst P) (h, k) = map_option (\<lambda>(h', r). (h', k)) (del_manager_node (by_value P) h l)"
| "list_step l (Promote P) (h, k) = do {
     r \<leftarrow> query_head_list (Some (by_value P)) h l;
     case r of
       None \<Rightarrow> Some (h, k)
     | Some p \<Rightarrow> map_option (\<lambda>(h', r). (h', k + 1)) (remove_head_manager_node (Some k) h l p)
   }"
| "list_step l Wipe (h, k) = map_option (\<lambda>h'. (h', k)) (clean_manager_list h l)"

fun list_spec :: "'d list_op \<Rightarrow> 'd list \<Rightarrow> 'd list" where
  "list_spec (PushHead v) vs = v # vs"
| "list_spec (PushTail v) vs = vs @ [v]"
| "list_spec (DropFirst P) vs = (case List.extract P vs of None \<Rightarrow> vs | Some (xs, v, ys) \<Rightarrow> xs @ ys)"
| "list_spec (Promote P) vs = (case List.extract P vs of None \<Rightarrow> vs | Some (xs, v, ys) \<Rightarrow> v # xs @ ys)"
| "list_spec Wipe vs = []"

lemma value_of_cong: "dt h' p = dt h p \<Longrightarrow> (\<And>b. dt h p = Some b \<Longrightarrow> mh_blocks h' b = mh_blocks h b) \<Longrightarrow> value_of h' p = value_of h p"
  by (cases "dt h p") (auto simp: value_of_def)

lemma dt_store_block [simp]: "dt (store_block h k v) = dt h" "mh_nodes (store_block h k v) = mh_nodes h"
  "mh_blocks (store_block h k v) = (mh_blocks h)(k \<mapsto> v)"
  by (auto simp: store_block_def dt_def)

lemma dlist_store_block [simp]: "dlist (store_block h k v) l ps = dlist h l ps"
  by (auto intro: dlist_cong simp: nx_def pv_def)

lemma held_cong:
  assumes "held h ps vs" "\<And>p. p \<in> set ps \<Longrightarrow> dt h' p = dt h p" "\<And>p. p \<in> set ps \<Longrightarrow> value_of h' p = value_of h p"
  shows "held h' ps vs"
proof -
  have m: "map (dt h') ps = map (dt h) ps" using assms(2) by simp
  have "list_all2 (\<lambda>p v. value_of h' p = Some v) ps vs"
    using assms(1,3) unfolding held_def by (auto simp: list_all2_conv_all_nth)
  then show ?thesis using assms(1,2) unfolding held_def m by simp
qed

lemma held_value_of: "held h ps vs \<Longrightarrow> p \<in> set ps \<Longrightarrow> \<exists>v. value_of h p = Some v"
  by (auto simp: held_def list_all2_conv_all_nth in_set_conv_nth)

lemma held_value:
  assumes "held h ps vs" "p \<in> set ps"
  shows "\<exists>b. dt h p = Some b \<and> b \<noteq> 0 \<and> mh_blocks h b \<noteq> None"
proof -
  obtain v where "value_of h p = Some v" using held_value_of [OF assms] by blast
  moreover have "dt h p \<noteq> Some 0" using assms by (simp add: held_def)
  ultimately show ?thesis by (auto simp: value_of_def bind_eq_Some_conv)
qed

lemma held_same_block:
  "held h ps vs \<Longrightarrow> p \<in> set ps \<Longrightarrow> q \<in> set ps \<Longrightarrow> dt h p = dt h q \<Longrightarrow> p = q"
  by (auto simp: held_def distinct_map inj_on_def)

lemma held_split:
  assumes "held h (us @ p # ws) vs"
  shows "\<exists>xs v ys. vs = xs @ v # ys \<and> length xs = length us \<and> value_of h p = Some v \<and> held h (us @ ws) (xs @ ys)"
  using assms by (fastforce simp: held_def list_all2_append1 list_all2_Cons1 intro: list_all2_appendI)

lemma held_insert:
  assumes "held h (us @ ws) (xs @ ys)" "length xs = length us" "value_of h p = Some v"
    "dt h p \<noteq> Some 0" "\<And>q. q \<in> set (us @ ws) \<Longrightarrow> dt h q \<noteq> dt h p"
  shows "held h (us @ p # ws) (xs @ v # ys)"
  using assms by (fastforce simp: held_def list_all2_append)

text \<open>A new block and a new node, at either end.\<close>

lemma represents_push:
  assumes "held h (us @ ws) (xs @ ys)" "length xs = length us" "unused h k"
    "dlist h' l (us @ (k + 1) # ws)" "dt h' = (dt h)(k + 1 \<mapsto> k)" "mh_blocks h' = (mh_blocks h)(k \<mapsto> v)"
  shows "represents l (h', k + 2) (xs @ v # ys)"
proof -
  have old: "dt h p = Some b \<Longrightarrow> b \<noteq> k" if "p \<in> set (us @ ws)" for p b
    using held_value [OF assms(1) that] assms(3) by (auto simp: unused_def)
  have pk: "p \<noteq> k + 1" if "p \<in> set (us @ ws)" for p
    using held_value [OF assms(1) that] assms(3) by (auto simp: unused_def dt_def)
  have "held h' (us @ ws) (xs @ ys)"
  proof (rule held_cong [OF assms(1)])
    fix p assume p: "p \<in> set (us @ ws)"
    show "dt h' p = dt h p" using assms(5) pk [OF p] by simp
    then show "value_of h' p = value_of h p" using assms(6) old [OF p] by (intro value_of_cong) auto
  qed
  moreover have "value_of h' (k + 1) = Some v" "dt h' (k + 1) \<noteq> Some 0"
    using assms(3,5,6) by (simp_all add: value_of_def unused_def)
  moreover have "dt h' q \<noteq> dt h' (k + 1)" if "q \<in> set (us @ ws)" for q
    using old [OF that] pk [OF that] assms(5) by auto
  ultimately have "held h' (us @ (k + 1) # ws) (xs @ v # ys)"
    using assms(2) by (intro held_insert)
  moreover have "unused h' (k + 2)"
  proof -
    have "mh_nodes h' a = None \<longleftrightarrow> dt h' a = None" for a by (simp add: dt_def)
    then show ?thesis using assms(3,5,6) by (auto simp: unused_def dt_def)
  qed
  ultimately show ?thesis using assms(4) by (auto simp: represents_def)
qed

lemma push_head_sim:
  assumes "represents l s vs"
  shows "\<exists>s'. list_step l (PushHead v) s = Some s' \<and> represents l s' (v # vs)"
proof -
  obtain h k ps where s: "s = (h, k)" "dlist h l ps" "held h ps vs" "unused h k"
    using assms by (cases s) (auto simp: represents_def)
  let ?h = "store_block h k v"
  obtain h' where "insert_head_manager_list (Some (k + 1)) ?h l k = Some h'" "dlist h' l ((k + 1) # ps)"
    "dt h' = (dt h)(k + 1 \<mapsto> k)" "mh_blocks h' = (mh_blocks h)(k \<mapsto> v)"
    using insert_head_ok [of ?h l ps "k + 1" k] s by (auto simp: unused_def)
  then show ?thesis using represents_push [of h "[]" ps "[]" vs k h' l v] s by simp
qed

lemma push_tail_sim:
  assumes "represents l s vs"
  shows "\<exists>s'. list_step l (PushTail v) s = Some s' \<and> represents l s' (vs @ [v])"
proof -
  obtain h k ps where s: "s = (h, k)" "dlist h l ps" "held h ps vs" "unused h k"
    using assms by (cases s) (auto simp: represents_def)
  let ?h = "store_block h k v"
  obtain h' where "insert_tail_manager_list (Some (k + 1)) ?h l k = Some h'" "dlist h' l (ps @ [k + 1])"
    "dt h' = (dt h)(k + 1 \<mapsto> k)" "mh_blocks h' = (mh_blocks h)(k \<mapsto> v)"
    using insert_tail_ok [of ?h l ps "k + 1" k] s by (auto simp: unused_def)
  moreover have "length vs = length ps" using s(3) by (auto simp: held_def dest: list_all2_lengthD)
  ultimately show ?thesis using represents_push [of h ps "[]" vs "[]" k h' l v] s by simp
qed

lemma held_find:
  assumes "held h ps vs"
  shows "case List.extract P vs of
      None \<Rightarrow> find (\<lambda>p. by_value P h p = Some True) ps = None
    | Some (xs, v, ys) \<Rightarrow> \<exists>us p ws. ps = us @ p # ws \<and> find (\<lambda>p. by_value P h p = Some True) ps = Some p \<and>
        (\<forall>q \<in> set us. by_value P h q = Some False) \<and> by_value P h p = Some True \<and>
        value_of h p = Some v \<and> length us = length xs \<and> held h (us @ ws) (xs @ ys)"
proof (cases "List.extract P vs")
  case None
  then have "\<not> P (vs ! i)" if "i < length vs" for i using that by (auto simp: extract_None_iff)
  then have "find (\<lambda>p. by_value P h p = Some True) ps = None"
    using assms by (auto simp: find_None_iff held_def list_all2_conv_all_nth by_value_def in_set_conv_nth)
  then show ?thesis using None by simp
next
  case (Some t)
  obtain xs v ys where t: "t = (xs, v, ys)" by (cases t)
  then have vs: "vs = xs @ v # ys" "P v" "\<forall>x \<in> set xs. \<not> P x" using Some by (auto simp: extract_Some_iff)
  then obtain us p ws where ps: "ps = us @ p # ws" "length us = length xs" "value_of h p = Some v"
    "list_all2 (\<lambda>p v. value_of h p = Some v) us xs"
    using assms by (auto simp: held_def list_all2_append2 list_all2_Cons2 dest: list_all2_lengthD)
  have no: "\<forall>q \<in> set us. by_value P h q = Some False"
    using ps(4) vs(3) nth_mem by (fastforce simp: list_all2_conv_all_nth by_value_def in_set_conv_nth)
  then have "find (\<lambda>p. by_value P h p = Some True) (us @ p # ws) = Some p"
    using ps(3) vs(2) by (induction us) (auto simp: by_value_def)
  moreover have "held h (us @ ws) (xs @ ys)"
    using held_split [of h us p ws vs] assms ps vs(1) by auto
  ultimately show ?thesis using Some t ps no vs(2) by (auto simp: by_value_def)
qed


lemma by_value_total:
  assumes "held h ps vs" "q \<in> set ps"
  shows "by_value P h q = Some (by_value P h q = Some True)"
  using held_value_of [OF assms] by (auto simp: by_value_def)

lemma unused_mono:
  assumes "unused h k" "dom (mh_nodes h') \<subseteq> dom (mh_nodes h)" "dom (mh_blocks h') \<subseteq> dom (mh_blocks h)"
  shows "unused h' k"
  using assms unfolding unused_def dom_def by (auto simp: subset_iff)

lemma drop_first_sim:
  assumes "represents l s vs"
  shows "\<exists>s'. list_step l (DropFirst P) s = Some s' \<and> represents l s' (list_spec (DropFirst P) vs)"
proof -
  obtain h k ps where s: "s = (h, k)" "dlist h l ps" "held h ps vs" "unused h k"
    using assms by (cases s) (auto simp: represents_def)
  let ?Q = "\<lambda>p. by_value P h p = Some True"
  show ?thesis
  proof (cases "List.extract P vs")
    case None
    then have "query_head_list (Some (by_value P)) h l = Some None"
      using query_ok [OF s(2), of "by_value P" ?Q] by_value_total [OF s(3), of _ P] held_find [OF s(3), of P] by simp
    then show ?thesis using None s assms by (simp add: del_manager_node_def)
  next
    case (Some t)
    obtain xs v ys where t: "t = (xs, v, ys)" by (cases t)
    obtain us p ws where ps: "ps = us @ p # ws" "\<forall>q \<in> set us. by_value P h q = Some False" "?Q p"
      "held h (us @ ws) (xs @ ys)" using held_find [OF s(3), of P] Some t by auto
    obtain b where b: "dt h p = Some b" "b \<noteq> 0" "mh_blocks h b \<noteq> None" using held_value [OF s(3), of p] ps(1) by auto
    obtain h' where h': "del_manager_node (by_value P) h l = Some (h', 0)" "dlist h' l (us @ ws)"
      "dt h' = (dt h)(p := None)" "mh_blocks h' = (mh_blocks h)(b := None)" "dom (mh_nodes h') = dom (mh_nodes h) - {p}"
      using del_ok [of h l us p ws "by_value P" ?Q b] s(2) ps b by_value_total [OF s(3), of _ P] by auto
    have "held h' (us @ ws) (xs @ ys)"
    proof (rule held_cong [OF ps(4)])
      fix q assume q: "q \<in> set (us @ ws)"
      then have "q \<noteq> p" using s(2) ps(1) by (auto simp: dlist_def)
      then show dq: "dt h' q = dt h q" using h'(3) by simp
      have "dt h q \<noteq> Some b" using held_same_block [OF s(3), of p q] q ps(1) b(1) \<open>q \<noteq> p\<close> by auto
      then show "value_of h' q = value_of h q" using h'(4) dq by (intro value_of_cong) auto
    qed
    moreover have "unused h' k" by (rule unused_mono [OF s(4)]) (use h'(4,5) in auto)
    ultimately show ?thesis using s(1) Some t h'(1,2) by (auto simp: represents_def)
  qed
qed

lemma promote_sim:
  assumes "represents l s vs"
  shows "\<exists>s'. list_step l (Promote P) s = Some s' \<and> represents l s' (list_spec (Promote P) vs)"
proof -
  obtain h k ps where s: "s = (h, k)" "dlist h l ps" "held h ps vs" "unused h k"
    using assms by (cases s) (auto simp: represents_def)
  let ?Q = "\<lambda>p. by_value P h p = Some True"
  have q: "query_head_list (Some (by_value P)) h l = Some (find ?Q ps)"
    using query_ok [OF s(2), of "by_value P" ?Q] by_value_total [OF s(3), of _ P] by simp
  show ?thesis
  proof (cases "List.extract P vs")
    case None
    then show ?thesis using q held_find [OF s(3), of P] s assms by simp
  next
    case (Some t)
    obtain xs v ys where t: "t = (xs, v, ys)" by (cases t)
    obtain us p ws where ps: "ps = us @ p # ws" "find ?Q ps = Some p" "value_of h p = Some v"
      "held h (us @ ws) (xs @ ys)" using held_find [OF s(3), of P] Some t by auto
    have k: "mh_nodes h k = None" using s(4) by (simp add: unused_def)
    obtain h' where h': "remove_head_manager_node (Some k) h l p = Some (h', 0)" "dlist h' l (k # us @ ws)"
      "dt h' = (dt h)(k := dt h p, p := None)" "mh_blocks h' = mh_blocks h"
      "dom (mh_nodes h') = insert k (dom (mh_nodes h)) - {p}"
      using remove_head_ok [of h l us p ws k] s(2) ps(1) k by auto
    obtain b where b: "dt h p = Some b" "b \<noteq> 0" using held_value [OF s(3), of p] ps(1) by auto
    have pk: "p \<noteq> k" using b(1) k by (auto simp: dt_def)
    have old: "q \<noteq> p \<and> q \<noteq> k \<and> dt h q \<noteq> Some b" if "q \<in> set (us @ ws)" for q
      using held_same_block [OF s(3), of p q] held_value [OF s(3), of q] that ps(1) b(1) s(2) k
      by (auto simp: dlist_def dt_def)
    have "held h' (us @ ws) (xs @ ys)"
    proof (rule held_cong [OF ps(4)])
      fix q assume q: "q \<in> set (us @ ws)"
      then show dq: "dt h' q = dt h q" using h'(3) old [OF q] by simp
      then show "value_of h' q = value_of h q" using h'(4) by (intro value_of_cong) auto
    qed
    then have "held h' ([] @ k # us @ ws) ([] @ v # xs @ ys)"
      using ps(3) b pk old h'(3,4) by (intro held_insert) (auto simp: value_of_def)
    moreover have "unused h' (k + 1)"
    proof -
      have "a \<notin> dom (mh_nodes h')" if "k + 1 \<le> a" for a using that s(4) h'(5) by (auto simp: unused_def)
      then show ?thesis using s(4) h'(4) by (auto simp: unused_def)
    qed
    ultimately show ?thesis using s(1) q ps(2) Some t h'(1,2) by (auto simp: represents_def)
  qed
qed

lemma wipe_sim:
  assumes "represents l s vs"
  shows "\<exists>s'. list_step l Wipe s = Some s' \<and> represents l s' []"
proof -
  obtain h k ps where s: "s = (h, k)" "dlist h l ps" "held h ps vs" "unused h k"
    using assms by (cases s) (auto simp: represents_def)
  have "distinct (map (dt h) ps)" using s(3) by (simp add: held_def)
  then obtain h' where h': "clean_manager_list h l = Some h'" "dlist h' l []" "dt h' = dt h |` (- set ps)"
    "mh_blocks h' = mh_blocks h |` {b. Some b \<notin> dt h ` set ps}"
    using clean_ok [OF s(2)] held_value [OF s(3)] by blast
  have "unused h' k"
    by (rule unused_mono [OF s(4)]) (auto simp: h'(3,4) dom_dt)
  then show ?thesis using s(1) h'(1,2) by (auto simp: represents_def held_def)
qed

text \<open>The linked list simulates the list of its values.\<close>

interpretation mls: simulation "represents l" "\<lambda>_ _. True" "list_step l" list_spec for l
proof
  fix s :: "'d mheap \<times> nat" and vs c assume "represents l s vs"
  then show "\<exists>s'. list_step l c s = Some s' \<and> represents l s' (list_spec c vs)"
    by (cases c) (auto dest: push_head_sim push_tail_sim drop_first_sim [unfolded list_spec.simps]
        promote_sim [unfolded list_spec.simps] wipe_sim simp del: list_step.simps split_paired_Ex)
qed


lemma find_extract: "find P vs = (case List.extract P vs of None \<Rightarrow> None | Some (xs, v, ys) \<Rightarrow> Some v)"
  by (induction vs) (auto simp: extract_Cons_code extract_Nil_code split: option.splits)

lemma represents_observed:
  assumes "represents l (h, k) vs"
  shows "count_manager_list h l = Some (length vs)"
    "\<exists>r. query_head_list (Some (by_value P)) h l = Some r \<and> Option.bind r (value_of h) = find P vs"
proof -
  obtain ps where s: "dlist h l ps" "held h ps vs" using assms by (auto simp: represents_def)
  have "length ps = length vs" using s(2) by (auto simp: held_def dest: list_all2_lengthD)
  then show "count_manager_list h l = Some (length vs)"
    using count_ok [OF s(1), of "\<lambda>_ _. Some True" "\<lambda>_. True"] by (simp add: count_manager_list_def)
  have "query_head_list (Some (by_value P)) h l = Some (find (\<lambda>p. by_value P h p = Some True) ps)"
    using query_ok [OF s(1), of "by_value P"] by_value_total [OF s(2), of _ P] by simp
  then show "\<exists>r. query_head_list (Some (by_value P)) h l = Some r \<and> Option.bind r (value_of h) = find P vs"
    using held_find [OF s(2), of P] by (cases "List.extract P vs") (auto simp: find_extract)
qed

section \<open>Properties\<close>

text \<open>C8: The linked list behaves like the list of the values handed to it.  After the
  initialisation of a head, any sequence of insertions at either end, deletions of the first
  match, moves of the first match to the front and clearances runs without a fault and
  without a loop that does not end; counting and searching then answer what the same
  operations on a plain list give.\<close>

theorem manager_list_simulates:
  assumes "mh_nodes h l \<noteq> None" "unused h k"
  shows "\<exists>h0 h' k'. init_manager_list h l = Some h0 \<and> run_steps (list_step l) ops (h0, k) = Some (h', k') \<and>
    count_manager_list h' l = Some (length (fold list_spec ops [])) \<and>
    (\<forall>P. \<exists>r. query_head_list (Some (by_value P)) h' l = Some r \<and>
       Option.bind r (value_of h') = find P (fold list_spec ops []))"
proof -
  obtain h0 where h0: "init_manager_list h l = Some h0" "dlist h0 l []" "dt h0 = dt h" "mh_blocks h0 = mh_blocks h"
    using init_ok [OF assms(1)] by blast
  have "unused h0 k" by (rule unused_mono [OF assms(2)]) (simp_all add: h0(3,4) dom_dt)
  then have "represents l (h0, k) []" using h0(2) by (simp add: represents_def held_def)
  from mls.run_total [OF this, of ops]
  obtain h' k' where "run_steps (list_step l) ops (h0, k) = Some (h', k')" "represents l (h', k') (fold list_spec ops [])"
    by auto
  then show ?thesis using h0(1) represents_observed by blast
qed

theorem manager_list_simulates_witness:
  "\<exists>h0 h' k'. init_manager_list \<lparr>mh_nodes = [7 \<mapsto> \<lparr>mn_data = 0, mn_next = 0, mn_pre = 0\<rparr>], mh_blocks = Map.empty\<rparr> 7 = Some h0 \<and>
     run_steps (list_step 7) [PushTail 1, PushTail 2, PushTail 3, Promote (\<lambda>v. v = 2), DropFirst odd] (h0, 8 :: nat) =
       Some (h', k') \<and> count_manager_list h' 7 = Some 2 \<and>
     (\<exists>r. query_head_list (Some (by_value (\<lambda>_. True))) h' 7 = Some r \<and> Option.bind r (value_of h') = Some (2 :: nat))"
proof -
  let ?h = "\<lparr>mh_nodes = [7 \<mapsto> \<lparr>mn_data = 0, mn_next = 0, mn_pre = 0\<rparr>], mh_blocks = Map.empty\<rparr> :: nat mheap"
  let ?ops = "[PushTail 1, PushTail 2, PushTail 3, Promote (\<lambda>v. v = 2), DropFirst odd] :: nat list_op list"
  have "mh_nodes ?h 7 \<noteq> None" "unused ?h 8" by (simp_all add: unused_def)
  then obtain h0 h' k' where run: "init_manager_list ?h 7 = Some h0" "run_steps (list_step 7) ?ops (h0, 8) = Some (h', k')"
    "count_manager_list h' 7 = Some (length (fold list_spec ?ops []))"
    "\<forall>P. \<exists>r. query_head_list (Some (by_value P)) h' 7 = Some r \<and> Option.bind r (value_of h') = find P (fold list_spec ?ops [])"
    using manager_list_simulates [of ?h 7 8 ?ops] by blast
  have "fold list_spec ?ops [] = [2, 3]" by (simp add: extract_Cons_code extract_Nil_code)
  with run(3) run(4) [rule_format, of "\<lambda>_. True"]
  have "count_manager_list h' 7 = Some 2"
    "\<exists>r. query_head_list (Some (by_value (\<lambda>_. True))) h' 7 = Some r \<and> Option.bind r (value_of h') = Some 2" by simp_all
  then show ?thesis using run(1,2) by blast
qed

text \<open>Moving a node to the front loses its element when no node can be allocated: the
  operation still answers 0, the element is no longer in the list and its block is not
  released.\<close>

theorem remove_head_loses_element:
  assumes "dlist h l (xs @ p # ys)"
  shows "\<exists>h'. remove_head_manager_node None h l p = Some (h', 0) \<and> dlist h' l (xs @ ys) \<and>
    mh_nodes h' p = None \<and> mh_blocks h' = mh_blocks h"
proof -
  have "p \<notin> set xs" using assms by (auto simp: dlist_def)
  then have "find (\<lambda>q. p = q) (xs @ p # ys) = Some p" by (induction xs) auto
  then have q: "query_head_list (Some (\<lambda>_ q. Some (p = q))) h l = Some (Some p)"
    using query_ok [OF assms, of "\<lambda>_ q. Some (p = q)"] by simp
  obtain n h1 n1 h2 where s: "mh_nodes h p = Some n" "set_pre h (mn_next n) (mn_pre n) = Some h1"
    "mh_nodes h1 p = Some n1" "set_next h1 (mn_pre n1) (mn_next n1) = Some h2"
    "dlist h2 l (xs @ ys)" "dt h2 = dt h" "mh_blocks h2 = mh_blocks h" "dom (mh_nodes h2) = dom (mh_nodes h)"
    using unlink_swapped [OF assms] by blast
  obtain n2 where n2: "mh_nodes h2 p = Some n2" using s(1,8) by blast
  let ?h = "h2\<lparr>mh_nodes := (mh_nodes h2)(p := None)\<rparr>"
  have "p \<notin> set (l # xs @ ys)" using assms by (auto simp: dlist_def)
  then have "dlist ?h l (xs @ ys)" by (intro dlist_cong [OF s(5)]) (auto simp: nx_def pv_def)
  then show ?thesis
    using q s n2 by (simp add: remove_head_manager_node_def insert_head_manager_list_def free_node_def)
qed

theorem remove_head_loses_element_witness:
  "\<exists>h'. remove_head_manager_node None
      \<lparr>mh_nodes = [1 \<mapsto> \<lparr>mn_data = 0, mn_next = 2, mn_pre = 2\<rparr>, 2 \<mapsto> \<lparr>mn_data = 9, mn_next = 1, mn_pre = 1\<rparr>],
       mh_blocks = [9 \<mapsto> CHR ''x'']\<rparr> 1 2 = Some (h', 0) \<and> dlist h' 1 [] \<and> mh_blocks h' 9 = Some (CHR ''x'')"
proof -
  let ?h = "\<lparr>mh_nodes = [1 \<mapsto> \<lparr>mn_data = 0, mn_next = 2, mn_pre = 2\<rparr>, 2 \<mapsto> \<lparr>mn_data = 9, mn_next = 1, mn_pre = 1\<rparr>],
    mh_blocks = [9 \<mapsto> CHR ''x'']\<rparr>"
  have "dlist ?h 1 ([] @ 2 # [])" by (simp add: dlist_def linked_def nx_def pv_def)
  from remove_head_loses_element [OF this] show ?thesis by auto
qed

end
