(* ===== verification/UserId.thy ===== *)
theory UserId
  imports ManagerList WiotaApi
begin

text \<open>
  The WIoTa id allocator, app/wiota\_manager/manager\_wiota/manager\_userid.c: reserved ids
  are kept in one list for each position of the frame and handed to devices on request.  A
  list is the list of its values, which the linked list simulates (theory ManagerList).
  The configuration, the position query of the stack and the outcome of allocations are
  parameters; \<open>mo k\<close> tells whether the \<open>k\<close>-th allocation of a call succeeds.
\<close>

section \<open>State\<close>

datatype e_allocate_flag = ADDRESS_RESERVED | ADDRESS_PREALLOCATED | ADDRESS_USING

record t_manager_address =
  address :: u32
  dev_mac :: u32
  allocate_flag :: e_allocate_flag
  current_com_count :: u8
  old_com_count :: u8
  addr_reserved :: u8

record uid_state =
  reserve_addr_hash :: "t_manager_address list list option"
  id_reallocated_index :: u8
  timer_running :: bool
  drop_registered :: bool
  reserve_requests :: nat
  replace_messages :: "(u32 \<times> u32 \<times> u32) list"

definition AP_DEFAULT_ADDRESS :: u32 where "AP_DEFAULT_ADDRESS = 0xD0000000"

definition all_index :: "sub_system_config_t \<Rightarrow> nat" where
  "all_index cfg = 2 ^ unat (group_number cfg) * 2 ^ unat (dlul_ratio cfg) * 8"

section \<open>Start and reservation\<close>

definition manager_wiotaid_start :: "bool \<Rightarrow> uid_state \<Rightarrow> uid_state option" where
  "manager_wiotaid_start timer_ok s =
     (if timer_running s then Some (s\<lparr>drop_registered := True\<rparr>)
      else do { c_assert timer_ok; Some (s\<lparr>timer_running := True, drop_registered := True\<rparr>) })"

definition manager_address_init :: "bool \<Rightarrow> sub_system_config_t \<Rightarrow> uid_state \<Rightarrow> uid_state option" where
  "manager_address_init hash_ok cfg s =
     (case reserve_addr_hash s of
        Some _ \<Rightarrow> Some s
      | None \<Rightarrow> do {
          c_assert hash_ok;
          Some (s\<lparr>reserve_addr_hash := Some (replicate (all_index cfg) []),
                  reserve_requests := reserve_requests s + 1\<rparr>)
        })"

definition manager_address_exit :: "uid_state \<Rightarrow> uid_state option" where
  "manager_address_exit s = do { c_assert (timer_running s); Some (s\<lparr>timer_running := False\<rparr>) }"

definition new_address :: "u32 \<Rightarrow> t_manager_address" where
  "new_address a = \<lparr>address = a, dev_mac = 0, allocate_flag = ADDRESS_RESERVED,
                    current_com_count = 0, old_com_count = 0, addr_reserved = 0\<rparr>"

text \<open>One id after the other to the head of its list; the node of an id that cannot be
  allocated is a fault, a list node that cannot be allocated drops the id.\<close>

fun reserve_loop ::
  "(nat \<Rightarrow> bool) \<Rightarrow> nat \<Rightarrow> (u32 \<times> nat) list \<Rightarrow> t_manager_address list list \<Rightarrow> t_manager_address list list option" where
  "reserve_loop mo k [] hash = Some hash"
| "reserve_loop mo k ((a, pos) # rest) hash = do {
     c_assert (mo k);
     l \<leftarrow> mem_get hash pos;
     reserve_loop mo (k + 2) rest (if mo (k + 1) then hash[pos := new_address a # l] else hash)
   }"

text \<open>\<open>query ids\<close> is the result of uc\_wiota\_query\_dev\_pos\_by\_userid: group and burst
  index of every id.\<close>

definition manager_get_reserved_address ::
  "(nat \<Rightarrow> bool) \<Rightarrow> (u32 list \<Rightarrow> (u8 \<times> u8) list option) \<Rightarrow> u32 \<Rightarrow> u32 \<Rightarrow> uid_state \<Rightarrow> uid_state option" where
  "manager_get_reserved_address mo query start_id end_id s = (
     let count = unat (end_id - start_id + 1) in do {
       c_assert (0 < count \<and> count < 2 ^ 31 \<and> mo 0);
       let ids = map (\<lambda>i. start_id + of_nat i) [0..<count];
       case query ids of
         None \<Rightarrow> Some s
       | Some poss \<Rightarrow> do {
           hash \<leftarrow> reserve_addr_hash s;
           c_assert (length poss = count);
           hash' \<leftarrow> reserve_loop mo 1 (zip ids (map (\<lambda>(g, b). unat b + unat g * 8) poss)) hash;
           Some (s\<lparr>reserve_addr_hash := Some hash'\<rparr>)
         }
     })"

section \<open>Allocation\<close>

definition query_element_allocate :: "u32 \<Rightarrow> t_manager_address \<Rightarrow> bool" where
  "query_element_allocate mac d \<longleftrightarrow> allocate_flag d = ADDRESS_PREALLOCATED \<and> mac = dev_mac d"

definition counter_element_reserved :: "t_manager_address \<Rightarrow> bool" where
  "counter_element_reserved d \<longleftrightarrow> allocate_flag d = ADDRESS_RESERVED"

text \<open>A write through the node query\_head\_list returned.\<close>

fun update_first :: "('a \<Rightarrow> bool) \<Rightarrow> ('a \<Rightarrow> 'a) \<Rightarrow> 'a list \<Rightarrow> 'a list" where
  "update_first P f [] = []"
| "update_first P f (x # xs) = (if P x then f x # xs else x # update_first P f xs)"

text \<open>The first loop: \<open>k\<close> lists are left, the next one is \<open>i\<close>.\<close>

fun find_allocated :: "nat \<Rightarrow> nat \<Rightarrow> u32 \<Rightarrow> t_manager_address list list \<Rightarrow> (nat \<times> t_manager_address) option option" where
  "find_allocated 0 i mac hash = Some None"
| "find_allocated (Suc k) i mac hash = do {
     l \<leftarrow> mem_get hash i;
     case find (query_element_allocate mac) l of
       Some d \<Rightarrow> Some (Some (i, d))
     | None \<Rightarrow> find_allocated k (i + 1) mac hash
   }"

definition allocate :: "u32 \<Rightarrow> t_manager_address \<Rightarrow> t_manager_address" where
  "allocate mac d = d\<lparr>allocate_flag := ADDRESS_PREALLOCATED, current_com_count := current_com_count d + 1, dev_mac := mac\<rparr>"

definition next_index :: "nat \<Rightarrow> u8 \<Rightarrow> u8" where
  "next_index n i = (if unat (i + 1) > n - 1 then 0 else i + 1)"

text \<open>The second loop; it looks at the list of the current index every time.\<close>

fun realloc_loop :: "nat \<Rightarrow> nat \<Rightarrow> u32 \<Rightarrow> u32 \<Rightarrow> t_manager_address list list \<Rightarrow> uid_state \<Rightarrow> uid_state option" where
  "realloc_loop 0 n dev wid hash s = Some s"
| "realloc_loop (Suc k) n dev wid hash s = do {
     let i = unat (id_reallocated_index s);
     l \<leftarrow> mem_get hash i;
     if length (filter counter_element_reserved l) \<noteq> 0 then
       (case find counter_element_reserved l of
          None \<Rightarrow> realloc_loop k n dev wid hash s
        | Some d \<Rightarrow>
            Some (s\<lparr>reserve_addr_hash := Some (hash[i := update_first counter_element_reserved (allocate dev) l]),
                    replace_messages := replace_messages s @ [(AP_DEFAULT_ADDRESS, wid, address d)],
                    id_reallocated_index := next_index n (id_reallocated_index s)\<rparr>))
     else realloc_loop k n dev wid hash s
   }"

definition manager_reallocated_wiotaid ::
  "sub_system_config_t \<Rightarrow> u32 \<Rightarrow> u32 \<Rightarrow> uid_state \<Rightarrow> uid_state option" where
  "manager_reallocated_wiotaid cfg dev wid s = do {
     let n = all_index cfg;
     hash \<leftarrow> reserve_addr_hash s;
     r \<leftarrow> find_allocated n 0 dev hash;
     case r of
       Some (i, d) \<Rightarrow>
         Some (s\<lparr>reserve_addr_hash := Some (hash[i := update_first (query_element_allocate dev)
                    (\<lambda>d. d\<lparr>current_com_count := current_com_count d + 1\<rparr>) (hash ! i)]),
                 replace_messages := replace_messages s @ [(AP_DEFAULT_ADDRESS, wid, address d)]\<rparr>)
     | None \<Rightarrow> realloc_loop n n dev wid hash s
   }"

definition manager_query_wiotaid :: "sub_system_config_t \<Rightarrow> u32 \<Rightarrow> uid_state \<Rightarrow> u32 option" where
  "manager_query_wiotaid cfg mac s = do {
     hash \<leftarrow> reserve_addr_hash s;
     r \<leftarrow> find_allocated (all_index cfg) 0 mac hash;
     case r of Some (i, d) \<Rightarrow> Some (address d) | None \<Rightarrow> Some mac
   }"

section \<open>The table as one sequence\<close>

definition prealloc :: "t_manager_address \<Rightarrow> bool" where
  "prealloc d \<longleftrightarrow> allocate_flag d = ADDRESS_PREALLOCATED"

text \<open>No id is listed twice and no device owns two ids.\<close>

definition ids_ok :: "t_manager_address list \<Rightarrow> bool" where
  "ids_ok ds \<longleftrightarrow> distinct (map address ds) \<and> distinct (map dev_mac (filter prealloc ds))"

definition uid_ok :: "sub_system_config_t \<Rightarrow> uid_state \<Rightarrow> bool" where
  "uid_ok cfg s \<longleftrightarrow> (case reserve_addr_hash s of None \<Rightarrow> False
     | Some hash \<Rightarrow> length hash = all_index cfg \<and> unat (id_reallocated_index s) < all_index cfg \<and> ids_ok (concat hash))"

lemma all_index_pos [simp]: "0 < all_index cfg"
  by (simp add: all_index_def)

lemma update_first_split:
  "find P l = Some d \<Longrightarrow> \<exists>us ws. l = us @ d # ws \<and> update_first P f l = us @ f d # ws \<and> P d"
proof (induction l)
  case (Cons x l)
  show ?case
  proof (cases "P x")
    case True
    then show ?thesis using Cons.prems by (intro exI [of _ "[]"] exI [of _ l]) auto
  next
    case False
    then obtain us ws where "l = us @ d # ws" "update_first P f l = us @ f d # ws" "P d" using Cons by auto
    then show ?thesis using False by (intro exI [of _ "x # us"] exI [of _ ws]) simp
  qed
qed simp

lemma concat_update:
  assumes "mem_get hash i = Some l" "find P l = Some d"
  shows "\<exists>us ws. concat hash = us @ d # ws \<and> concat (hash[i := update_first P f l]) = us @ f d # ws \<and> P d"
proof -
  have i: "i < length hash" "l = hash ! i" using assms(1) by (auto simp: mem_get_def split: if_splits)
  obtain us ws where l: "l = us @ d # ws" "update_first P f l = us @ f d # ws" "P d"
    using update_first_split [OF assms(2)] by blast
  have "concat hash = concat (take i hash) @ l @ concat (drop (Suc i) hash)"
    using id_take_nth_drop [OF i(1)] i(2) by (metis concat.simps(2) concat_append)
  moreover have "concat (hash[i := update_first P f l]) =
      concat (take i hash) @ update_first P f l @ concat (drop (Suc i) hash)"
    using i(1) by (simp add: upd_conv_take_nth_drop)
  ultimately show ?thesis using l
    by (intro exI [of _ "concat (take i hash) @ us"] exI [of _ "ws @ concat (drop (Suc i) hash)"]) simp
qed

lemma find_append: "find P (xs @ ys) = (case find P xs of None \<Rightarrow> find P ys | Some x \<Rightarrow> Some x)"
  by (induction xs) auto

lemma find_allocated_spec:
  "i + k = length hash \<Longrightarrow> \<exists>r. find_allocated k i mac hash = Some r \<and>
     map_option snd r = find (query_element_allocate mac) (concat (drop i hash)) \<and>
     (\<forall>j d. r = Some (j, d) \<longrightarrow> mem_get hash j = Some (hash ! j) \<and> find (query_element_allocate mac) (hash ! j) = Some d)"
proof (induction k arbitrary: i)
  case (Suc k)
  then have i: "i < length hash" by simp
  then have d: "concat (drop i hash) = hash ! i @ concat (drop (i + 1) hash)"
    by (simp flip: Cons_nth_drop_Suc)
  show ?case
  proof (cases "find (query_element_allocate mac) (hash ! i)")
    case None
    then show ?thesis using Suc.IH [of "i + 1"] Suc.prems i d by (simp add: mem_get_def find_append)
  next
    case (Some x)
    then show ?thesis using i d by (simp add: mem_get_def find_append)
  qed
qed simp

text \<open>What a query answers depends on the sequence of entries only.\<close>

definition answer :: "u32 \<Rightarrow> t_manager_address list \<Rightarrow> u32" where
  "answer mac ds = (case find (query_element_allocate mac) ds of None \<Rightarrow> mac | Some d \<Rightarrow> address d)"

lemma query_answer:
  assumes "uid_ok cfg s" "reserve_addr_hash s = Some hash"
  shows "manager_query_wiotaid cfg mac s = Some (answer mac (concat hash))"
proof -
  have "0 + all_index cfg = length hash" using assms by (simp add: uid_ok_def)
  from find_allocated_spec [OF this, of mac] obtain r where
    "find_allocated (all_index cfg) 0 mac hash = Some r"
    "map_option snd r = find (query_element_allocate mac) (concat hash)" by auto
  then show ?thesis using assms(2) by (auto simp: manager_query_wiotaid_def answer_def split: option.splits)
qed

lemma answer_replace:
  assumes "\<not> query_element_allocate mac d" "\<not> query_element_allocate mac e"
  shows "answer mac (us @ e # ws) = answer mac (us @ d # ws)"
  using assms by (simp add: answer_def find_append cong: option.case_cong)

lemma realloc_loop_spec:
  assumes "mem_get hash (unat (id_reallocated_index s)) = Some l" "0 < k"
  shows "realloc_loop k n dev wid hash s =
    (case find counter_element_reserved l of
       None \<Rightarrow> Some s
     | Some d \<Rightarrow>
         Some (s\<lparr>reserve_addr_hash := Some (hash[unat (id_reallocated_index s) := update_first counter_element_reserved (allocate dev) l]),
                 replace_messages := replace_messages s @ [(AP_DEFAULT_ADDRESS, wid, address d)],
                 id_reallocated_index := next_index n (id_reallocated_index s)\<rparr>))"
proof (cases "find counter_element_reserved l")
  case None
  then have "filter counter_element_reserved l = []" by (simp add: find_None_iff filter_empty_conv)
  then have "realloc_loop k n dev wid hash s = Some s"
    using assms(1) by (induction k) simp_all
  then show ?thesis using None by simp
next
  case (Some d)
  then have "filter counter_element_reserved l \<noteq> []" by (auto simp: find_Some_iff filter_empty_conv)
  then show ?thesis using assms Some by (cases k) simp_all
qed

lemma next_index_lt: "0 < n \<Longrightarrow> unat (next_index n i) < n"
  by (auto simp: next_index_def)

lemma ids_ok_keep:
  assumes "ids_ok (us @ d # ws)" "address e = address d" "dev_mac e = dev_mac d" "allocate_flag e = allocate_flag d"
  shows "ids_ok (us @ e # ws)"
  using assms by (auto simp: ids_ok_def prealloc_def)

lemma ids_ok_allocate:
  assumes "ids_ok (us @ d # ws)" "allocate_flag d = ADDRESS_RESERVED"
    "find (query_element_allocate dev) (us @ d # ws) = None"
  shows "ids_ok (us @ allocate dev d # ws)"
  using assms by (auto simp: ids_ok_def allocate_def prealloc_def find_None_iff query_element_allocate_def)


lemma reallocated_known:
  assumes "uid_ok cfg s" "reserve_addr_hash s = Some hash" "find (query_element_allocate dev) (concat hash) = Some d"
  shows "\<exists>hash'. manager_reallocated_wiotaid cfg dev wid s =
      Some (s\<lparr>reserve_addr_hash := Some hash', replace_messages := replace_messages s @ [(AP_DEFAULT_ADDRESS, wid, address d)]\<rparr>) \<and>
    length hash' = length hash \<and>
    (\<exists>us ws. concat hash = us @ d # ws \<and> concat hash' = us @ d\<lparr>current_com_count := current_com_count d + 1\<rparr> # ws)"
proof -
  have "0 + all_index cfg = length hash" using assms by (simp add: uid_ok_def)
  from find_allocated_spec [OF this, of dev] obtain i where
    r: "find_allocated (all_index cfg) 0 dev hash = Some (Some (i, d))" "mem_get hash i = Some (hash ! i)"
      "find (query_element_allocate dev) (hash ! i) = Some d"
    using assms(3) by (auto simp: map_option_eq_Some)
  let ?f = "\<lambda>d. d\<lparr>current_com_count := current_com_count d + 1\<rparr>"
  have "\<exists>us ws. concat hash = us @ d # ws \<and> concat (hash[i := update_first (query_element_allocate dev) ?f (hash ! i)]) = us @ ?f d # ws"
    using concat_update [OF r(2,3), of ?f] by blast
  then show ?thesis
    using r(1) assms(2)
    by (intro exI [of _ "hash[i := update_first (query_element_allocate dev) ?f (hash ! i)]"] conjI)
      (simp_all add: manager_reallocated_wiotaid_def)
qed

lemma reallocated_new:
  assumes "uid_ok cfg s" "reserve_addr_hash s = Some hash" "find (query_element_allocate dev) (concat hash) = None"
    "l = hash ! unat (id_reallocated_index s)"
  shows "case find counter_element_reserved l of
      None \<Rightarrow> manager_reallocated_wiotaid cfg dev wid s = Some s
    | Some d \<Rightarrow> \<exists>hash'. manager_reallocated_wiotaid cfg dev wid s =
        Some (s\<lparr>reserve_addr_hash := Some hash', replace_messages := replace_messages s @ [(AP_DEFAULT_ADDRESS, wid, address d)],
                id_reallocated_index := next_index (all_index cfg) (id_reallocated_index s)\<rparr>) \<and>
        length hash' = length hash \<and> allocate_flag d = ADDRESS_RESERVED \<and>
        (\<exists>us ws. concat hash = us @ d # ws \<and> concat hash' = us @ allocate dev d # ws)"
proof -
  have n: "0 + all_index cfg = length hash" and i: "unat (id_reallocated_index s) < length hash"
    using assms(1,2) by (simp_all add: uid_ok_def)
  have l: "mem_get hash (unat (id_reallocated_index s)) = Some l" using i assms(4) by (simp add: mem_get_def)
  have r: "find_allocated (all_index cfg) 0 dev hash = Some None"
    using find_allocated_spec [OF n, of dev] assms(3) by auto
  have run: "manager_reallocated_wiotaid cfg dev wid s = realloc_loop (all_index cfg) (all_index cfg) dev wid hash s"
    using assms(2) r by (simp add: manager_reallocated_wiotaid_def Let_def)
  show ?thesis
  proof (cases "find counter_element_reserved l")
    case None
    then show ?thesis using run realloc_loop_spec [OF l all_index_pos] by simp
  next
    case (Some d)
    let ?hash = "hash[unat (id_reallocated_index s) := update_first counter_element_reserved (allocate dev) l]"
    have "\<exists>us ws. concat hash = us @ d # ws \<and> concat ?hash = us @ allocate dev d # ws"
      using concat_update [OF l Some, of "allocate dev"] by blast
    moreover have "allocate_flag d = ADDRESS_RESERVED"
      using Some by (auto simp: find_Some_iff counter_element_reserved_def)
    ultimately show ?thesis
      using run realloc_loop_spec [OF l all_index_pos] Some by (simp, intro exI [of _ ?hash]) simp
  qed
qed

text \<open>The effect of a request, in terms of what queries answer.\<close>

definition request_ok :: "sub_system_config_t \<Rightarrow> u32 \<Rightarrow> u32 \<Rightarrow> uid_state \<Rightarrow> uid_state \<Rightarrow> bool" where
  "request_ok cfg dev wid s s' \<longleftrightarrow> uid_ok cfg s' \<and>
    (\<forall>mac. mac \<noteq> dev \<longrightarrow> manager_query_wiotaid cfg mac s' = manager_query_wiotaid cfg mac s) \<and>
    (s' = s \<and> manager_query_wiotaid cfg dev s = Some dev \<or>
     (\<exists>new. replace_messages s' = replace_messages s @ [(AP_DEFAULT_ADDRESS, wid, new)] \<and>
        manager_query_wiotaid cfg dev s' = Some new \<and> manager_query_wiotaid cfg dev s \<in> {Some dev, Some new}))"

lemma request_known:
  assumes "uid_ok cfg s" "reserve_addr_hash s = Some hash" "find (query_element_allocate dev) (concat hash) = Some d"
  shows "\<exists>s'. manager_reallocated_wiotaid cfg dev wid s = Some s' \<and> request_ok cfg dev wid s s'"
proof -
  let ?e = "d\<lparr>current_com_count := current_com_count d + 1\<rparr>"
  obtain hash' us ws where r: "manager_reallocated_wiotaid cfg dev wid s =
      Some (s\<lparr>reserve_addr_hash := Some hash', replace_messages := replace_messages s @ [(AP_DEFAULT_ADDRESS, wid, address d)]\<rparr>)"
    "length hash' = length hash" "concat hash = us @ d # ws" "concat hash' = us @ ?e # ws"
    using reallocated_known [OF assms] by blast
  let ?s = "s\<lparr>reserve_addr_hash := Some hash', replace_messages := replace_messages s @ [(AP_DEFAULT_ADDRESS, wid, address d)]\<rparr>"
  have "ids_ok (concat hash')" using assms(1,2) r(3,4) ids_ok_keep [of us d ws ?e] by (simp add: uid_ok_def)
  then have ok: "uid_ok cfg ?s" using assms(1,2) r(2) by (simp add: uid_ok_def)
  have dq: "query_element_allocate mac d \<longleftrightarrow> mac = dev" for mac
    using assms(3) by (auto simp: find_Some_iff query_element_allocate_def)
  then have eq: "query_element_allocate mac ?e \<longleftrightarrow> mac = dev" for mac by (simp add: query_element_allocate_def)
  have before: "manager_query_wiotaid cfg mac s = Some (answer mac (concat hash))" for mac
    by (rule query_answer [OF assms(1,2)])
  have after: "manager_query_wiotaid cfg mac ?s = Some (answer mac (concat hash'))" for mac
    by (rule query_answer [OF ok]) simp
  have "find (query_element_allocate dev) us = None \<or> find (query_element_allocate dev) us = Some d"
    using assms(3) r(3) by (cases "find (query_element_allocate dev) us") (auto simp: find_append)
  then have "answer dev (concat hash') = address d" using eq unfolding r(4) by (auto simp: answer_def find_append)
  moreover have "answer mac (concat hash') = answer mac (concat hash)" if "mac \<noteq> dev" for mac
    unfolding r(3,4) using that dq eq by (intro answer_replace) auto
  moreover have "answer dev (concat hash) = address d" using assms(3) by (simp add: answer_def)
  ultimately have "request_ok cfg dev wid s ?s" using ok before after by (auto simp: request_ok_def)
  then show ?thesis using r(1) by blast
qed

lemma request_new:
  assumes "uid_ok cfg s" "reserve_addr_hash s = Some hash" "find (query_element_allocate dev) (concat hash) = None"
  shows "\<exists>s'. manager_reallocated_wiotaid cfg dev wid s = Some s' \<and> request_ok cfg dev wid s s'"
proof -
  have before: "manager_query_wiotaid cfg mac s = Some (answer mac (concat hash))" for mac
    by (rule query_answer [OF assms(1,2)])
  have dev: "answer dev (concat hash) = dev" using assms(3) by (simp add: answer_def)
  show ?thesis
  proof (cases "find counter_element_reserved (hash ! unat (id_reallocated_index s))")
    case None
    then show ?thesis using reallocated_new [OF assms refl] assms(1) before dev by (simp add: request_ok_def)
  next
    case (Some d)
    obtain hash' us ws where r: "manager_reallocated_wiotaid cfg dev wid s =
        Some (s\<lparr>reserve_addr_hash := Some hash', replace_messages := replace_messages s @ [(AP_DEFAULT_ADDRESS, wid, address d)],
          id_reallocated_index := next_index (all_index cfg) (id_reallocated_index s)\<rparr>)"
      "length hash' = length hash" "allocate_flag d = ADDRESS_RESERVED" "concat hash = us @ d # ws"
      "concat hash' = us @ allocate dev d # ws"
      using reallocated_new [OF assms refl, of wid] Some by auto
    let ?s = "s\<lparr>reserve_addr_hash := Some hash', replace_messages := replace_messages s @ [(AP_DEFAULT_ADDRESS, wid, address d)],
      id_reallocated_index := next_index (all_index cfg) (id_reallocated_index s)\<rparr>"
    have "ids_ok (concat hash')"
      using assms r(3,4,5) ids_ok_allocate [of us d ws dev] by (simp add: uid_ok_def)
    then have ok: "uid_ok cfg ?s" using assms(1,2) r(2) next_index_lt by (simp add: uid_ok_def)
    have after: "manager_query_wiotaid cfg mac ?s = Some (answer mac (concat hash'))" for mac
      by (rule query_answer [OF ok]) simp
    have "find (query_element_allocate dev) us = None"
      using assms(3) r(4) by (auto simp: find_append split: option.splits)
    then have "answer dev (concat hash') = address d"
      unfolding r(5) by (simp add: answer_def find_append allocate_def query_element_allocate_def)
    moreover have "answer mac (concat hash') = answer mac (concat hash)" if "mac \<noteq> dev" for mac
      unfolding r(4,5) using that r(3) by (intro answer_replace) (auto simp: query_element_allocate_def allocate_def)
    ultimately have "request_ok cfg dev wid s ?s" using ok before after dev by (auto simp: request_ok_def)
    then show ?thesis using r(1) by blast
  qed
qed

lemma request_total:
  assumes "uid_ok cfg s"
  shows "\<exists>s'. manager_reallocated_wiotaid cfg dev wid s = Some s' \<and> request_ok cfg dev wid s s'"
proof -
  obtain hash where "reserve_addr_hash s = Some hash" using assms by (auto simp: uid_ok_def split: option.splits)
  then show ?thesis
    using request_known [OF assms] request_new [OF assms]
    by (cases "find (query_element_allocate dev) (concat hash)") blast+
qed

text \<open>A table of eight lists with one reserved id, for the examples.\<close>

definition sample_cfg :: sub_system_config_t where
  "sample_cfg = \<lparr>ap_tx_power = 0, id_len = 0, pp = 0, symbol_length = 0, dlul_ratio = 0, bt_value = 0,
     group_number = 0, spectrum_idx = 0, old_subsys_v = 0, bitscb = 0, freq_idx = 0, sc_reserved = 0, subsystem_id = 0\<rparr>"

definition sample_ids :: uid_state where
  "sample_ids = \<lparr>reserve_addr_hash = Some [[], [new_address 0x100], [], [], [], [], [], []], id_reallocated_index = 1,
     timer_running = True, drop_registered = True, reserve_requests = 1, replace_messages = []\<rparr>"

lemma sample_ids_ok: "uid_ok sample_cfg sample_ids" "uid_ok sample_cfg (sample_ids\<lparr>id_reallocated_index := 0\<rparr>)"
  by (simp_all add: uid_ok_def sample_ids_def sample_cfg_def ids_ok_def all_index_def prealloc_def new_address_def)

section \<open>Properties\<close>

text \<open>C14: The allocator never gives one id to two devices nor two ids to one device.  A request
  of a device always returns; it either changes nothing and sends nothing, because the device
  owns no id and the current list has none left, or it answers with one id, the one the device
  already owned if there is one, which queries for the device return from then on.  What
  queries return for every other device stays the same.\<close>

theorem wiotaid_allocation:
  assumes "uid_ok cfg s"
  shows "\<exists>s'. manager_reallocated_wiotaid cfg dev wid s = Some s' \<and> uid_ok cfg s' \<and>
    (\<forall>mac. mac \<noteq> dev \<longrightarrow> manager_query_wiotaid cfg mac s' = manager_query_wiotaid cfg mac s) \<and>
    (s' = s \<and> manager_query_wiotaid cfg dev s = Some dev \<or>
     (\<exists>new. replace_messages s' = replace_messages s @ [(AP_DEFAULT_ADDRESS, wid, new)] \<and>
        manager_query_wiotaid cfg dev s' = Some new \<and> manager_query_wiotaid cfg dev s \<in> {Some dev, Some new}))"
proof -
  have "\<exists>s'. manager_reallocated_wiotaid cfg dev wid s = Some s' \<and> request_ok cfg dev wid s s'"
    by (rule request_total [OF assms])
  then show ?thesis by (simp add: request_ok_def)
qed

theorem wiotaid_allocation_witness:
  "\<exists>s'. manager_reallocated_wiotaid sample_cfg 7 0x55 sample_ids = Some s' \<and> uid_ok sample_cfg s' \<and>
     manager_query_wiotaid sample_cfg 7 s' = Some 0x100 \<and> replace_messages s' = [(AP_DEFAULT_ADDRESS, 0x55, 0x100)]"
proof -
  have "manager_reallocated_wiotaid sample_cfg 7 0x55 sample_ids \<noteq> Some sample_ids" by code_simp
  moreover have "map_option replace_messages (manager_reallocated_wiotaid sample_cfg 7 0x55 sample_ids) =
      Some [(AP_DEFAULT_ADDRESS, 0x55, 0x100)]" by code_simp
  ultimately show ?thesis
    using wiotaid_allocation [OF sample_ids_ok(1), where dev = 7 and wid = "0x55"] by (auto simp: sample_ids_def)
qed

text \<open>Free ids may never be used.  When the list of the current index has no reserved id
  left, a new device gets no answer however many ids the other lists hold: the index only
  moves after an allocation.\<close>

theorem wiotaid_starvation:
  assumes "uid_ok cfg s" "reserve_addr_hash s = Some hash"
    "\<And>d. d \<in> set (concat hash) \<Longrightarrow> allocate_flag d = ADDRESS_PREALLOCATED \<Longrightarrow> dev_mac d \<noteq> dev"
    "\<And>d. d \<in> set (hash ! unat (id_reallocated_index s)) \<Longrightarrow> allocate_flag d \<noteq> ADDRESS_RESERVED"
  shows "manager_reallocated_wiotaid cfg dev wid s = Some s"
proof -
  have "find (query_element_allocate dev) (concat hash) = None"
    using assms(3) by (fastforce simp: find_None_iff query_element_allocate_def)
  moreover have "find counter_element_reserved (hash ! unat (id_reallocated_index s)) = None"
    using assms(4) by (simp add: find_None_iff counter_element_reserved_def)
  ultimately show ?thesis using reallocated_new [OF assms(1,2) _ refl, of dev wid] by simp
qed

theorem wiotaid_starvation_witness:
  "manager_reallocated_wiotaid sample_cfg 7 0x55 (sample_ids\<lparr>id_reallocated_index := 0\<rparr>) =
     Some (sample_ids\<lparr>id_reallocated_index := 0\<rparr>)"
proof (rule wiotaid_starvation [OF sample_ids_ok(2)])
  show "reserve_addr_hash (sample_ids\<lparr>id_reallocated_index := 0\<rparr>) = Some [[], [new_address 0x100], [], [], [], [], [], []]"
    by (simp add: sample_ids_def)
qed (auto simp: new_address_def sample_ids_def)

end
