(* ===== verification/MessageQueue.thy ===== *)
theory MessageQueue
  imports Prelude
begin

text \<open>
  The message queues of the kernel (rt-thread/src/ipc.c, struct rt\_messagequeue of
  rtdef.h) and their wrapper app/platfrom/manager\_queue.c, through which the tasks of the
  application talk to each other.  The messages of the pool are linked into a queue and a
  free list; they are named by their number, the \<open>i\<close>-th at \<open>msg_pool + i * (msg_size + 4)\<close>.
  The calls are not atomic: interrupts are enabled while a message is copied.  A thread
  inside a call is therefore a program counter between two critical sections, and a run
  is any interleaving of such sections of any number of threads.
\<close>

section \<open>Threads\<close>

type_synonym slot = nat
type_synonym tid = nat

definition RT_EOK :: int where "RT_EOK = 0"
definition RT_ERROR :: int where "RT_ERROR = 1"
definition RT_ETIMEOUT :: int where "RT_ETIMEOUT = 2"
definition RT_EFULL :: int where "RT_EFULL = 3"
definition RT_MQ_ENTRY_MAX :: nat where "RT_MQ_ENTRY_MAX = 65535"

text \<open>
  Where a thread stands; \<open>'i\<close> is a message taken from one of the lists.  The numbers are
  timeouts and sizes.
\<close>

datatype 'i mq_pc =
    Idle
  | Send_start bytes int
  | Send_blocked bytes int
  | Send_woken bytes int
  | Send_fill 'i bytes
  | Send_link 'i
  | Urgent_start bytes
  | Urgent_fill 'i bytes
  | Urgent_link 'i
  | Recv_start nat int
  | Recv_blocked nat int
  | Recv_woken nat int
  | Recv_copy 'i nat
  | Recv_release 'i bytes
  | Sent int
  | Received int "bytes option"

record 'i mq_threads =
  ipc_prio :: bool
  current_priority :: "tid \<Rightarrow> nat"
  suspend_thread :: "tid list"
  suspend_sender_thread :: "tid list"
  pc :: "tid \<Rightarrow> 'i mq_pc"

definition set_pc :: "tid \<Rightarrow> 'i mq_pc \<Rightarrow> 'i mq_threads \<Rightarrow> 'i mq_threads" where
  "set_pc t p th = th\<lparr>pc := (pc th)(t := p)\<rparr>"

definition rt_ipc_list_suspend :: "bool \<Rightarrow> (tid \<Rightarrow> nat) \<Rightarrow> tid \<Rightarrow> tid list \<Rightarrow> tid list" where
  "rt_ipc_list_suspend by_prio prio t ts =
     (if by_prio then takeWhile (\<lambda>u. \<not> prio t < prio u) ts @ t # dropWhile (\<lambda>u. \<not> prio t < prio u) ts
      else ts @ [t])"

fun wake_recv :: "'i mq_pc \<Rightarrow> 'i mq_pc" where
  "wake_recv (Recv_blocked n k) = Recv_woken n k"
| "wake_recv p = p"

fun wake_send :: "'i mq_pc \<Rightarrow> 'i mq_pc" where
  "wake_send (Send_blocked b k) = Send_woken b k"
| "wake_send p = p"

text \<open>rt\_ipc\_list\_resume on either list, skipped when the list is empty.\<close>

definition resume_recv :: "'i mq_threads \<Rightarrow> 'i mq_threads" where
  "resume_recv th =
     (case suspend_thread th of
        [] \<Rightarrow> th
      | t # ts \<Rightarrow> (set_pc t (wake_recv (pc th t)) th)\<lparr>suspend_thread := ts\<rparr>)"

definition resume_send :: "'i mq_threads \<Rightarrow> 'i mq_threads" where
  "resume_send th =
     (case suspend_sender_thread th of
        [] \<Rightarrow> th
      | t # ts \<Rightarrow> (set_pc t (wake_send (pc th t)) th)\<lparr>suspend_sender_thread := ts\<rparr>)"

text \<open>A woken thread returns its error number, if there is one.\<close>

fun fail_with :: "int \<Rightarrow> 'i mq_pc \<Rightarrow> 'i mq_pc" where
  "fail_with e (Recv_blocked _ _) = Received e None"
| "fail_with e (Send_blocked _ _) = Sent e"
| "fail_with e p = p"

definition rt_ipc_list_resume_all :: "'i mq_threads \<Rightarrow> 'i mq_threads" where
  "rt_ipc_list_resume_all th =
     th\<lparr>pc := (\<lambda>t. if t \<in> set (suspend_thread th @ suspend_sender_thread th) then fail_with (- RT_ERROR) (pc th t)
                    else pc th t),
        suspend_thread := [], suspend_sender_thread := []\<rparr>"

fun timer_running :: "'i mq_pc \<Rightarrow> bool" where
  "timer_running (Recv_blocked _ k) \<longleftrightarrow> k > 0"
| "timer_running (Send_blocked _ k) \<longleftrightarrow> k > 0"
| "timer_running p \<longleftrightarrow> False"

definition rt_thread_timeout :: "tid \<Rightarrow> 'i mq_threads \<Rightarrow> 'i mq_threads" where
  "rt_thread_timeout t th =
     (if timer_running (pc th t) then
        (set_pc t (fail_with (- RT_ETIMEOUT) (pc th t)) th)
          \<lparr>suspend_thread := removeAll t (suspend_thread th),
           suspend_sender_thread := removeAll t (suspend_sender_thread th)\<rparr>
      else th)"

definition remaining :: "int \<Rightarrow> nat \<Rightarrow> int" where
  "remaining timeout elapsed = (if timeout > 0 then max 0 (timeout - int elapsed) else timeout)"

text \<open>The calls: what the calling thread starts, when it is not inside another call.\<close>

datatype mq_call = Call_send bytes int | Call_urgent bytes | Call_recv nat int

fun call_pc :: "mq_call \<Rightarrow> 'i mq_pc" where
  "call_pc (Call_send b k) = Send_start b k"
| "call_pc (Call_urgent b) = Urgent_start b"
| "call_pc (Call_recv n k) = Recv_start n k"

fun outside :: "'i mq_pc \<Rightarrow> bool" where
  "outside Idle \<longleftrightarrow> True"
| "outside (Sent _) \<longleftrightarrow> True"
| "outside (Received _ _) \<longleftrightarrow> True"
| "outside _ \<longleftrightarrow> False"

definition start_call :: "tid \<Rightarrow> mq_call \<Rightarrow> 'i mq_threads \<Rightarrow> 'i mq_threads" where
  "start_call t c th = (if outside (pc th t) then set_pc t (call_pc c) th else th)"

section \<open>The queue\<close>

record rt_messagequeue =
  mq_next :: "slot \<Rightarrow> slot option"
  mq_body :: "slot \<Rightarrow> bytes"
  msg_size :: nat
  max_msgs :: nat
  mq_entry :: nat
  msg_queue_head :: "slot option"
  msg_queue_tail :: "slot option"
  msg_queue_free :: "slot option"

type_synonym mq_sys = "rt_messagequeue \<times> slot mq_threads"

fun free_list_loop :: "nat \<Rightarrow> rt_messagequeue \<Rightarrow> rt_messagequeue" where
  "free_list_loop 0 q = q"
| "free_list_loop (Suc temp) q =
     (let q' = free_list_loop temp q
      in q'\<lparr>mq_next := (mq_next q')(temp := msg_queue_free q'), msg_queue_free := Some temp\<rparr>)"

text \<open>\<open>sizeof(struct rt_mq_message)\<close> is 4; the sizes of the structure have sixteen bits.\<close>

definition rt_mq_init :: "(slot \<Rightarrow> slot option) \<Rightarrow> (slot \<Rightarrow> bytes) \<Rightarrow> nat \<Rightarrow> nat \<Rightarrow> rt_messagequeue" where
  "rt_mq_init links bodies sz pool_size =
     (let ms = to_u16 (align4 sz); mx = to_u16 (pool_size div (ms + 4))
      in free_list_loop mx
           \<lparr>mq_next = links, mq_body = bodies, msg_size = ms, max_msgs = mx, mq_entry = 0,
            msg_queue_head = None, msg_queue_tail = None, msg_queue_free = None\<rparr>)"

definition rt_mq_create ::
  "bool \<Rightarrow> bool \<Rightarrow> (slot \<Rightarrow> slot option) \<Rightarrow> (slot \<Rightarrow> bytes) \<Rightarrow> nat \<Rightarrow> nat \<Rightarrow> rt_messagequeue option" where
  "rt_mq_create object_ok pool_ok links bodies sz num =
     (let ms = to_u16 (align4 sz); mx = to_u16 num
      in if \<not> object_ok \<or> \<not> pool_ok then None
         else Some (free_list_loop mx
           \<lparr>mq_next = links, mq_body = bodies, msg_size = ms, max_msgs = mx, mq_entry = 0,
            msg_queue_head = None, msg_queue_tail = None, msg_queue_free = None\<rparr>))"

definition rt_mq_detach :: "mq_sys \<Rightarrow> mq_sys" where
  "rt_mq_detach = (\<lambda>(q, th). (q, rt_ipc_list_resume_all th))"

text \<open>The critical sections and the copies of a send.\<close>

definition send_take :: "bytes \<Rightarrow> int \<Rightarrow> tid \<Rightarrow> mq_sys \<Rightarrow> mq_sys" where
  "send_take buf timeout t = (\<lambda>(q, th).
     case msg_queue_free q of
       None \<Rightarrow>
         if timeout = 0 then (q, set_pc t (Sent (- RT_EFULL)) th)
         else (q, (set_pc t (Send_blocked buf timeout) th)
                    \<lparr>suspend_sender_thread :=
                       rt_ipc_list_suspend (ipc_prio th) (current_priority th) t (suspend_sender_thread th)\<rparr>)
     | Some msg \<Rightarrow> (q\<lparr>msg_queue_free := mq_next q msg\<rparr>, set_pc t (Send_fill msg buf) th))"

definition copy_in :: "slot \<Rightarrow> bytes \<Rightarrow> rt_messagequeue \<Rightarrow> rt_messagequeue" where
  "copy_in msg buf q = q\<lparr>mq_body := (mq_body q)(msg := buf @ drop (length buf) (mq_body q msg))\<rparr>"

definition send_copy :: "slot \<Rightarrow> bytes \<Rightarrow> tid \<Rightarrow> mq_sys \<Rightarrow> mq_sys" where
  "send_copy msg buf t = (\<lambda>(q, th).
     (copy_in msg buf (q\<lparr>mq_next := (mq_next q)(msg := None)\<rparr>), set_pc t (Send_link msg) th))"

definition count_entry :: "tid \<Rightarrow> mq_sys \<Rightarrow> mq_sys" where
  "count_entry t = (\<lambda>(q, th).
     if mq_entry q < RT_MQ_ENTRY_MAX then (q\<lparr>mq_entry := mq_entry q + 1\<rparr>, resume_recv (set_pc t (Sent RT_EOK) th))
     else (q, set_pc t (Sent (- RT_EFULL)) th))"

definition link_tail :: "slot \<Rightarrow> rt_messagequeue \<Rightarrow> rt_messagequeue" where
  "link_tail msg q =
     (let q1 = (case msg_queue_tail q of
                  Some j \<Rightarrow> q\<lparr>mq_next := (mq_next q)(j := Some msg)\<rparr>
                | None \<Rightarrow> q);
          q2 = q1\<lparr>msg_queue_tail := Some msg\<rparr>
      in if msg_queue_head q2 = None then q2\<lparr>msg_queue_head := Some msg\<rparr> else q2)"

definition send_link :: "slot \<Rightarrow> tid \<Rightarrow> mq_sys \<Rightarrow> mq_sys" where
  "send_link msg t = (\<lambda>(q, th). count_entry t (link_tail msg q, th))"

text \<open>rt\_mq\_urgent.\<close>

definition urgent_take :: "bytes \<Rightarrow> tid \<Rightarrow> mq_sys \<Rightarrow> mq_sys" where
  "urgent_take buf t = (\<lambda>(q, th).
     case msg_queue_free q of
       None \<Rightarrow> (q, set_pc t (Sent (- RT_EFULL)) th)
     | Some msg \<Rightarrow> (q\<lparr>msg_queue_free := mq_next q msg\<rparr>, set_pc t (Urgent_fill msg buf) th))"

definition link_head :: "slot \<Rightarrow> rt_messagequeue \<Rightarrow> rt_messagequeue" where
  "link_head msg q =
     (let q1 = q\<lparr>mq_next := (mq_next q)(msg := msg_queue_head q), msg_queue_head := Some msg\<rparr>
      in if msg_queue_tail q1 = None then q1\<lparr>msg_queue_tail := Some msg\<rparr> else q1)"

definition urgent_link :: "slot \<Rightarrow> tid \<Rightarrow> mq_sys \<Rightarrow> mq_sys" where
  "urgent_link msg t = (\<lambda>(q, th). count_entry t (link_head msg q, th))"

text \<open>rt\_mq\_recv: with messages counted, a null head is dereferenced.\<close>

definition recv_take :: "nat \<Rightarrow> int \<Rightarrow> tid \<Rightarrow> mq_sys \<Rightarrow> mq_sys option" where
  "recv_take sz timeout t = (\<lambda>(q, th).
     if mq_entry q = 0 then
       Some (if timeout = 0 then (q, set_pc t (Received (- RT_ETIMEOUT) None) th)
             else (q, (set_pc t (Recv_blocked sz timeout) th)
                        \<lparr>suspend_thread :=
                           rt_ipc_list_suspend (ipc_prio th) (current_priority th) t (suspend_thread th)\<rparr>))
     else do {
       msg \<leftarrow> msg_queue_head q;
       let q1 = q\<lparr>msg_queue_head := mq_next q msg\<rparr>;
       let q2 = (if msg_queue_tail q1 = Some msg then q1\<lparr>msg_queue_tail := None\<rparr> else q1);
       Some (q2\<lparr>mq_entry := mq_entry q2 - 1\<rparr>, set_pc t (Recv_copy msg sz) th)
     })"

definition recv_copy :: "slot \<Rightarrow> nat \<Rightarrow> tid \<Rightarrow> mq_sys \<Rightarrow> mq_sys" where
  "recv_copy msg sz t = (\<lambda>(q, th).
     (q, set_pc t (Recv_release msg (take (if sz > msg_size q then msg_size q else sz) (mq_body q msg))) th))"

definition recv_release :: "slot \<Rightarrow> bytes \<Rightarrow> tid \<Rightarrow> mq_sys \<Rightarrow> mq_sys" where
  "recv_release msg buf t = (\<lambda>(q, th).
     (q\<lparr>mq_next := (mq_next q)(msg := msg_queue_free q), msg_queue_free := Some msg\<rparr>,
      resume_send (set_pc t (Received RT_EOK (Some buf)) th)))"

text \<open>rt\_mq\_control with RT\_IPC\_CMD\_RESET; its loop follows the links.\<close>

partial_function (option) reset_loop :: "rt_messagequeue \<Rightarrow> rt_messagequeue option" where
  "reset_loop q =
     (case msg_queue_head q of
        None \<Rightarrow> Some q
      | Some msg \<Rightarrow>
          let q1 = q\<lparr>msg_queue_head := mq_next q msg\<rparr>;
              q2 = (if msg_queue_tail q1 = Some msg then q1\<lparr>msg_queue_tail := None\<rparr> else q1)
          in reset_loop (q2\<lparr>mq_next := (mq_next q2)(msg := msg_queue_free q2), msg_queue_free := Some msg\<rparr>))"

declare reset_loop.simps [code]

definition rt_mq_control_reset :: "mq_sys \<Rightarrow> mq_sys option" where
  "rt_mq_control_reset = (\<lambda>(q, th). do {
     q' \<leftarrow> reset_loop q;
     Some (q'\<lparr>mq_entry := 0\<rparr>, rt_ipc_list_resume_all th)
   })"

text \<open>The next section of a thread; nothing happens in a blocked thread.\<close>

definition mq_run :: "tid \<Rightarrow> nat \<Rightarrow> mq_sys \<Rightarrow> mq_sys option" where
  "mq_run t elapsed s =
     (let (q, th) = s in
      case pc th t of
        Send_start buf timeout \<Rightarrow> do {
          c_assert (buf \<noteq> []);
          Some (if length buf > msg_size q then (q, set_pc t (Sent (- RT_ERROR)) th) else send_take buf timeout t s)
        }
      | Send_woken buf timeout \<Rightarrow> Some (send_take buf (remaining timeout elapsed) t s)
      | Send_fill msg buf \<Rightarrow> Some (send_copy msg buf t s)
      | Send_link msg \<Rightarrow> Some (send_link msg t s)
      | Urgent_start buf \<Rightarrow> do {
          c_assert (buf \<noteq> []);
          Some (if length buf > msg_size q then (q, set_pc t (Sent (- RT_ERROR)) th) else urgent_take buf t s)
        }
      | Urgent_fill msg buf \<Rightarrow> Some (copy_in msg buf q, set_pc t (Urgent_link msg) th)
      | Urgent_link msg \<Rightarrow> Some (urgent_link msg t s)
      | Recv_start sz timeout \<Rightarrow> do { c_assert (sz \<noteq> 0); recv_take sz timeout t s }
      | Recv_woken sz timeout \<Rightarrow> recv_take sz (remaining timeout elapsed) t s
      | Recv_copy msg sz \<Rightarrow> Some (recv_copy msg sz t s)
      | Recv_release msg buf \<Rightarrow> Some (recv_release msg buf t s)
      | _ \<Rightarrow> Some s)"

datatype mq_event = Call tid mq_call | Run tid nat | Expire tid | Reset

fun mq_step :: "mq_event \<Rightarrow> mq_sys \<Rightarrow> mq_sys option" where
  "mq_step (Call t c) (q, th) = Some (q, start_call t c th)"
| "mq_step (Run t elapsed) s = mq_run t elapsed s"
| "mq_step (Expire t) (q, th) = Some (q, rt_thread_timeout t th)"
| "mq_step Reset s = rt_mq_control_reset s"

section \<open>The wrapper of the application\<close>

text \<open>\<open>links\<close> and \<open>bodies\<close>: what the two allocated blocks contain.\<close>

definition manager_create_queue ::
  "bool \<Rightarrow> bool \<Rightarrow> (slot \<Rightarrow> slot option) \<Rightarrow> (slot \<Rightarrow> bytes) \<Rightarrow> nat \<Rightarrow> nat \<Rightarrow> rt_messagequeue option" where
  "manager_create_queue mq_ok pool_ok links bodies sz max_num =
     (if \<not> mq_ok \<or> \<not> pool_ok then None else Some (rt_mq_init links bodies 4 (4 * max_num)))"

definition manager_recv_queue :: "int \<Rightarrow> mq_call" where
  "manager_recv_queue timeout = Call_recv 4 timeout"

definition manager_send_queue :: "u32 \<Rightarrow> int \<Rightarrow> mq_call" where
  "manager_send_queue address timeout = Call_send (le32 address) timeout"

text \<open>The address of the page is sent, waiting for at most four ticks.\<close>

definition manager_send_page :: "u32 option \<Rightarrow> mq_call option" where
  "manager_send_page page = do {
     new \<leftarrow> page;
     Some (manager_send_queue new 4)
   }"

section \<open>Specification: lists of messages\<close>

text \<open>
  The same threads over values: a queue and a stock of message buffers, without numbers or
  links.  A thread that has taken a message holds its contents.
\<close>

record mq_spec =
  sp_queue :: "bytes list"
  sp_free :: "bytes list"
  sp_size :: nat
  sp_max :: nat
  sp_threads :: "bytes mq_threads"

definition sp_set :: "tid \<Rightarrow> bytes mq_pc \<Rightarrow> mq_spec \<Rightarrow> mq_spec" where
  "sp_set t p a = a\<lparr>sp_threads := set_pc t p (sp_threads a)\<rparr>"

definition sp_send_take :: "bytes \<Rightarrow> int \<Rightarrow> tid \<Rightarrow> mq_spec \<Rightarrow> mq_spec" where
  "sp_send_take buf timeout t a =
     (let th = sp_threads a in
      case sp_free a of
        [] \<Rightarrow>
          if timeout = 0 then sp_set t (Sent (- RT_EFULL)) a
          else a\<lparr>sp_threads := (set_pc t (Send_blocked buf timeout) th)
                    \<lparr>suspend_sender_thread :=
                       rt_ipc_list_suspend (ipc_prio th) (current_priority th) t (suspend_sender_thread th)\<rparr>\<rparr>
      | m # ms \<Rightarrow> sp_set t (Send_fill m buf) (a\<lparr>sp_free := ms\<rparr>))"

definition sp_urgent_take :: "bytes \<Rightarrow> tid \<Rightarrow> mq_spec \<Rightarrow> mq_spec" where
  "sp_urgent_take buf t a =
     (case sp_free a of
        [] \<Rightarrow> sp_set t (Sent (- RT_EFULL)) a
      | m # ms \<Rightarrow> sp_set t (Urgent_fill m buf) (a\<lparr>sp_free := ms\<rparr>))"

definition sp_recv_take :: "nat \<Rightarrow> int \<Rightarrow> tid \<Rightarrow> mq_spec \<Rightarrow> mq_spec" where
  "sp_recv_take sz timeout t a =
     (let th = sp_threads a in
      case sp_queue a of
        [] \<Rightarrow>
          if timeout = 0 then sp_set t (Received (- RT_ETIMEOUT) None) a
          else a\<lparr>sp_threads := (set_pc t (Recv_blocked sz timeout) th)
                    \<lparr>suspend_thread :=
                       rt_ipc_list_suspend (ipc_prio th) (current_priority th) t (suspend_thread th)\<rparr>\<rparr>
      | m # ms \<Rightarrow> sp_set t (Recv_copy m sz) (a\<lparr>sp_queue := ms\<rparr>))"

definition sp_link :: "bytes list \<Rightarrow> tid \<Rightarrow> mq_spec \<Rightarrow> mq_spec" where
  "sp_link queue t a =
     a\<lparr>sp_queue := queue, sp_threads := resume_recv (set_pc t (Sent RT_EOK) (sp_threads a))\<rparr>"

definition sp_run :: "tid \<Rightarrow> nat \<Rightarrow> mq_spec \<Rightarrow> mq_spec" where
  "sp_run t elapsed a =
     (case pc (sp_threads a) t of
        Send_start buf timeout \<Rightarrow>
          if length buf > sp_size a then sp_set t (Sent (- RT_ERROR)) a else sp_send_take buf timeout t a
      | Send_woken buf timeout \<Rightarrow> sp_send_take buf (remaining timeout elapsed) t a
      | Send_fill m buf \<Rightarrow> sp_set t (Send_link (buf @ drop (length buf) m)) a
      | Send_link m \<Rightarrow> sp_link (sp_queue a @ [m]) t a
      | Urgent_start buf \<Rightarrow>
          if length buf > sp_size a then sp_set t (Sent (- RT_ERROR)) a else sp_urgent_take buf t a
      | Urgent_fill m buf \<Rightarrow> sp_set t (Urgent_link (buf @ drop (length buf) m)) a
      | Urgent_link m \<Rightarrow> sp_link (m # sp_queue a) t a
      | Recv_start sz timeout \<Rightarrow> sp_recv_take sz timeout t a
      | Recv_woken sz timeout \<Rightarrow> sp_recv_take sz (remaining timeout elapsed) t a
      | Recv_copy m sz \<Rightarrow> sp_set t (Recv_release m (take (min sz (sp_size a)) m)) a
      | Recv_release m buf \<Rightarrow>
          a\<lparr>sp_free := m # sp_free a,
            sp_threads := resume_send (set_pc t (Received RT_EOK (Some buf)) (sp_threads a))\<rparr>
      | _ \<Rightarrow> a)"

fun sp_step :: "mq_event \<Rightarrow> mq_spec \<Rightarrow> mq_spec" where
  "sp_step (Call t c) a = a\<lparr>sp_threads := start_call t c (sp_threads a)\<rparr>"
| "sp_step (Run t elapsed) a = sp_run t elapsed a"
| "sp_step (Expire t) a = a\<lparr>sp_threads := rt_thread_timeout t (sp_threads a)\<rparr>"
| "sp_step Reset a =
     a\<lparr>sp_queue := [], sp_free := rev (sp_queue a) @ sp_free a,
       sp_threads := rt_ipc_list_resume_all (sp_threads a)\<rparr>"

section \<open>Refinement\<close>

fun chain :: "(slot \<Rightarrow> slot option) \<Rightarrow> slot option \<Rightarrow> slot list \<Rightarrow> bool" where
  "chain nx h [] \<longleftrightarrow> h = None"
| "chain nx h (x # xs) \<longleftrightarrow> h = Some x \<and> chain nx (nx x) xs"

lemma chain_other: "i \<notin> set xs \<Longrightarrow> chain (nx(i := v)) h xs = chain nx h xs"
  by (induction xs arbitrary: h) auto

lemma chain_head: "chain nx h xs \<Longrightarrow> h = None \<longleftrightarrow> xs = []"
  by (cases xs) auto

lemma chain_snoc:
  "chain nx h xs \<Longrightarrow> distinct xs \<Longrightarrow> i \<notin> set xs \<Longrightarrow> nx i = None \<Longrightarrow> xs \<noteq> [] \<Longrightarrow>
   chain (nx(last xs := Some i)) h (xs @ [i])"
proof (induction xs arbitrary: h)
  case (Cons x xs)
  then show ?case by (cases "xs = []") (auto simp: chain_other)
qed simp

definition map_threads :: "('i \<Rightarrow> 'j) \<Rightarrow> 'i mq_threads \<Rightarrow> 'j mq_threads" where
  "map_threads f th =
     \<lparr>ipc_prio = ipc_prio th, current_priority = current_priority th, suspend_thread = suspend_thread th,
      suspend_sender_thread = suspend_sender_thread th, pc = map_mq_pc f \<circ> pc th\<rparr>"

lemma map_threads_sel [simp]:
  "ipc_prio (map_threads f th) = ipc_prio th"
  "current_priority (map_threads f th) = current_priority th"
  "suspend_thread (map_threads f th) = suspend_thread th"
  "suspend_sender_thread (map_threads f th) = suspend_sender_thread th"
  "pc (map_threads f th) t = map_mq_pc f (pc th t)"
  by (simp_all add: map_threads_def)

lemma map_set_pc: "map_threads f (set_pc t p th) = set_pc t (map_mq_pc f p) (map_threads f th)"
  by (simp add: map_threads_def set_pc_def fun_eq_iff)

lemma map_wake: "map_mq_pc f (wake_recv p) = wake_recv (map_mq_pc f p)" "map_mq_pc f (wake_send p) = wake_send (map_mq_pc f p)"
  "map_mq_pc f (fail_with e p) = fail_with e (map_mq_pc f p)" "timer_running (map_mq_pc f p) = timer_running p"
  "outside (map_mq_pc f p) = outside p" "map_mq_pc f (call_pc c) = call_pc c"
  by (cases p; simp)+ (cases c; simp)

lemma map_lists:
  "map_threads f (th\<lparr>suspend_thread := ts\<rparr>) = (map_threads f th)\<lparr>suspend_thread := ts\<rparr>"
  "map_threads f (th\<lparr>suspend_sender_thread := ts\<rparr>) = (map_threads f th)\<lparr>suspend_sender_thread := ts\<rparr>"
  by (simp_all add: map_threads_def)

lemma map_resume: "map_threads f (resume_recv th) = resume_recv (map_threads f th)"
  "map_threads f (resume_send th) = resume_send (map_threads f th)"
  by (simp_all add: resume_recv_def resume_send_def map_lists map_set_pc map_wake split: list.split)

lemma map_start_call: "map_threads f (start_call t c th) = start_call t c (map_threads f th)"
  by (simp add: start_call_def map_wake map_set_pc)

lemma map_timeout: "map_threads f (rt_thread_timeout t th) = rt_thread_timeout t (map_threads f th)"
  by (simp add: rt_thread_timeout_def map_wake map_lists map_set_pc)

lemma map_resume_all: "map_threads f (rt_ipc_list_resume_all th) = rt_ipc_list_resume_all (map_threads f th)"
  by (simp add: rt_ipc_list_resume_all_def map_threads_def fun_eq_iff map_wake)

lemmas map_threads_simps = map_set_pc map_lists map_resume map_start_call map_timeout map_resume_all

lemma map_threads_cong:
  assumes "\<And>t i. i \<in> set_mq_pc (pc th t) \<Longrightarrow> f i = g i"
  shows "map_threads f th = map_threads g th"
  using assms by (auto simp: map_threads_def fun_eq_iff intro!: mq_pc.map_cong)

text \<open>
  Every message is in the queue, in the free list, or held by exactly one thread.
\<close>

definition held_apart :: "nat \<Rightarrow> slot list \<Rightarrow> slot mq_threads \<Rightarrow> bool" where
  "held_apart n xs th \<longleftrightarrow>
     (\<forall>t. \<forall>i \<in> set_mq_pc (pc th t). i < n \<and> i \<notin> set xs \<and> (\<forall>u. u \<noteq> t \<longrightarrow> i \<notin> set_mq_pc (pc th u)))"

definition mq_lists :: "rt_messagequeue \<Rightarrow> slot list \<Rightarrow> slot list \<Rightarrow> bool" where
  "mq_lists q qs fs \<longleftrightarrow>
     chain (mq_next q) (msg_queue_head q) qs \<and> chain (mq_next q) (msg_queue_free q) fs \<and>
     msg_queue_tail q = (if qs = [] then None else Some (last qs)) \<and> mq_entry q = length qs \<and>
     distinct (qs @ fs) \<and> set (qs @ fs) \<subseteq> {..<max_msgs q} \<and> max_msgs q \<le> RT_MQ_ENTRY_MAX"

definition linkable :: "rt_messagequeue \<Rightarrow> slot mq_threads \<Rightarrow> bool" where
  "linkable q th \<longleftrightarrow> (\<forall>t i. pc th t = Send_link i \<longrightarrow> mq_next q i = None)"

definition represents_mq :: "mq_sys \<Rightarrow> mq_spec \<Rightarrow> bool" where
  "represents_mq s a \<longleftrightarrow>
     (\<exists>q th qs fs. s = (q, th) \<and> mq_lists q qs fs \<and> held_apart (max_msgs q) (qs @ fs) th \<and> linkable q th \<and>
        sp_queue a = map (mq_body q) qs \<and> sp_free a = map (mq_body q) fs \<and> sp_size a = msg_size q \<and> sp_max a = max_msgs q \<and>
        sp_threads a = map_threads (mq_body q) th)"


lemma representsI:
  assumes "mq_lists q qs fs" "held_apart (max_msgs q) (qs @ fs) th" "linkable q th"
    and "a = \<lparr>sp_queue = map (mq_body q) qs, sp_free = map (mq_body q) fs, sp_size = msg_size q, sp_max = max_msgs q,
              sp_threads = map_threads (mq_body q) th\<rparr>"
  shows "represents_mq (q, th) a"
  using assms unfolding represents_mq_def by (intro exI [of _ q] exI [of _ th] exI [of _ qs] exI [of _ fs]) simp

lemma representsE:
  assumes "represents_mq s a"
  obtains q th qs fs where "s = (q, th)" "mq_lists q qs fs" "held_apart (max_msgs q) (qs @ fs) th" "linkable q th"
    "a = \<lparr>sp_queue = map (mq_body q) qs, sp_free = map (mq_body q) fs, sp_size = msg_size q, sp_max = max_msgs q,
         sp_threads = map_threads (mq_body q) th\<rparr>"
  using assms by (cases a) (auto simp: represents_mq_def)

lemma represents_pairE:
  assumes "represents_mq (q, th) a"
  obtains qs fs where "mq_lists q qs fs" "held_apart (max_msgs q) (qs @ fs) th" "linkable q th"
    "a = \<lparr>sp_queue = map (mq_body q) qs, sp_free = map (mq_body q) fs, sp_size = msg_size q, sp_max = max_msgs q,
         sp_threads = map_threads (mq_body q) th\<rparr>"
  using assms by (cases a) (auto simp: represents_mq_def)

text \<open>Threads that give up messages, or keep theirs.\<close>

definition fewer :: "'i mq_threads \<Rightarrow> 'i mq_threads \<Rightarrow> bool" where
  "fewer th' th \<longleftrightarrow>
     (\<forall>t. set_mq_pc (pc th' t) \<subseteq> set_mq_pc (pc th t) \<and> (\<forall>i. pc th' t = Send_link i \<longrightarrow> pc th t = Send_link i))"

lemma fewer_trans: "fewer a b \<Longrightarrow> fewer b c \<Longrightarrow> fewer a c"
  unfolding fewer_def by blast

lemma fewer_keep:
  assumes "fewer th' th"
  shows "held_apart n xs th \<Longrightarrow> held_apart n xs th'" "linkable q th \<Longrightarrow> linkable q th'"
  using assms unfolding fewer_def held_apart_def linkable_def by blast+

lemma wake_set [simp]:
  "set_mq_pc (wake_recv p) = set_mq_pc p" "set_mq_pc (wake_send p) = set_mq_pc p" "set_mq_pc (fail_with e p) = set_mq_pc p"
  "wake_recv p = Send_link i \<longleftrightarrow> p = Send_link i" "wake_send p = Send_link i \<longleftrightarrow> p = Send_link i"
  "fail_with e p = Send_link i \<longleftrightarrow> p = Send_link i"
  "set_mq_pc (call_pc c) = {}" "call_pc c \<noteq> Send_link i"
  by (cases p; simp)+ (cases c; simp)+

lemma fewer_set_pc:
  "set_mq_pc p \<subseteq> set_mq_pc (pc th t) \<Longrightarrow> (\<And>i. p = Send_link i \<Longrightarrow> pc th t = Send_link i) \<Longrightarrow> fewer (set_pc t p th) th"
  by (simp add: fewer_def set_pc_def)

lemma fewer_lists [simp]:
  "fewer (th\<lparr>suspend_thread := ts\<rparr>) th' = fewer th th'" "fewer (th\<lparr>suspend_sender_thread := ts\<rparr>) th' = fewer th th'"
  by (simp_all add: fewer_def)

lemma fewer_refl [simp]: "fewer th th"
  by (simp add: fewer_def)

lemma fewer_resume: "fewer (resume_recv th) th" "fewer (resume_send th) th"
  by (auto simp: resume_recv_def resume_send_def intro!: fewer_set_pc split: list.split)

lemma fewer_others:
  "fewer (start_call t c th) th" "fewer (rt_thread_timeout t th) th" "fewer (rt_ipc_list_resume_all th) th"
  by (auto simp: start_call_def rt_thread_timeout_def intro!: fewer_set_pc)
    (simp add: rt_ipc_list_resume_all_def fewer_def)

lemma represents_fewer:
  assumes "represents_mq (q, th) a" "fewer th' th" "a' = a\<lparr>sp_threads := map_threads (mq_body q) th'\<rparr>"
  shows "represents_mq (q, th') a'"
  using assms fewer_keep [OF assms(2)] by (elim representsE) (auto intro!: representsI)

lemma represents_threads: "represents_mq (q, th) a \<Longrightarrow> sp_threads a = map_threads (mq_body q) th"
  by (auto simp: represents_mq_def)

text \<open>Taking a message from a list, and putting a held one into a list.\<close>

lemma held_take:
  assumes "held_apart n xs th" "i \<in> set xs" "i < n" "set ys \<subseteq> set xs - {i}" "set_mq_pc p = {i}"
  shows "held_apart n ys (set_pc t p th)"
  using assms unfolding held_apart_def set_pc_def by auto

lemma held_give:
  assumes "held_apart n xs th" "i \<in> set_mq_pc (pc th t)" "set ys \<subseteq> insert i (set xs)" "set_mq_pc p = {}"
  shows "held_apart n ys (set_pc t p th)"
  using assms unfolding held_apart_def set_pc_def by (auto split: if_splits)

lemma held_same:
  assumes "held_apart n xs th" "set_mq_pc p = set_mq_pc (pc th t)"
  shows "held_apart n xs (set_pc t p th)"
  using assms unfolding held_apart_def set_pc_def by (auto split: if_splits)

lemma linkable_set_pc:
  assumes "linkable q th" "\<And>i. p = Send_link i \<Longrightarrow> mq_next q' i = None"
    "\<And>u i. u \<noteq> t \<Longrightarrow> i \<in> set_mq_pc (pc th u) \<Longrightarrow> mq_next q' i = mq_next q i"
  shows "linkable q' (set_pc t p th)"
  using assms unfolding linkable_def set_pc_def by (auto split: if_splits)

lemma held_others:
  assumes "held_apart n xs th" "i \<in> set_mq_pc (pc th t) \<union> set xs" "u \<noteq> t" "j \<in> set_mq_pc (pc th u)"
  shows "j \<noteq> i"
  using assms unfolding held_apart_def by blast

lemma send_take_sim:
  assumes "represents_mq (q, th) a" "set_mq_pc (pc th t) = {}"
  shows "represents_mq (send_take buf k t (q, th)) (sp_send_take buf k t a)"
proof -
  obtain qs fs where r: "mq_lists q qs fs" "held_apart (max_msgs q) (qs @ fs) th" "linkable q th"
    "a = \<lparr>sp_queue = map (mq_body q) qs, sp_free = map (mq_body q) fs, sp_size = msg_size q, sp_max = max_msgs q,
         sp_threads = map_threads (mq_body q) th\<rparr>"
    using assms(1) by (rule represents_pairE)
  show ?thesis
  proof (cases fs)
    case Nil
    then have "msg_queue_free q = None" using r(1) by (simp add: mq_lists_def)
    then show ?thesis
      using r(4) Nil
      by (auto simp: send_take_def sp_send_take_def sp_set_def map_threads_simps
          intro!: represents_fewer [OF assms(1)] fewer_set_pc)
  next
    case (Cons i fs')
    let ?q = "q\<lparr>msg_queue_free := mq_next q i\<rparr>" and ?th = "set_pc t (Send_fill i buf) th"
    have "mq_lists ?q qs fs'" "msg_queue_free q = Some i" using r(1) Cons by (auto simp: mq_lists_def)
    moreover have "held_apart (max_msgs q) (qs @ fs') ?th"
      using r Cons by (intro held_take [where i = i, OF r(2)]) (auto simp: mq_lists_def)
    moreover have "linkable ?q ?th" by (rule linkable_set_pc [OF r(3)]) simp_all
    ultimately show ?thesis using r(4) Cons
      by (auto simp: send_take_def sp_send_take_def sp_set_def map_threads_simps intro!: representsI)
  qed
qed


lemma urgent_take_sim:
  assumes "represents_mq (q, th) a" "set_mq_pc (pc th t) = {}"
  shows "represents_mq (urgent_take buf t (q, th)) (sp_urgent_take buf t a)"
proof -
  obtain qs fs where r: "mq_lists q qs fs" "held_apart (max_msgs q) (qs @ fs) th" "linkable q th"
    "a = \<lparr>sp_queue = map (mq_body q) qs, sp_free = map (mq_body q) fs, sp_size = msg_size q, sp_max = max_msgs q,
         sp_threads = map_threads (mq_body q) th\<rparr>"
    using assms(1) by (rule represents_pairE)
  show ?thesis
  proof (cases fs)
    case Nil
    then have "msg_queue_free q = None" using r(1) by (simp add: mq_lists_def)
    then show ?thesis
      using r(4) Nil
      by (auto simp: urgent_take_def sp_urgent_take_def sp_set_def map_threads_simps
          intro!: represents_fewer [OF assms(1)] fewer_set_pc)
  next
    case (Cons i fs')
    let ?q = "q\<lparr>msg_queue_free := mq_next q i\<rparr>" and ?th = "set_pc t (Urgent_fill i buf) th"
    have "mq_lists ?q qs fs'" "msg_queue_free q = Some i" using r(1) Cons by (auto simp: mq_lists_def)
    moreover have "held_apart (max_msgs q) (qs @ fs') ?th"
      using r Cons by (intro held_take [where i = i, OF r(2)]) (auto simp: mq_lists_def)
    moreover have "linkable ?q ?th" by (rule linkable_set_pc [OF r(3)]) simp_all
    ultimately show ?thesis using r(4) Cons
      by (auto simp: urgent_take_def sp_urgent_take_def sp_set_def map_threads_simps intro!: representsI)
  qed
qed

lemma recv_take_sim:
  assumes "represents_mq (q, th) a" "set_mq_pc (pc th t) = {}"
  shows "\<exists>s'. recv_take sz k t (q, th) = Some s' \<and> represents_mq s' (sp_recv_take sz k t a)"
proof -
  obtain qs fs where r: "mq_lists q qs fs" "held_apart (max_msgs q) (qs @ fs) th" "linkable q th"
    "a = \<lparr>sp_queue = map (mq_body q) qs, sp_free = map (mq_body q) fs, sp_size = msg_size q, sp_max = max_msgs q,
         sp_threads = map_threads (mq_body q) th\<rparr>"
    using assms(1) by (rule represents_pairE)
  show ?thesis
  proof (cases qs)
    case Nil
    then have "mq_entry q = 0" using r(1) by (simp add: mq_lists_def)
    then show ?thesis
      using r(4) Nil
      by (auto simp: recv_take_def sp_recv_take_def sp_set_def map_threads_simps
          intro!: represents_fewer [OF assms(1)] fewer_set_pc)
  next
    case (Cons i qs')
    let ?th = "set_pc t (Recv_copy i sz) th"
      and ?q = "q\<lparr>msg_queue_head := mq_next q i,
                  msg_queue_tail := (if msg_queue_tail q = Some i then None else msg_queue_tail q),
                  mq_entry := mq_entry q - 1\<rparr>"
    have "mq_lists ?q qs' fs" using r(1) Cons
      by (cases "qs' = []") (auto simp: mq_lists_def dest: last_in_set)
    moreover have "held_apart (max_msgs q) (qs' @ fs) ?th"
      using r Cons by (intro held_take [where i = i, OF r(2)]) (auto simp: mq_lists_def)
    moreover have "linkable ?q ?th" by (rule linkable_set_pc [OF r(3)]) simp_all
    ultimately have "represents_mq (?q, ?th) (sp_recv_take sz k t a)" using r(4) Cons
      by (auto simp: sp_recv_take_def sp_set_def map_threads_simps intro!: representsI)
    moreover have "recv_take sz k t (q, th) = Some (?q, ?th)"
      using r(1) Cons by (auto simp: recv_take_def mq_lists_def)
    ultimately show ?thesis by blast
  qed
qed

text \<open>Filling a held message touches no other.\<close>

lemma fill_sim:
  assumes "represents_mq (q, th) a" "set_mq_pc (pc th t) = {i}"
    and "p = Send_link i \<and> nx = (mq_next q)(i := None) \<or> p = Urgent_link i \<and> nx = mq_next q"
  shows "represents_mq (copy_in i buf (q\<lparr>mq_next := nx\<rparr>), set_pc t p th)
           (sp_set t (map_mq_pc (\<lambda>_. buf @ drop (length buf) (mq_body q i)) p) a)"
proof -
  obtain qs fs where r: "mq_lists q qs fs" "held_apart (max_msgs q) (qs @ fs) th" "linkable q th"
    "a = \<lparr>sp_queue = map (mq_body q) qs, sp_free = map (mq_body q) fs, sp_size = msg_size q, sp_max = max_msgs q,
         sp_threads = map_threads (mq_body q) th\<rparr>"
    using assms(1) by (rule represents_pairE)
  let ?q = "copy_in i buf (q\<lparr>mq_next := nx\<rparr>)" and ?th = "set_pc t p th"
  have i: "i \<notin> set (qs @ fs)" using r(2) assms(2) by (auto simp: held_apart_def)
  have p: "set_mq_pc p = {i}" using assms(3) by auto
  have "mq_lists ?q qs fs" using r(1) i assms(3) by (auto simp: mq_lists_def copy_in_def chain_other)
  moreover have "held_apart (max_msgs ?q) (qs @ fs) ?th"
    using held_same [OF r(2)] p assms(2) by (simp add: copy_in_def)
  moreover have "linkable ?q ?th"
    by (rule linkable_set_pc [OF r(3)]) (use assms(2,3) held_others [OF r(2), of i t] in \<open>auto simp: copy_in_def\<close>)
  moreover have "map_threads (mq_body ?q) ?th =
      set_pc t (map_mq_pc (\<lambda>_. buf @ drop (length buf) (mq_body q i)) p) (map_threads (mq_body q) th)"
  proof -
    have "mq_body ?q j = mq_body q j" if "u \<noteq> t" "j \<in> set_mq_pc (pc th u)" for u j
      using held_others [OF r(2), of i t u j] that assms(2) by (auto simp: copy_in_def)
    then have "map_mq_pc (mq_body ?q) (pc th u) = map_mq_pc (mq_body q) (pc th u)" if "u \<noteq> t" for u
      using that by (intro mq_pc.map_cong) auto
    moreover have "map_mq_pc (mq_body ?q) p = map_mq_pc (\<lambda>_. buf @ drop (length buf) (mq_body q i)) p"
      using p by (intro mq_pc.map_cong) (auto simp: copy_in_def)
    ultimately show ?thesis by (auto simp: map_threads_def set_pc_def fun_eq_iff)
  qed
  moreover have "map (mq_body ?q) qs = map (mq_body q) qs" "map (mq_body ?q) fs = map (mq_body q) fs"
    using i by (auto simp: copy_in_def)
  ultimately show ?thesis using r(4) by (auto simp: sp_set_def copy_in_def intro!: representsI)
qed

text \<open>Linking a held message: it is in neither list, so the count stays below the bound.\<close>

lemma entry_bound:
  assumes "mq_lists q qs fs" "i < max_msgs q" "i \<notin> set (qs @ fs)"
  shows "length qs < RT_MQ_ENTRY_MAX"
proof -
  have "card (set (i # qs)) \<le> max_msgs q"
    using assms card_mono [of "{..<max_msgs q}" "set (i # qs)"] by (auto simp: mq_lists_def)
  then show ?thesis using assms by (auto simp: mq_lists_def distinct_card)
qed

lemma link_sim:
  assumes "represents_mq (q, th) a" "set_mq_pc (pc th t) = {i}"
    and "mq_lists (q'\<lparr>mq_entry := mq_entry q + 1\<rparr>) qs' fs" "set (qs' @ fs) \<subseteq> insert i (set (qs @ fs))"
    and "mq_lists q qs fs" "held_apart (max_msgs q) (qs @ fs) th" "linkable q th"
    and "mq_body q' = mq_body q" "msg_size q' = msg_size q" "max_msgs q' = max_msgs q" "mq_entry q' = mq_entry q"
    and "\<And>j. j \<notin> insert i (set (qs @ fs)) \<Longrightarrow> mq_next q' j = mq_next q j"
    and "a = \<lparr>sp_queue = map (mq_body q) qs, sp_free = map (mq_body q) fs, sp_size = msg_size q, sp_max = max_msgs q,
         sp_threads = map_threads (mq_body q) th\<rparr>"
  shows "represents_mq (count_entry t (q', th)) (sp_link (map (mq_body q) qs') t a)"
proof -
  let ?q = "q'\<lparr>mq_entry := mq_entry q + 1\<rparr>" and ?th = "set_pc t (Sent RT_EOK) th"
  have i: "i < max_msgs q" "i \<notin> set (qs @ fs)" using assms(2,6) by (auto simp: held_apart_def)
  have "held_apart (max_msgs ?q) (qs' @ fs) ?th"
    using held_give [OF assms(6), of i t "qs' @ fs" "Sent RT_EOK"] assms(2,4,10) by simp
  moreover have "linkable ?q ?th"
  proof (rule linkable_set_pc [OF assms(7)])
    fix u j assume "u \<noteq> t" "j \<in> set_mq_pc (pc th u)"
    then have "j \<notin> insert i (set (qs @ fs))" using assms(2,6) unfolding held_apart_def by blast
    then show "mq_next ?q j = mq_next q j" using assms(12) by simp
  qed simp
  ultimately have "represents_mq (?q, ?th) (a\<lparr>sp_queue := map (mq_body q) qs', sp_threads := map_threads (mq_body q) ?th\<rparr>)"
    using assms(3,8,9,10,13) by (intro representsI) auto
  then have "represents_mq (?q, resume_recv ?th) (sp_link (map (mq_body q) qs') t a)"
    by (rule represents_fewer)
      (use fewer_resume assms(8,13) in \<open>auto simp: sp_link_def map_threads_simps\<close>)
  moreover have "mq_entry q < RT_MQ_ENTRY_MAX" using entry_bound [OF assms(5) i] assms(5) by (simp add: mq_lists_def)
  ultimately show ?thesis using assms(11) by (simp add: count_entry_def)
qed


lemma send_link_sim:
  assumes "represents_mq (q, th) a" "pc th t = Send_link i"
  shows "represents_mq (send_link i t (q, th)) (sp_link (sp_queue a @ [mq_body q i]) t a)"
proof -
  obtain qs fs where r: "mq_lists q qs fs" "held_apart (max_msgs q) (qs @ fs) th" "linkable q th"
    "a = \<lparr>sp_queue = map (mq_body q) qs, sp_free = map (mq_body q) fs, sp_size = msg_size q, sp_max = max_msgs q,
         sp_threads = map_threads (mq_body q) th\<rparr>"
    using assms(1) by (rule represents_pairE)
  have n: "mq_next q i = None" using r(3) assms(2) by (simp add: linkable_def)
  have s: "set_mq_pc (pc th t) = {i}" using assms(2) by simp
  then have i: "i < max_msgs q" "i \<notin> set (qs @ fs)" using r(2) by (auto simp: held_apart_def)
  have "mq_lists (link_tail i q\<lparr>mq_entry := mq_entry q + 1\<rparr>) (qs @ [i]) fs"
  proof (cases "qs = []")
    case False
    then have "last qs \<in> set qs" by simp
    then have "last qs \<notin> set fs" using r(1) by (auto simp: mq_lists_def)
    then show ?thesis using r(1) i False n chain_snoc [of "mq_next q" "msg_queue_head q" qs i]
        chain_head [of "mq_next q" "msg_queue_head q" qs]
      by (auto simp: mq_lists_def link_tail_def Let_def chain_other)
  qed (use r(1) i n in \<open>auto simp: mq_lists_def link_tail_def Let_def\<close>)
  then have "represents_mq (count_entry t (link_tail i q, th)) (sp_link (map (mq_body q) (qs @ [i])) t a)"
    by (rule link_sim [OF assms(1) s _ _ r(1-3)])
      (use r(1,4) in \<open>auto simp: link_tail_def Let_def mq_lists_def split: option.split if_splits\<close>)
  then show ?thesis using r(4) by (simp add: send_link_def)
qed

lemma urgent_link_sim:
  assumes "represents_mq (q, th) a" "pc th t = Urgent_link i"
  shows "represents_mq (urgent_link i t (q, th)) (sp_link (mq_body q i # sp_queue a) t a)"
proof -
  obtain qs fs where r: "mq_lists q qs fs" "held_apart (max_msgs q) (qs @ fs) th" "linkable q th"
    "a = \<lparr>sp_queue = map (mq_body q) qs, sp_free = map (mq_body q) fs, sp_size = msg_size q, sp_max = max_msgs q,
         sp_threads = map_threads (mq_body q) th\<rparr>"
    using assms(1) by (rule represents_pairE)
  have s: "set_mq_pc (pc th t) = {i}" using assms(2) by simp
  then have i: "i < max_msgs q" "i \<notin> set (qs @ fs)" using r(2) by (auto simp: held_apart_def)
  have "mq_lists (link_head i q\<lparr>mq_entry := mq_entry q + 1\<rparr>) (i # qs) fs"
    using r(1) i by (auto simp: mq_lists_def link_head_def Let_def chain_other)
  then have "represents_mq (count_entry t (link_head i q, th)) (sp_link (map (mq_body q) (i # qs)) t a)"
    by (rule link_sim [OF assms(1) s _ _ r(1-3)])
      (use r(1,4) in \<open>auto simp: link_head_def Let_def mq_lists_def split: option.split if_splits\<close>)
  then show ?thesis using r(4) by (simp add: urgent_link_def)
qed

lemma recv_release_sim:
  assumes "represents_mq (q, th) a" "pc th t = Recv_release i buf"
  shows "represents_mq (recv_release i buf t (q, th))
           (a\<lparr>sp_free := mq_body q i # sp_free a,
              sp_threads := resume_send (set_pc t (Received RT_EOK (Some buf)) (sp_threads a))\<rparr>)"
proof -
  obtain qs fs where r: "mq_lists q qs fs" "held_apart (max_msgs q) (qs @ fs) th" "linkable q th"
    "a = \<lparr>sp_queue = map (mq_body q) qs, sp_free = map (mq_body q) fs, sp_size = msg_size q, sp_max = max_msgs q,
         sp_threads = map_threads (mq_body q) th\<rparr>"
    using assms(1) by (rule represents_pairE)
  let ?q = "q\<lparr>mq_next := (mq_next q)(i := msg_queue_free q), msg_queue_free := Some i\<rparr>"
    and ?th = "set_pc t (Received RT_EOK (Some buf)) th"
  have s: "set_mq_pc (pc th t) = {i}" using assms(2) by simp
  then have i: "i < max_msgs q" "i \<notin> set (qs @ fs)" using r(2) by (auto simp: held_apart_def)
  have "mq_lists ?q qs (i # fs)" using r(1) i by (auto simp: mq_lists_def chain_other)
  moreover have "held_apart (max_msgs q) (qs @ i # fs) ?th"
    by (rule held_give [OF r(2), of i]) (use s in auto)
  moreover have "linkable ?q ?th"
    by (rule linkable_set_pc [OF r(3)]) (use s held_others [OF r(2), of i t] in auto)
  ultimately have "represents_mq (?q, ?th) (a\<lparr>sp_free := mq_body q i # sp_free a, sp_threads := map_threads (mq_body q) ?th\<rparr>)"
    using r(4) by (intro representsI) auto
  then have "represents_mq (?q, resume_send ?th)
      (a\<lparr>sp_free := mq_body q i # sp_free a,
         sp_threads := resume_send (set_pc t (Received RT_EOK (Some buf)) (sp_threads a))\<rparr>)"
    by (rule represents_fewer) (use fewer_resume r(4) in \<open>auto simp: map_threads_simps\<close>)
  then show ?thesis by (simp add: recv_release_def)
qed

text \<open>The loop of a reset moves the queue, reversed, to the front of the free list.\<close>

lemma reset_loop_spec:
  assumes "mq_lists (q\<lparr>mq_entry := length qs\<rparr>) qs fs"
  shows "\<exists>q'. reset_loop q = Some q' \<and> mq_lists (q'\<lparr>mq_entry := 0\<rparr>) [] (rev qs @ fs) \<and>
           mq_body q' = mq_body q \<and> msg_size q' = msg_size q \<and> max_msgs q' = max_msgs q \<and>
           (\<forall>j. j \<notin> set (qs @ fs) \<longrightarrow> mq_next q' j = mq_next q j)"
  using assms
proof (induction qs arbitrary: q fs)
  case Nil
  then show ?case by (subst reset_loop.simps) (auto simp: mq_lists_def)
next
  case (Cons i qs)
  let ?q1 = "q\<lparr>msg_queue_head := mq_next q i\<rparr>"
  let ?q2 = "if msg_queue_tail ?q1 = Some i then ?q1\<lparr>msg_queue_tail := None\<rparr> else ?q1"
  let ?q = "?q2\<lparr>mq_next := (mq_next ?q2)(i := msg_queue_free ?q2), msg_queue_free := Some i\<rparr>"
  have "mq_lists (?q\<lparr>mq_entry := length qs\<rparr>) qs (i # fs)" using Cons.prems
    by (cases "qs = []") (auto simp: mq_lists_def chain_other dest: last_in_set)
  from Cons.IH [OF this] obtain q' where q': "reset_loop ?q = Some q'"
    "mq_lists (q'\<lparr>mq_entry := 0\<rparr>) [] (rev qs @ i # fs)" "mq_body q' = mq_body q" "msg_size q' = msg_size q"
    "max_msgs q' = max_msgs q" "\<forall>j. j \<notin> set (qs @ i # fs) \<longrightarrow> mq_next q' j = ((mq_next q)(i := msg_queue_free q)) j"
    by (auto split: if_splits)
  have "reset_loop q = reset_loop ?q"
    using Cons.prems by (subst reset_loop.simps) (simp add: mq_lists_def Let_def)
  then show ?case using q' by (intro exI [of _ q']) auto
qed

lemma reset_sim:
  assumes "represents_mq s a"
  shows "\<exists>s'. rt_mq_control_reset s = Some s' \<and> represents_mq s' (sp_step Reset a)"
proof -
  obtain q th qs fs where r: "s = (q, th)" "mq_lists q qs fs" "held_apart (max_msgs q) (qs @ fs) th" "linkable q th"
    "a = \<lparr>sp_queue = map (mq_body q) qs, sp_free = map (mq_body q) fs, sp_size = msg_size q, sp_max = max_msgs q,
         sp_threads = map_threads (mq_body q) th\<rparr>"
    using assms by (elim representsE) auto
  have "mq_lists (q\<lparr>mq_entry := length qs\<rparr>) qs fs" using r(2) by (simp add: mq_lists_def)
  then obtain q' where q': "reset_loop q = Some q'" "mq_lists (q'\<lparr>mq_entry := 0\<rparr>) [] (rev qs @ fs)"
    "mq_body q' = mq_body q" "msg_size q' = msg_size q" "max_msgs q' = max_msgs q"
    "\<forall>j. j \<notin> set (qs @ fs) \<longrightarrow> mq_next q' j = mq_next q j"
    using reset_loop_spec by blast
  let ?th = "rt_ipc_list_resume_all th"
  have "held_apart (max_msgs q') ([] @ rev qs @ fs) th" using r(3) q'(5) by (simp add: held_apart_def)
  then have h: "held_apart (max_msgs q') ([] @ rev qs @ fs) ?th" by (rule fewer_keep [OF fewer_others(3)])
  have "linkable (q'\<lparr>mq_entry := 0\<rparr>) th"
    using r(3,4) q'(6) unfolding linkable_def held_apart_def
    by (metis mq_pc.set_intros(2) rt_messagequeue.select_convs(1) rt_messagequeue.surjective rt_messagequeue.update_convs(5))
  then have "linkable (q'\<lparr>mq_entry := 0\<rparr>) ?th" by (rule fewer_keep [OF fewer_others(3)])
  with q' h have "represents_mq (q'\<lparr>mq_entry := 0\<rparr>, ?th) (sp_step Reset a)"
    using r(5) by (intro representsI [of _ "[]" "rev qs @ fs"]) (auto simp: map_threads_simps rev_map)
  then show ?thesis using r(1) q'(1) by (simp add: rt_mq_control_reset_def)
qed

text \<open>Every section of every thread.\<close>

lemma run_section_sim:
  assumes "represents_mq s a"
    and "\<And>k. pc (sp_threads a) t \<noteq> Send_start [] k" "pc (sp_threads a) t \<noteq> Urgent_start []"
    and "\<And>k. pc (sp_threads a) t \<noteq> Recv_start 0 k"
  shows "\<exists>s'. mq_run t elapsed s = Some s' \<and> represents_mq s' (sp_run t elapsed a)"
proof -
  obtain q th where s: "s = (q, th)" by (cases s)
  have r: "represents_mq (q, th) a" using assms(1) s by simp
  have th: "sp_threads a = map_threads (mq_body q) th" using represents_threads [OF r] .
  have sz: "sp_size a = msg_size q" using r by (auto simp: represents_mq_def)
  note defs = mq_run_def sp_run_def s th
  have err: "represents_mq (q, set_pc t (Sent e) th) (sp_set t (Sent e) a)" for e
    by (rule represents_fewer [OF r]) (auto simp: sp_set_def th map_threads_simps intro!: fewer_set_pc)
  show ?thesis
  proof (cases "pc th t")
    case (Send_start b k)
    then show ?thesis using assms(2) send_take_sim [OF r, of t] err sz by (cases b) (auto simp: defs)
  next
    case (Send_woken b k)
    then show ?thesis using send_take_sim [OF r, of t] by (simp add: defs)
  next
    case (Send_fill i b)
    then show ?thesis using fill_sim [OF r, of t i "Send_link i"] by (simp add: defs send_copy_def)
  next
    case (Send_link i)
    then show ?thesis using send_link_sim [OF r] by (simp add: defs)
  next
    case (Urgent_start b)
    then show ?thesis using assms(3) urgent_take_sim [OF r, of t] err sz by (cases b) (auto simp: defs)
  next
    case (Urgent_fill i b)
    then show ?thesis using fill_sim [OF r, of t i "Urgent_link i"] by (simp add: defs)
  next
    case (Urgent_link i)
    then show ?thesis using urgent_link_sim [OF r] by (simp add: defs)
  next
    case (Recv_start n k)
    then show ?thesis using assms(4) [of k] recv_take_sim [OF r, of t] by (cases n) (auto simp: defs)
  next
    case (Recv_woken n k)
    then show ?thesis using recv_take_sim [OF r, of t] by (simp add: defs)
  next
    case (Recv_copy i n)
    then have "represents_mq (recv_copy i n t (q, th)) (sp_run t elapsed a)"
      by (auto simp: recv_copy_def defs sz sp_set_def map_threads_simps min_def
          intro!: represents_fewer [OF r] fewer_set_pc)
    then show ?thesis using Recv_copy by (simp add: defs)
  next
    case (Recv_release i b)
    then show ?thesis using recv_release_sim [OF r] th by (simp add: defs)
  qed (use r in \<open>simp_all add: defs\<close>)
qed


text \<open>Callers pass a buffer; RT\_ASSERT stops a call with none.\<close>

fun call_ok :: "mq_call \<Rightarrow> bool" where
  "call_ok (Call_send b _) \<longleftrightarrow> b \<noteq> []"
| "call_ok (Call_urgent b) \<longleftrightarrow> b \<noteq> []"
| "call_ok (Call_recv n _) \<longleftrightarrow> n \<noteq> 0"

fun mq_event_ok :: "mq_event \<Rightarrow> bool" where
  "mq_event_ok (Call _ c) \<longleftrightarrow> call_ok c"
| "mq_event_ok _ \<longleftrightarrow> True"

fun pc_ok :: "'i mq_pc \<Rightarrow> bool" where
  "pc_ok (Send_start b _) \<longleftrightarrow> b \<noteq> []"
| "pc_ok (Urgent_start b) \<longleftrightarrow> b \<noteq> []"
| "pc_ok (Recv_start n _) \<longleftrightarrow> n \<noteq> 0"
| "pc_ok _ \<longleftrightarrow> True"

definition threads_ok :: "'i mq_threads \<Rightarrow> bool" where
  "threads_ok th \<longleftrightarrow> (\<forall>t. pc_ok (pc th t))"

lemma pc_ok_simps [simp]:
  "pc_ok (wake_recv p) = pc_ok p" "pc_ok (wake_send p) = pc_ok p" "pc_ok (fail_with e p) = pc_ok p" "pc_ok (call_pc c) = call_ok c"
  by (cases p; simp)+ (cases c; simp)

lemma threads_ok_simps [simp]:
  "threads_ok th \<Longrightarrow> pc_ok p \<Longrightarrow> threads_ok (set_pc t p th)"
  "threads_ok (th\<lparr>suspend_thread := ts\<rparr>) = threads_ok th"
  "threads_ok (th\<lparr>suspend_sender_thread := ts\<rparr>) = threads_ok th"
  by (simp_all add: threads_ok_def set_pc_def)

lemma threads_okD: "threads_ok th \<Longrightarrow> pc_ok (pc th t)"
  by (simp add: threads_ok_def)

lemma threads_ok_resume [simp]:
  "threads_ok th \<Longrightarrow> threads_ok (resume_recv th)" "threads_ok th \<Longrightarrow> threads_ok (resume_send th)"
  by (auto simp: resume_recv_def resume_send_def threads_okD split: list.split)

lemma sp_step_ok:
  assumes "threads_ok (sp_threads a)" "mq_event_ok c"
  shows "threads_ok (sp_threads (sp_step c a))"
proof (cases c)
  case (Run t e)
  then show ?thesis using assms
    by (simp add: sp_run_def sp_set_def sp_send_take_def sp_urgent_take_def sp_recv_take_def sp_link_def Let_def
        split: mq_pc.split list.split)
next
  case Reset
  then show ?thesis using assms by (simp add: rt_ipc_list_resume_all_def threads_ok_def)
qed (use assms in \<open>simp_all add: start_call_def rt_thread_timeout_def threads_okD\<close>)

lemma mq_step_sim:
  assumes "represents_mq s a" "threads_ok (sp_threads a)" "mq_event_ok c"
  shows "\<exists>s'. mq_step c s = Some s' \<and> represents_mq s' (sp_step c a)"
proof -
  obtain q th where s: "s = (q, th)" by (cases s)
  have r: "represents_mq (q, th) a" using assms(1) s by simp
  have th: "sp_threads a = map_threads (mq_body q) th" using represents_threads [OF r] .
  show ?thesis
  proof (cases c)
    case (Call t d)
    then show ?thesis using s th represents_fewer [OF r fewer_others(1)] by (simp add: map_threads_simps)
  next
    case (Run t e)
    have "pc_ok (pc (sp_threads a) t)" using assms(2) by (rule threads_okD)
    then show ?thesis using run_section_sim [OF assms(1), of t e] Run s by fastforce
  next
    case (Expire t)
    then show ?thesis using s th represents_fewer [OF r fewer_others(2)] by (simp add: map_threads_simps)
  next
    case Reset
    then show ?thesis using reset_sim [OF assms(1)] s by simp
  qed
qed

section \<open>Initial queues\<close>

lemma free_list_loop_spec:
  assumes "msg_queue_free q = None"
  shows "\<exists>nx f. free_list_loop n q = q\<lparr>mq_next := nx, msg_queue_free := f\<rparr> \<and> chain nx f (rev [0..<n])"
proof (induction n)
  case 0
  show ?case using assms by (intro exI [of _ "mq_next q"] exI [of _ None]) (cases q, simp)
next
  case (Suc n)
  then obtain nx f where "free_list_loop n q = q\<lparr>mq_next := nx, msg_queue_free := f\<rparr>" "chain nx f (rev [0..<n])"
    by blast
  then have "free_list_loop (Suc n) q = q\<lparr>mq_next := nx(n := f), msg_queue_free := Some n\<rparr>"
    "chain (nx(n := f)) (Some n) (rev [0..<Suc n])"
    by (simp_all add: Let_def chain_other)
  then show ?case by blast
qed

definition idle_threads :: "bool \<Rightarrow> (tid \<Rightarrow> nat) \<Rightarrow> 'i mq_threads" where
  "idle_threads by_prio prio =
     \<lparr>ipc_prio = by_prio, current_priority = prio, suspend_thread = [], suspend_sender_thread = [], pc = (\<lambda>_. Idle)\<rparr>"

definition spec_init :: "nat \<Rightarrow> bytes list \<Rightarrow> bool \<Rightarrow> (tid \<Rightarrow> nat) \<Rightarrow> mq_spec" where
  "spec_init n stock by_prio prio =
     \<lparr>sp_queue = [], sp_free = stock, sp_size = n, sp_max = length stock, sp_threads = idle_threads by_prio prio\<rparr>"

lemma init_represents:
  assumes "q = \<lparr>mq_next = links, mq_body = bodies, msg_size = ms, max_msgs = mx, mq_entry = 0,
            msg_queue_head = None, msg_queue_tail = None, msg_queue_free = None\<rparr>" "mx \<le> RT_MQ_ENTRY_MAX"
  shows "represents_mq (free_list_loop mx q, idle_threads b p) (spec_init ms (map bodies (rev [0..<mx])) b p)"
proof -
  obtain nx f where f: "free_list_loop mx q = q\<lparr>mq_next := nx, msg_queue_free := f\<rparr>" "chain nx f (rev [0..<mx])"
    using free_list_loop_spec [of q mx] assms(1) by auto
  then have "mq_lists (free_list_loop mx q) [] (rev [0..<mx])" using assms by (auto simp: mq_lists_def)
  then show ?thesis using f(1) assms(1)
    by (intro representsI) (auto simp: held_apart_def linkable_def idle_threads_def spec_init_def map_threads_def fun_eq_iff)
qed

section \<open>Wake-ups\<close>

fun recv_blocked :: "'i mq_pc \<Rightarrow> bool" where
  "recv_blocked (Recv_blocked _ _) \<longleftrightarrow> True" | "recv_blocked _ \<longleftrightarrow> False"

fun recv_woken :: "'i mq_pc \<Rightarrow> bool" where
  "recv_woken (Recv_woken _ _) \<longleftrightarrow> True" | "recv_woken _ \<longleftrightarrow> False"

fun send_blocked :: "'i mq_pc \<Rightarrow> bool" where
  "send_blocked (Send_blocked _ _) \<longleftrightarrow> True" | "send_blocked _ \<longleftrightarrow> False"

fun send_woken :: "'i mq_pc \<Rightarrow> bool" where
  "send_woken (Send_woken _ _) \<longleftrightarrow> True" | "send_woken _ \<longleftrightarrow> False"

definition waits :: "(tid \<Rightarrow> 'i mq_pc) \<Rightarrow> tid list \<Rightarrow> ('i mq_pc \<Rightarrow> bool) \<Rightarrow> ('i mq_pc \<Rightarrow> bool) \<Rightarrow> nat \<Rightarrow> bool" where
  "waits p ts blocked woken n \<longleftrightarrow>
     finite {t. woken (p t)} \<and> distinct ts \<and> set ts = {t. blocked (p t)} \<and>
     (ts \<noteq> [] \<longrightarrow> n \<le> card {t. woken (p t)})"

text \<open>Blocked threads are listed, and when there are any, every message is matched by a woken thread.\<close>

definition wakeups :: "'i mq_threads \<Rightarrow> nat \<Rightarrow> nat \<Rightarrow> bool" where
  "wakeups th nq nf \<longleftrightarrow>
     waits (pc th) (suspend_thread th) recv_blocked recv_woken nq \<and>
     waits (pc th) (suspend_sender_thread th) send_blocked send_woken nf"

lemma waits_other:
  assumes "waits p ts b w n" "b (p t) = b x" "w (p t) = w x"
  shows "waits (p(t := x)) ts b w n"
proof -
  have "{u. w ((p(t := x)) u)} = {u. w (p u)}" "{u. b ((p(t := x)) u)} = {u. b (p u)}" using assms by auto
  then show ?thesis using assms(1) by (simp add: waits_def)
qed

lemma waits_consume:
  assumes "waits p ts b w n" "\<not> b (p t)" "\<not> b x" "\<not> w x"
  shows "waits (p(t := x)) ts b w (n - 1)"
proof -
  have "{u. w ((p(t := x)) u)} = {u. w (p u)} - {t}" "{u. b ((p(t := x)) u)} = {u. b (p u)}" using assms by auto
  then show ?thesis using assms(1) by (auto simp: waits_def card_Diff_singleton_if)
qed

lemma waits_less: "waits p ts b w n \<Longrightarrow> m \<le> n \<Longrightarrow> waits p ts b w m"
  by (auto simp: waits_def)

lemma suspend_split:
  "\<exists>xs ys. ts = xs @ ys \<and> rt_ipc_list_suspend by_prio prio t ts = xs @ t # ys"
proof (cases by_prio)
  case True
  then show ?thesis
    by (intro exI [of _ "takeWhile (\<lambda>u. \<not> prio t < prio u) ts"] exI [of _ "dropWhile (\<lambda>u. \<not> prio t < prio u) ts"])
      (simp add: rt_ipc_list_suspend_def)
next
  case False
  then show ?thesis by (intro exI [of _ ts] exI [of _ "[]"]) (simp add: rt_ipc_list_suspend_def)
qed

lemma suspend_set: "set (rt_ipc_list_suspend by_prio prio t ts) = insert t (set ts)"
  using suspend_split [of ts by_prio prio t] by auto

lemma suspend_distinct: "distinct ts \<Longrightarrow> t \<notin> set ts \<Longrightarrow> distinct (rt_ipc_list_suspend by_prio prio t ts)"
  using suspend_split [of ts by_prio prio t] by auto

lemma waits_block:
  assumes "waits p ts b w n" "\<not> b (p t)" "b x" "\<not> w x"
  shows "waits (p(t := x)) (rt_ipc_list_suspend by_prio prio t ts) b w 0"
proof -
  have "{u. w ((p(t := x)) u)} = {u. w (p u)} - {t}" "{u. b ((p(t := x)) u)} = insert t {u. b (p u)}"
    using assms by auto
  then show ?thesis using assms suspend_distinct [of ts t] by (auto simp: waits_def suspend_set)
qed

lemma waits_wake:
  assumes "waits p (t # ts) b w n" "\<not> b x" "w x" "\<not> w (p t)"
  shows "waits (p(t := x)) ts b w (n + 1)"
proof -
  have "{u. w ((p(t := x)) u)} = insert t {u. w (p u)}" "{u. b ((p(t := x)) u)} = {u. b (p u)} - {t}"
    using assms by auto
  then show ?thesis using assms by (auto simp: waits_def)
qed

lemma waits_nil: "waits p [] b w n \<Longrightarrow> waits p [] b w m"
  by (auto simp: waits_def)

text \<open>The threads outside the waiting parts.\<close>

fun quiet :: "'i mq_pc \<Rightarrow> bool" where
  "quiet p \<longleftrightarrow> \<not> recv_blocked p \<and> \<not> recv_woken p \<and> \<not> send_blocked p \<and> \<not> send_woken p"

lemma wakeups_quiet:
  "wakeups th nq nf \<Longrightarrow> quiet (pc th t) \<Longrightarrow> quiet p \<Longrightarrow> wakeups (set_pc t p th) nq nf"
  unfolding wakeups_def set_pc_def by (auto intro!: waits_other)

lemma wakeups_take_queue:
  assumes "wakeups th nq nf" "quiet (pc th t) \<or> recv_woken (pc th t)" "quiet p"
  shows "wakeups (set_pc t p th) (nq - 1) nf"
  using assms waits_consume [of "pc th" "suspend_thread th" recv_blocked recv_woken nq t p]
    waits_other [of "pc th" "suspend_sender_thread th" send_blocked send_woken nf t p]
  by (cases "pc th t") (auto simp: wakeups_def set_pc_def)

lemma wakeups_take_free:
  assumes "wakeups th nq nf" "quiet (pc th t) \<or> send_woken (pc th t)" "quiet p"
  shows "wakeups (set_pc t p th) nq (nf - 1)"
  using assms waits_consume [of "pc th" "suspend_sender_thread th" send_blocked send_woken nf t p]
    waits_other [of "pc th" "suspend_thread th" recv_blocked recv_woken nq t p]
  by (cases "pc th t") (auto simp: wakeups_def set_pc_def)

lemma wakeups_block_recv:
  assumes "wakeups th 0 nf" "quiet (pc th t) \<or> recv_woken (pc th t)"
  shows "wakeups ((set_pc t (Recv_blocked n k) th)
           \<lparr>suspend_thread := rt_ipc_list_suspend b prio t (suspend_thread th)\<rparr>) 0 nf"
  using assms waits_block [of "pc th" "suspend_thread th" recv_blocked recv_woken 0 t "Recv_blocked n k" b prio]
    waits_other [of "pc th" "suspend_sender_thread th" send_blocked send_woken nf t "Recv_blocked n k"]
  by (cases "pc th t") (auto simp: wakeups_def set_pc_def)

lemma wakeups_block_send:
  assumes "wakeups th nq 0" "quiet (pc th t) \<or> send_woken (pc th t)"
  shows "wakeups ((set_pc t (Send_blocked buf k) th)
           \<lparr>suspend_sender_thread := rt_ipc_list_suspend b prio t (suspend_sender_thread th)\<rparr>) nq 0"
  using assms waits_block [of "pc th" "suspend_sender_thread th" send_blocked send_woken 0 t "Send_blocked buf k" b prio]
    waits_other [of "pc th" "suspend_thread th" recv_blocked recv_woken nq t "Send_blocked buf k"]
  by (cases "pc th t") (auto simp: wakeups_def set_pc_def)

lemma wakeups_resume_recv:
  assumes "wakeups th nq nf"
  shows "wakeups (resume_recv th) (nq + 1) nf"
proof (cases "suspend_thread th")
  case Nil
  then show ?thesis using assms by (auto simp: wakeups_def resume_recv_def intro: waits_nil)
next
  case (Cons t ts)
  then have "recv_blocked (pc th t)" using assms by (auto simp: wakeups_def waits_def)
  then obtain n k where "pc th t = Recv_blocked n k" by (cases "pc th t") auto
  then show ?thesis using assms Cons waits_wake [of "pc th" t ts recv_blocked recv_woken nq "Recv_woken n k"]
      waits_other [of "pc th" "suspend_sender_thread th" send_blocked send_woken nf t "Recv_woken n k"]
    by (auto simp: wakeups_def resume_recv_def set_pc_def)
qed

lemma wakeups_resume_send:
  assumes "wakeups th nq nf"
  shows "wakeups (resume_send th) nq (nf + 1)"
proof (cases "suspend_sender_thread th")
  case Nil
  then show ?thesis using assms by (auto simp: wakeups_def resume_send_def intro: waits_nil)
next
  case (Cons t ts)
  then have "send_blocked (pc th t)" using assms by (auto simp: wakeups_def waits_def)
  then obtain n k where "pc th t = Send_blocked n k" by (cases "pc th t") auto
  then show ?thesis using assms Cons waits_wake [of "pc th" t ts send_blocked send_woken nf "Send_woken n k"]
      waits_other [of "pc th" "suspend_thread th" recv_blocked recv_woken nq t "Send_woken n k"]
    by (auto simp: wakeups_def resume_send_def set_pc_def)
qed

lemma wakeups_start_call: "wakeups th nq nf \<Longrightarrow> wakeups (start_call t c th) nq nf"
  unfolding start_call_def by (cases c; cases "pc th t") (auto intro!: wakeups_quiet)


lemma waits_remove:
  assumes "waits p ts b w n" "\<not> b x" "\<not> w x" "\<not> w (p t)"
  shows "waits (p(t := x)) (removeAll t ts) b w n"
proof -
  have "{u. w ((p(t := x)) u)} = {u. w (p u)}" "{u. b ((p(t := x)) u)} = {u. b (p u)} - {t}" using assms by auto
  then show ?thesis using assms(1) by (auto simp: waits_def distinct_removeAll)
qed

lemma wakeups_timeout:
  assumes "wakeups th nq nf"
  shows "wakeups (rt_thread_timeout t th) nq nf"
proof (cases "timer_running (pc th t)")
  case True
  let ?x = "fail_with (- RT_ETIMEOUT) (pc th t)"
  have "waits ((pc th)(t := ?x)) (removeAll t (suspend_thread th)) recv_blocked recv_woken nq"
    by (rule waits_remove) (use assms True in \<open>cases "pc th t"; simp add: wakeups_def\<close>)+
  moreover have "waits ((pc th)(t := ?x)) (removeAll t (suspend_sender_thread th)) send_blocked send_woken nf"
    by (rule waits_remove) (use assms True in \<open>cases "pc th t"; simp add: wakeups_def\<close>)+
  ultimately show ?thesis using True by (simp add: rt_thread_timeout_def wakeups_def set_pc_def)
qed (use assms in \<open>simp add: rt_thread_timeout_def\<close>)

lemma fail_with_simps [simp]:
  "recv_woken (fail_with e p) = recv_woken p" "send_woken (fail_with e p) = send_woken p"
  "\<not> recv_blocked (fail_with e p)" "\<not> send_blocked (fail_with e p)"
  by (cases p; simp)+

lemma wakeups_resume_all:
  assumes "wakeups th nq nf"
  shows "wakeups (rt_ipc_list_resume_all th) n m"
proof -
  let ?p = "pc (rt_ipc_list_resume_all th)"
  have "recv_woken (?p t) = recv_woken (pc th t)" "send_woken (?p t) = send_woken (pc th t)" for t
    by (simp_all add: rt_ipc_list_resume_all_def)
  moreover have "\<not> recv_blocked (?p t)" "\<not> send_blocked (?p t)" for t
    using assms by (auto simp: rt_ipc_list_resume_all_def wakeups_def waits_def)
  ultimately show ?thesis using assms
    by (simp add: wakeups_def waits_def) (simp add: rt_ipc_list_resume_all_def)
qed

abbreviation sp_wakeups :: "mq_spec \<Rightarrow> bool" where
  "sp_wakeups a \<equiv> wakeups (sp_threads a) (length (sp_queue a)) (length (sp_free a))"

lemma sp_set_wakeups:
  "sp_wakeups a \<Longrightarrow> quiet (pc (sp_threads a) t) \<Longrightarrow> quiet p \<Longrightarrow> sp_wakeups (sp_set t p a)"
  by (simp add: sp_set_def wakeups_quiet)

lemma sp_send_take_wakeups:
  assumes "sp_wakeups a" "quiet (pc (sp_threads a) t) \<or> send_woken (pc (sp_threads a) t)"
  shows "sp_wakeups (sp_send_take buf k t a)"
proof (cases "sp_free a")
  case Nil
  then show ?thesis
    using assms wakeups_block_send [where th = "sp_threads a" and nq = "length (sp_queue a)" and t = t and buf = buf and k = k]
      wakeups_take_free [of "sp_threads a" "length (sp_queue a)" 0 t "Sent (- RT_EFULL)"]
    by (simp add: sp_send_take_def Let_def sp_set_def)
next
  case (Cons m ms)
  then show ?thesis using assms wakeups_take_free [OF assms, of "Send_fill m buf"]
    by (simp add: sp_send_take_def Let_def sp_set_def)
qed

lemma sp_urgent_take_wakeups:
  assumes "sp_wakeups a" "quiet (pc (sp_threads a) t)"
  shows "sp_wakeups (sp_urgent_take buf t a)"
proof (cases "sp_free a")
  case (Cons m ms)
  then show ?thesis using assms wakeups_take_free [OF assms(1) disjI1 [OF assms(2)], of "Urgent_fill m buf"]
    by (simp add: sp_urgent_take_def sp_set_def)
qed (use assms in \<open>simp add: sp_urgent_take_def sp_set_def wakeups_quiet\<close>)

lemma sp_recv_take_wakeups:
  assumes "sp_wakeups a" "quiet (pc (sp_threads a) t) \<or> recv_woken (pc (sp_threads a) t)"
  shows "sp_wakeups (sp_recv_take n k t a)"
proof (cases "sp_queue a")
  case Nil
  then show ?thesis
    using assms wakeups_block_recv [where th = "sp_threads a" and nf = "length (sp_free a)" and t = t and n = n and k = k]
      wakeups_take_queue [of "sp_threads a" 0 "length (sp_free a)" t "Received (- RT_ETIMEOUT) None"]
    by (simp add: sp_recv_take_def Let_def sp_set_def)
next
  case (Cons m ms)
  then show ?thesis using assms wakeups_take_queue [OF assms, of "Recv_copy m n"]
    by (simp add: sp_recv_take_def Let_def sp_set_def)
qed

lemma sp_link_wakeups:
  assumes "sp_wakeups a" "quiet (pc (sp_threads a) t)" "length qs = length (sp_queue a) + 1"
  shows "sp_wakeups (sp_link qs t a)"
  using wakeups_resume_recv [OF wakeups_quiet [OF assms(1,2)], of "Sent RT_EOK"] assms(3)
  by (simp add: sp_link_def)

lemma sp_run_wakeups:
  assumes "sp_wakeups a"
  shows "sp_wakeups (sp_run t e a)"
proof (cases "pc (sp_threads a) t")
  case (Recv_release m b)
  then show ?thesis using wakeups_resume_send [OF wakeups_quiet [OF assms, of t "Received RT_EOK (Some b)"]]
    by (simp add: sp_run_def)
qed (use assms sp_send_take_wakeups [OF assms, of t] sp_urgent_take_wakeups [OF assms, of t]
      sp_recv_take_wakeups [OF assms, of t] sp_link_wakeups [OF assms, of t] sp_set_wakeups [OF assms, of t]
     in \<open>simp_all add: sp_run_def\<close>)

lemma sp_step_wakeups: "sp_wakeups a \<Longrightarrow> sp_wakeups (sp_step c a)"
  by (cases c) (simp_all add: sp_run_wakeups wakeups_start_call wakeups_timeout wakeups_resume_all)

text \<open>The queue implements its specification, and no wake-up is lost.\<close>

definition mq_related :: "mq_sys \<Rightarrow> mq_spec \<Rightarrow> bool" where
  "mq_related s a \<longleftrightarrow> represents_mq s a \<and> threads_ok (sp_threads a) \<and> sp_wakeups a"

interpretation mqs: simulation mq_related "\<lambda>c _. mq_event_ok c" mq_step sp_step
proof
  fix s a c assume a: "mq_related s a" "mq_event_ok c"
  then obtain s' where "mq_step c s = Some s'" "represents_mq s' (sp_step c a)"
    using mq_step_sim [of s a c] by (auto simp: mq_related_def)
  then show "\<exists>s'. mq_step c s = Some s' \<and> mq_related s' (sp_step c a)"
    using sp_step_ok [of a c] sp_step_wakeups [of a c] a by (auto simp: mq_related_def)
qed

section \<open>Order of delivery\<close>

text \<open>The messages in the order in which they are linked and in which they are taken out.\<close>

fun mq_linked :: "mq_event \<Rightarrow> mq_sys \<Rightarrow> bytes list" where
  "mq_linked (Run t _) (q, th) = (case pc th t of Send_link i \<Rightarrow> [mq_body q i] | _ \<Rightarrow> [])"
| "mq_linked _ _ = []"

fun receiving :: "'i mq_pc \<Rightarrow> bool" where
  "receiving (Recv_start _ _) \<longleftrightarrow> True"
| "receiving (Recv_woken _ _) \<longleftrightarrow> True"
| "receiving _ \<longleftrightarrow> False"

fun mq_taken :: "mq_event \<Rightarrow> mq_sys \<Rightarrow> bytes list" where
  "mq_taken (Run t _) (q, th) =
     (if receiving (pc th t) \<and> mq_entry q > 0 then [mq_body q (the (msg_queue_head q))] else [])"
| "mq_taken _ _ = []"

definition mq_logged ::
  "mq_event \<Rightarrow> mq_sys \<times> bytes list \<times> bytes list \<Rightarrow> (mq_sys \<times> bytes list \<times> bytes list) option" where
  "mq_logged c = (\<lambda>(s, sent, got). do {
     s' \<leftarrow> mq_step c s;
     Some (s', sent @ mq_linked c s, got @ mq_taken c s)
   })"

fun walk :: "nat \<Rightarrow> (slot \<Rightarrow> slot option) \<Rightarrow> slot option \<Rightarrow> slot list" where
  "walk (Suc n) nx (Some i) = i # walk n nx (nx i)"
| "walk _ nx _ = []"

definition queue_contents :: "rt_messagequeue \<Rightarrow> bytes list" where
  "queue_contents q = map (mq_body q) (walk (mq_entry q) (mq_next q) (msg_queue_head q))"

lemma walk_chain: "chain nx h xs \<Longrightarrow> walk (length xs) nx h = xs"
  by (induction xs arbitrary: h) auto

lemma queue_contents_represented: "represents_mq (q, th) a \<Longrightarrow> queue_contents q = sp_queue a"
  by (auto simp: represents_mq_def queue_contents_def mq_lists_def walk_chain)

text \<open>Runs of rt\_mq\_send\_wait and rt\_mq\_recv.\<close>

fun fifo_event :: "mq_event \<Rightarrow> bool" where
  "fifo_event (Call _ (Call_urgent _)) \<longleftrightarrow> False"
| "fifo_event Reset \<longleftrightarrow> False"
| "fifo_event _ \<longleftrightarrow> True"

fun buffer_of :: "mq_event \<Rightarrow> bytes set" where
  "buffer_of (Call _ (Call_send b _)) = {b}"
| "buffer_of _ = {}"

definition from_call :: "bytes set \<Rightarrow> bytes \<Rightarrow> bool" where
  "from_call B m \<longleftrightarrow> (\<exists>b \<in> B. take (length b) m = b)"

lemma from_call_fill: "b \<in> B \<Longrightarrow> from_call B (b @ drop (length b) m)"
  by (auto simp: from_call_def intro!: bexI [of _ b])

fun fifo_pc :: "bytes set \<Rightarrow> bytes list \<Rightarrow> bytes mq_pc \<Rightarrow> bool" where
  "fifo_pc B got (Send_start b _) \<longleftrightarrow> b \<in> B"
| "fifo_pc B got (Send_blocked b _) \<longleftrightarrow> b \<in> B"
| "fifo_pc B got (Send_woken b _) \<longleftrightarrow> b \<in> B"
| "fifo_pc B got (Send_fill _ b) \<longleftrightarrow> b \<in> B"
| "fifo_pc B got (Send_link m) \<longleftrightarrow> from_call B m"
| "fifo_pc B got (Recv_copy m _) \<longleftrightarrow> m \<in> set got"
| "fifo_pc B got (Recv_release m buf) \<longleftrightarrow> m \<in> set got \<and> (\<exists>k. buf = take k m)"
| "fifo_pc B got (Received _ (Some buf)) \<longleftrightarrow> (\<exists>m \<in> set got. \<exists>k. buf = take k m)"
| "fifo_pc B got (Urgent_start _) \<longleftrightarrow> False"
| "fifo_pc B got (Urgent_fill _ _) \<longleftrightarrow> False"
| "fifo_pc B got (Urgent_link _) \<longleftrightarrow> False"
| "fifo_pc B got _ \<longleftrightarrow> True"

definition fifo_threads :: "bytes set \<Rightarrow> bytes list \<Rightarrow> bytes mq_threads \<Rightarrow> bool" where
  "fifo_threads B got th \<longleftrightarrow> (\<forall>t. fifo_pc B got (pc th t))"

lemma fifo_pc_mono: "fifo_pc B got p \<Longrightarrow> fifo_pc B (got @ ms) p"
  by (cases "(B, got, p)" rule: fifo_pc.cases) auto

lemma fifo_pc_wake [simp]:
  "fifo_pc B got (wake_recv p) = fifo_pc B got p" "fifo_pc B got (wake_send p) = fifo_pc B got p"
  "fifo_pc B got p \<Longrightarrow> fifo_pc B got (fail_with e p)"
  by (cases p; simp)+

lemma fifo_threads_mono: "fifo_threads B got th \<Longrightarrow> fifo_threads B (got @ ms) th"
  by (simp add: fifo_threads_def fifo_pc_mono)

lemma fifo_set_pc [simp]: "fifo_threads B got th \<Longrightarrow> fifo_pc B got p \<Longrightarrow> fifo_threads B got (set_pc t p th)"
  by (simp add: fifo_threads_def set_pc_def)

lemma fifo_lists [simp]:
  "fifo_threads B got (th\<lparr>suspend_thread := ts\<rparr>) = fifo_threads B got th"
  "fifo_threads B got (th\<lparr>suspend_sender_thread := ts\<rparr>) = fifo_threads B got th"
  by (simp_all add: fifo_threads_def)

lemma fifo_threadsD: "fifo_threads B got th \<Longrightarrow> fifo_pc B got (pc th t)"
  by (simp add: fifo_threads_def)

lemma fifo_resume [simp]:
  "fifo_threads B got th \<Longrightarrow> fifo_threads B got (resume_recv th)" "fifo_threads B got th \<Longrightarrow> fifo_threads B got (resume_send th)"
  by (auto simp: resume_recv_def resume_send_def fifo_threadsD split: list.split)

fun sp_linked :: "mq_event \<Rightarrow> mq_spec \<Rightarrow> bytes list" where
  "sp_linked (Run t _) a = (case pc (sp_threads a) t of Send_link m \<Rightarrow> [m] | _ \<Rightarrow> [])"
| "sp_linked _ _ = []"

fun sp_taken :: "mq_event \<Rightarrow> mq_spec \<Rightarrow> bytes list" where
  "sp_taken (Run t _) a = (if receiving (pc (sp_threads a) t) then take 1 (sp_queue a) else [])"
| "sp_taken _ _ = []"

lemma receiving_map [simp]: "receiving (map_mq_pc f p) = receiving p"
  by (cases p) simp_all

lemma logs_represented:
  assumes "represents_mq s a"
  shows "mq_linked c s = sp_linked c a" "mq_taken c s = sp_taken c a"
proof -
  obtain q th qs fs where r: "s = (q, th)" "mq_lists q qs fs"
    "a = \<lparr>sp_queue = map (mq_body q) qs, sp_free = map (mq_body q) fs, sp_size = msg_size q, sp_max = max_msgs q,
         sp_threads = map_threads (mq_body q) th\<rparr>"
    using assms by (elim representsE) auto
  show "mq_linked c s = sp_linked c a" using r by (cases c) (auto split: mq_pc.split)
  show "mq_taken c s = sp_taken c a" using r by (cases c; cases qs) (auto simp: mq_lists_def)
qed

lemma sp_run_fifo:
  assumes "fifo_threads B got (sp_threads a)" "sent = got @ sp_queue a"
  shows "fifo_threads B (got @ sp_taken (Run t e) a) (sp_threads (sp_run t e a)) \<and>
         sent @ sp_linked (Run t e) a = (got @ sp_taken (Run t e) a) @ sp_queue (sp_run t e a) \<and> (\<forall>m \<in> set (sp_linked (Run t e) a). from_call B m)"
proof -
  have p: "fifo_pc B got (pc (sp_threads a) t)" using assms(1) by (rule fifo_threadsD)
  note defs = sp_run_def sp_set_def sp_send_take_def sp_urgent_take_def sp_recv_take_def sp_link_def Let_def
  show ?thesis
  proof (cases "receiving (pc (sp_threads a) t) \<and> sp_queue a \<noteq> []")
    case True
    then obtain m ms where q: "sp_queue a = m # ms" by (cases "sp_queue a") auto
    have "fifo_threads B (got @ [m]) (sp_threads a)" using assms(1) by (rule fifo_threads_mono)
    then show ?thesis using True q assms(2) by (cases "pc (sp_threads a) t") (simp_all add: defs)
  next
    case False
    then show ?thesis using assms p
      by (cases "pc (sp_threads a) t", auto simp: defs from_call_fill intro!: fifo_resume fifo_set_pc split: list.split, blast)
  qed
qed

lemma sp_step_fifo:
  assumes "fifo_threads B got (sp_threads a)" "sent = got @ sp_queue a" "fifo_event c" "buffer_of c \<subseteq> B"
  shows "fifo_threads B (got @ sp_taken c a) (sp_threads (sp_step c a)) \<and>
         sent @ sp_linked c a = (got @ sp_taken c a) @ sp_queue (sp_step c a) \<and> (\<forall>m \<in> set (sp_linked c a). from_call B m)"
proof (cases c)
  case (Run t e)
  then show ?thesis using sp_run_fifo [OF assms(1,2)] by simp
next
  case (Call t d)
  then show ?thesis using assms by (cases d) (auto simp: start_call_def)
next
  case (Expire t)
  then show ?thesis using assms by (auto simp: rt_thread_timeout_def fifo_threadsD)
qed (use assms in simp)

definition logged_related :: "bytes set \<Rightarrow> mq_sys \<times> bytes list \<times> bytes list \<Rightarrow> mq_spec \<Rightarrow> bool" where
  "logged_related B = (\<lambda>(s, sent, got) a.
     mq_related s a \<and> fifo_threads B got (sp_threads a) \<and> sent = got @ sp_queue a \<and> (\<forall>m \<in> set sent. from_call B m))"

interpretation mql: simulation "logged_related B"
  "\<lambda>c _. mq_event_ok c \<and> fifo_event c \<and> buffer_of c \<subseteq> B" mq_logged sp_step for B
proof
  fix x a c assume a: "logged_related B x a" "mq_event_ok c \<and> fifo_event c \<and> buffer_of c \<subseteq> B"
  obtain s sent got where x: "x = (s, sent, got)" by (cases x)
  have l: "mq_related s a" "fifo_threads B got (sp_threads a)" "sent = got @ sp_queue a" "\<forall>m \<in> set sent. from_call B m"
    using a(1) x by (simp_all add: logged_related_def)
  obtain s' where s': "mq_step c s = Some s'" "mq_related s' (sp_step c a)"
    using mqs.step_sim [OF l(1)] a(2) by blast
  have "represents_mq s a" using l(1) by (simp add: mq_related_def)
  moreover have "\<forall>m \<in> set (sp_linked c a). from_call B m"
    using sp_step_fifo [OF l(2,3), of c] a(2) by blast
  then have "\<forall>m \<in> set (sent @ sp_linked c a). from_call B m" using l(4) by (simp add: ball_Un)
  ultimately show "\<exists>x'. mq_logged c x = Some x' \<and> logged_related B x' (sp_step c a)"
    using s' sp_step_fifo [OF l(2,3), of c] a(2) x
    by (simp add: mq_logged_def logged_related_def logs_represented del: sp_step.simps set_append)
qed

lemma init_related:
  assumes "mx \<le> RT_MQ_ENTRY_MAX"
  shows "mq_related (free_list_loop mx \<lparr>mq_next = links, mq_body = bodies, msg_size = ms, max_msgs = mx, mq_entry = 0,
            msg_queue_head = None, msg_queue_tail = None, msg_queue_free = None\<rparr>, idle_threads b p)
           (spec_init ms (map bodies (rev [0..<mx])) b p)"
  using init_represents [OF refl assms]
  by (simp add: mq_related_def spec_init_def idle_threads_def threads_ok_def wakeups_def waits_def)

lemma rt_mq_init_related:
  "mq_related (rt_mq_init links bodies n pool, idle_threads b p)
     (spec_init (to_u16 (align4 n)) (map bodies (rev [0..<to_u16 (pool div (to_u16 (align4 n) + 4))])) b p)"
  using init_related [of "to_u16 (pool div (to_u16 (align4 n) + 4))"] to_u16_bound [of "pool div (to_u16 (align4 n) + 4)"]
  by (simp add: rt_mq_init_def Let_def RT_MQ_ENTRY_MAX_def)


lemma sp_step_max: "sp_max (sp_step c a) = sp_max a"
proof (cases c)
  case (Run t e)
  then show ?thesis
    by (simp add: sp_run_def sp_set_def sp_send_take_def sp_urgent_take_def sp_recv_take_def sp_link_def Let_def
        split: mq_pc.split list.split)
qed simp_all

lemma sp_max_fold: "sp_max (fold sp_step cs a) = sp_max a"
  by (induction cs arbitrary: a) (simp_all add: sp_step_max)

lemma rt_mq_init_max: "max_msgs (rt_mq_init links bodies n pool) = to_u16 (pool div (to_u16 (align4 n) + 4))"
proof -
  have "max_msgs (free_list_loop m q) = max_msgs q" for m q by (induction m) (simp_all add: Let_def)
  then show ?thesis by (simp add: rt_mq_init_def Let_def)
qed

section \<open>Properties\<close>

text \<open>C7: Under every interleaving of the critical sections of any number of threads that
  send, send urgently, receive, time out and reset, a message queue never dereferences a
  null message and behaves as a list of messages: links, head, tail, free list and counter
  always describe that list, and the threads get the results that the list gives them.\<close>

theorem message_queue_refines:
  assumes "\<forall>c \<in> set cs. mq_event_ok c"
  shows "\<exists>s'. run_steps mq_step cs (rt_mq_init links bodies n pool, idle_threads b p) = Some s' \<and>
           represents_mq s' (fold sp_step cs
             (spec_init (to_u16 (align4 n)) (map bodies (rev [0..<to_u16 (pool div (to_u16 (align4 n) + 4))])) b p))"
  using mqs.run_total [OF rt_mq_init_related, of cs links bodies n pool b p] assms
  by (auto simp: mq_related_def)

definition sample_mq_events :: "mq_event list" where
  "sample_mq_events =
     [Call 1 (Call_recv 4 (-1)), Run 1 0, Call 2 (Call_send [1, 2, 3, 4] 4), Call 3 (Call_send [5, 6, 7, 8] 4),
      Run 2 0, Run 3 0, Run 3 0, Run 2 0, Run 2 0, Run 1 1, Run 3 0, Run 1 0, Run 1 0]"

lemma sample_mq_events_ok: "\<forall>c \<in> set sample_mq_events. mq_event_ok c"
  "\<forall>c \<in> set sample_mq_events. fifo_event c"
  by (simp_all add: sample_mq_events_def)

theorem message_queue_refines_witness:
  "\<exists>s'. run_steps mq_step sample_mq_events (rt_mq_init (\<lambda>_. None) (\<lambda>_. [0, 0, 0, 0]) 4 16, idle_threads True id) = Some s' \<and>
     represents_mq s' (fold sp_step sample_mq_events
       (spec_init (to_u16 (align4 4)) (map (\<lambda>_. [0, 0, 0, 0]) (rev [0..<to_u16 (16 div (to_u16 (align4 4) + 4))])) True id))"
  by (rule message_queue_refines [OF sample_mq_events_ok(1)])



text \<open>C32: No wake-up is lost: whenever a message waits while a receiver is suspended, a
  receiver that has been woken has still to look at the queue, and whenever a message is
  free while a sender is suspended, a woken sender has.\<close>

theorem no_lost_wakeup:
  assumes "\<forall>c \<in> set cs. mq_event_ok c"
  shows "\<exists>q th. run_steps mq_step cs (rt_mq_init links bodies n pool, idle_threads b p) = Some (q, th) \<and>
           (mq_entry q > 0 \<and> suspend_thread th \<noteq> [] \<longrightarrow> (\<exists>t. recv_woken (pc th t))) \<and>
           (msg_queue_free q \<noteq> None \<and> suspend_sender_thread th \<noteq> [] \<longrightarrow> (\<exists>t. send_woken (pc th t)))"
proof -
  obtain s a where s: "run_steps mq_step cs (rt_mq_init links bodies n pool, idle_threads b p) = Some s" "mq_related s a"
    using mqs.run_total [OF rt_mq_init_related, of cs links bodies n pool b p] assms by blast
  obtain q th qs fs where r: "s = (q, th)" "mq_lists q qs fs"
    "a = \<lparr>sp_queue = map (mq_body q) qs, sp_free = map (mq_body q) fs, sp_size = msg_size q, sp_max = max_msgs q,
         sp_threads = map_threads (mq_body q) th\<rparr>"
    using s(2) by (auto simp: mq_related_def elim: representsE)
  have w: "recv_woken (map_mq_pc f p) = recv_woken p" "send_woken (map_mq_pc f p) = send_woken p" for f and p :: "slot mq_pc"
    by (cases p; simp)+
  have l: "suspend_thread th \<noteq> [] \<longrightarrow> length qs \<le> card {t. recv_woken (pc th t)}"
    "suspend_sender_thread th \<noteq> [] \<longrightarrow> length fs \<le> card {t. send_woken (pc th t)}"
    using s(2) r(3) by (simp_all add: mq_related_def wakeups_def waits_def w)
  have "\<exists>t. recv_woken (pc th t)" if "mq_entry q > 0" "suspend_thread th \<noteq> []"
  proof (rule ccontr)
    assume "\<nexists>t. recv_woken (pc th t)"
    then show False using l(1) that r(2) by (simp add: mq_lists_def)
  qed
  moreover have "\<exists>t. send_woken (pc th t)" if "msg_queue_free q \<noteq> None" "suspend_sender_thread th \<noteq> []"
  proof (rule ccontr)
    assume "\<nexists>t. send_woken (pc th t)"
    then show False using l(2) that r(2) chain_head [of "mq_next q" "msg_queue_free q" fs] by (simp add: mq_lists_def)
  qed
  ultimately show ?thesis using s(1) r(1) by auto
qed

theorem no_lost_wakeup_witness:
  "\<exists>q th. run_steps mq_step sample_mq_events (rt_mq_init (\<lambda>_. None) (\<lambda>_. [0, 0, 0, 0]) 4 16, idle_threads True id) = Some (q, th) \<and>
     (mq_entry q > 0 \<and> suspend_thread th \<noteq> [] \<longrightarrow> (\<exists>t. recv_woken (pc th t)))"
  using no_lost_wakeup [OF sample_mq_events_ok(1), of "\<lambda>_. None" "\<lambda>_. [0, 0, 0, 0]" 4 16 True id] by blast

text \<open>C33: A queue created by the application for \<open>num\<close> messages holds at most half of
  them, in every run: the pool has no room for the links.\<close>

theorem manager_queue_half:
  assumes "num < 16384" "\<forall>c \<in> set cs. mq_event_ok c"
  shows "\<exists>q q' th. manager_create_queue True True links bodies sz num = Some q \<and>
           run_steps mq_step cs (q, idle_threads b p) = Some (q', th) \<and> max_msgs q = num div 2 \<and> mq_entry q' \<le> num div 2"
proof -
  let ?q = "rt_mq_init links bodies 4 (4 * num)"
  have m: "to_u16 (align4 4) = 4" "to_u16 (4 * num div (4 + 4)) = num div 2"
    using assms(1) by (simp_all add: align4_def)
  let ?a = "fold sp_step cs (spec_init 4 (map bodies (rev [0..<num div 2])) b p)"
  obtain s where s: "run_steps mq_step cs (?q, idle_threads b p) = Some s" "mq_related s ?a"
    using mqs.run_total [OF rt_mq_init_related, of cs links bodies 4 "4 * num" b p] assms(2) m by auto
  have "sp_max ?a = num div 2" by (simp add: sp_max_fold spec_init_def)
  moreover obtain q th where q: "s = (q, th)" by (cases s)
  ultimately obtain qs fs where r: "mq_lists q qs fs" "max_msgs q = num div 2"
    using s(2) by (auto simp: mq_related_def represents_mq_def)
  have "mq_entry q \<le> num div 2"
    using r card_mono [of "{..<max_msgs q}" "set qs"] by (auto simp: mq_lists_def distinct_card)
  then show ?thesis using s(1) q m by (simp add: manager_create_queue_def rt_mq_init_max)
qed

theorem manager_queue_half_witness:
  "\<exists>q q' th. manager_create_queue True True (\<lambda>_. None) (\<lambda>_. []) 4 32 = Some q \<and>
     run_steps mq_step sample_mq_events (q, idle_threads True id) = Some (q', th) \<and> max_msgs q = 16 \<and> mq_entry q' \<le> 16"
  using manager_queue_half [OF _ sample_mq_events_ok(1), of 32 "\<lambda>_. None" "\<lambda>_. []" 4 True id] by simp

end
