(* ===== verification/Freq.thy ===== *)
theory Freq
  imports Prelude "HOL-Library.Multiset"
begin

unbundle bit_operations_syntax

text \<open>
  The frequency manager, app/wiota\_manager/manager\_wiota/manager\_wiota\_freq.c: it scans
  for channels, ranks those that no other AP uses by their signal strength and starts the
  radio on the quietest one, with the next one for hopping.  The list of channels has one
  entry per channel, so the current entry is named by its channel.  The results of the
  scans, numbered, and the outcome of the allocations are parameters.
\<close>

section \<open>State\<close>

record uc_scan_freq_t =
  sf_freq_idx :: u8
  sf_snr :: u8
  sf_rssi :: u8
  sf_is_synced :: u8

text \<open>The result of a scan: its status and the bytes it delivers.\<close>

record uc_scan_recv_t =
  sr_status :: u16
  sr_bytes :: bytes

record t_freq_node_manager =
  fn_freq :: u8
  fn_snr :: u8
  fn_rssi :: u8
  fn_is_synced :: u8
  fn_success_rate :: u8

datatype wiota_manager_process =
    PROCESS_DEFAULT | PROCESS_SCAN | PROCESS_INIT | PROCESS_RUN | PROCESS_STRATEGY | PROCESS_EXIT

text \<open>Calls of the radio stack, reports and delays, in order.\<close>

datatype freq_action =
    Wiota_init
  | Wiota_run
  | Wiota_exit
  | Set_freq_info u8
  | Set_hopping_freq u8
  | Set_hopping_mode nat nat
  | Scan_freq "bytes option" int
  | Report nat
  | Delay nat

record freq_state =
  freq_list :: "t_freq_node_manager list"
  current_freq_node :: "u8 option"
  continue_scan_fail :: nat
  manager_state :: wiota_manager_process
  scans :: nat
  actions :: "freq_action list"

text \<open>
  The environment: the configured channels (sixteen bytes), the results of the scans,
  whether the allocation for a channel in a scan succeeds, and whether a block that has
  just been freed can still be read.
\<close>

record freq_env =
  static_freqs :: bytes
  scan_result :: "nat \<Rightarrow> uc_scan_recv_t"
  freq_node_ok :: "nat \<Rightarrow> u8 \<Rightarrow> bool"
  freed_readable :: bool

definition act :: "freq_action \<Rightarrow> freq_state \<Rightarrow> freq_state" where
  "act x s = s\<lparr>actions := actions s @ [x]\<rparr>"

section \<open>The list of channels\<close>

definition manager_wiota_get_static_freq :: "freq_env \<Rightarrow> nat" where
  "manager_wiota_get_static_freq e = length (takeWhile (\<lambda>b. b \<noteq> 0xFF) (take 16 (static_freqs e)))"

definition manager_wiota_freq_list_init :: "freq_state \<Rightarrow> freq_state" where
  "manager_wiota_freq_list_init s =
     s\<lparr>freq_list := [], current_freq_node := None, continue_scan_fail := 0, manager_state := PROCESS_DEFAULT\<rparr>"

definition manager_wiota_find_node :: "u8 \<Rightarrow> t_freq_node_manager list \<Rightarrow> t_freq_node_manager option" where
  "manager_wiota_find_node f ns = find (\<lambda>n. fn_freq n = f) ns"

fun update_node :: "uc_scan_freq_t \<Rightarrow> t_freq_node_manager list \<Rightarrow> t_freq_node_manager list" where
  "update_node x [] = []"
| "update_node x (n # ns) =
     (if fn_freq n = sf_freq_idx x then
        n\<lparr>fn_snr := sf_snr x, fn_rssi := sf_rssi x, fn_is_synced := sf_is_synced x, fn_success_rate := 0\<rparr> # ns
      else n # update_node x ns)"

definition new_node :: "uc_scan_freq_t \<Rightarrow> t_freq_node_manager" where
  "new_node x = \<lparr>fn_freq = sf_freq_idx x, fn_snr = sf_snr x, fn_rssi = sf_rssi x,
                 fn_is_synced = sf_is_synced x, fn_success_rate = 0\<rparr>"

fun insert_node :: "t_freq_node_manager \<Rightarrow> t_freq_node_manager list \<Rightarrow> t_freq_node_manager list" where
  "insert_node n [] = [n]"
| "insert_node n (m # ms) = (if sint (fn_rssi m) > sint (fn_rssi n) then n # m # ms else m # insert_node n ms)"

definition manager_wiota_add_freq_list :: "bool \<Rightarrow> uc_scan_freq_t \<Rightarrow> t_freq_node_manager list \<Rightarrow> t_freq_node_manager list" where
  "manager_wiota_add_freq_list ok x ns =
     (if manager_wiota_find_node (sf_freq_idx x) ns \<noteq> None then update_node x ns
      else if \<not> ok then ns
      else insert_node (new_node x) ns)"

fun manager_wiota_remove_freq_list :: "uc_scan_freq_t \<Rightarrow> t_freq_node_manager list \<Rightarrow> t_freq_node_manager list" where
  "manager_wiota_remove_freq_list x [] = []"
| "manager_wiota_remove_freq_list x (n # ns) =
     (if fn_freq n = sf_freq_idx x then ns else n # manager_wiota_remove_freq_list x ns)"

text \<open>The loop reads the link of each node after it has been freed.\<close>

definition manager_wiota_clean_freq_list :: "freq_env \<Rightarrow> freq_state \<Rightarrow> freq_state option" where
  "manager_wiota_clean_freq_list e s = do {
     c_assert (freq_list s = [] \<or> freed_readable e);
     Some (manager_wiota_freq_list_init s)
   }"

fun next_node :: "u8 \<Rightarrow> t_freq_node_manager list \<Rightarrow> u8 option" where
  "next_node f (n # m # ns) = (if fn_freq n = f then Some (fn_freq m) else next_node f (m # ns))"
| "next_node f _ = None"

definition manager_wiota_choose_freq :: "freq_state \<Rightarrow> nat \<times> freq_state" where
  "manager_wiota_choose_freq s =
     (case freq_list s of
        [] \<Rightarrow> (1, s)
      | n # ns \<Rightarrow>
          (case current_freq_node s of
             None \<Rightarrow> (0, s\<lparr>current_freq_node := Some (fn_freq n)\<rparr>)
           | Some f \<Rightarrow>
               (case next_node f (freq_list s) of
                  None \<Rightarrow> (2, s\<lparr>current_freq_node := None\<rparr>)
                | Some g \<Rightarrow> (0, s\<lparr>current_freq_node := Some g\<rparr>))))"

definition manager_wiota_only_freq :: "freq_env \<Rightarrow> u8 \<Rightarrow> freq_state \<Rightarrow> nat \<times> freq_state" where
  "manager_wiota_only_freq e f s =
     (0, s\<lparr>freq_list := manager_wiota_add_freq_list (freq_node_ok e (scans s) f)
             \<lparr>sf_freq_idx = f, sf_snr = 0, sf_rssi = 0, sf_is_synced = 0\<rparr> (freq_list s)\<rparr>)"

section \<open>Scanning\<close>

fun scan_entries :: "bytes \<Rightarrow> uc_scan_freq_t list" where
  "scan_entries (a # b # c # d # r) =
     \<lparr>sf_freq_idx = a, sf_snr = b, sf_rssi = c, sf_is_synced = d\<rparr> # scan_entries r"
| "scan_entries _ = []"

definition manager_wiota_scan_entry ::
  "(u8 \<Rightarrow> bool) \<Rightarrow> uc_scan_freq_t \<Rightarrow> t_freq_node_manager list \<Rightarrow> t_freq_node_manager list" where
  "manager_wiota_scan_entry ok x ns =
     (if sf_is_synced x = 0 then manager_wiota_add_freq_list (ok (sf_freq_idx x)) x ns
      else manager_wiota_remove_freq_list x ns)"

definition manager_wiota_freq_manager :: "freq_env \<Rightarrow> uc_scan_recv_t \<Rightarrow> freq_state \<Rightarrow> nat \<times> freq_state" where
  "manager_wiota_freq_manager e r s =
     (if sr_status r = 0 then
        (if scan_entries (sr_bytes r) = [] then 1 else 0,
         s\<lparr>freq_list := fold (manager_wiota_scan_entry (freq_node_ok e (scans s))) (scan_entries (sr_bytes r)) (freq_list s)\<rparr>)
      else (1, s))"

definition WIOTA_SCAN_TIMEOUT :: int where "WIOTA_SCAN_TIMEOUT = 40000"

definition manager_wiota_scan_freq :: "freq_env \<Rightarrow> freq_state \<Rightarrow> (nat \<times> freq_state) option" where
  "manager_wiota_scan_freq e s = do {
     s1 \<leftarrow> manager_wiota_clean_freq_list e (act Wiota_run (act Wiota_init s));
     let n = manager_wiota_get_static_freq e;
     let (res, s2) =
       (if n = 1 then manager_wiota_only_freq e (static_freqs e ! 0) s1
        else manager_wiota_freq_manager e (scan_result e (scans s1))
               (act (if n = 0 then Scan_freq None (-1) else Scan_freq (Some (take n (static_freqs e))) WIOTA_SCAN_TIMEOUT) s1));
     Some (res, act Wiota_exit (s2\<lparr>scans := scans s2 + 1\<rparr>))
   }"

section \<open>The state machine\<close>

definition REPORT_FREQ_SUC :: nat where "REPORT_FREQ_SUC = 0"
definition REPORT_FREQ_FAIL :: nat where "REPORT_FREQ_FAIL = 1"
definition REPORT_INIT :: nat where "REPORT_INIT = 2"
definition REPORT_USER_FREQ :: nat where "REPORT_USER_FREQ = 3"
definition REPORT_RUN :: nat where "REPORT_RUN = 4"
definition REPORT_EXIT :: nat where "REPORT_EXIT = 5"

definition manager_wiota_report_state :: "nat \<Rightarrow> freq_state \<Rightarrow> freq_state" where
  "manager_wiota_report_state k s = act (Report k) s"

definition process_scan :: "freq_env \<Rightarrow> freq_state \<Rightarrow> freq_state option" where
  "process_scan e s = do {
     (res, s1) \<leftarrow> manager_wiota_scan_freq e s;
     Some (if res \<noteq> 0 then
             let s2 = manager_wiota_report_state REPORT_FREQ_FAIL s1;
                 s3 = s2\<lparr>continue_scan_fail := continue_scan_fail s2 + 1\<rparr>
             in (act (Delay (1000 * continue_scan_fail s3)) s3)\<lparr>manager_state := PROCESS_SCAN\<rparr>
           else (manager_wiota_report_state REPORT_FREQ_SUC s1)\<lparr>manager_state := PROCESS_INIT\<rparr>)
   }"

definition process_init :: "freq_state \<Rightarrow> freq_state option" where
  "process_init s =
     (let (c, s1) = manager_wiota_choose_freq s in
      if c \<noteq> 0 then Some (s1\<lparr>manager_state := PROCESS_SCAN\<rparr>)
      else do {
        f \<leftarrow> current_freq_node s1;
        let s2 = manager_wiota_report_state REPORT_USER_FREQ
                   (act (Set_freq_info f) (manager_wiota_report_state REPORT_INIT (act Wiota_init s1)));
        let (d, s3) = manager_wiota_choose_freq s2;
        s4 \<leftarrow> (if d = 0 then do {
                 g \<leftarrow> current_freq_node s3;
                 Some (act (Set_hopping_mode 2 2) (act (Set_hopping_freq g) s3))
               }
               else Some s3);
        Some (s4\<lparr>manager_state := PROCESS_RUN\<rparr>)
      })"

definition process_run :: "freq_state \<Rightarrow> freq_state" where
  "process_run s =
     (manager_wiota_report_state REPORT_RUN (act Wiota_run s))\<lparr>continue_scan_fail := 0, manager_state := PROCESS_STRATEGY\<rparr>"

text \<open>
  One turn of the loop.  The state PROCESS\_STRATEGY ends it, so that the case for it is
  never reached.
\<close>

definition manager_wiota_turn :: "freq_env \<Rightarrow> freq_state \<Rightarrow> freq_state option" where
  "manager_wiota_turn e s =
     (case manager_state s of
        PROCESS_SCAN \<Rightarrow> process_scan e s
      | PROCESS_INIT \<Rightarrow> process_init s
      | PROCESS_RUN \<Rightarrow> Some (process_run s)
      | PROCESS_EXIT \<Rightarrow>
          Some ((manager_wiota_report_state REPORT_EXIT (act Wiota_exit s))\<lparr>manager_state := PROCESS_INIT\<rparr>)
      | _ \<Rightarrow> Some s)"

partial_function (option) manager_wiota_loop :: "freq_env \<Rightarrow> freq_state \<Rightarrow> freq_state option" where
  "manager_wiota_loop e s =
     (if manager_state s = PROCESS_STRATEGY then Some s
      else do { s' \<leftarrow> manager_wiota_turn e s; manager_wiota_loop e s' })"

declare manager_wiota_loop.simps [code]

definition manager_wiota :: "freq_env \<Rightarrow> freq_state \<Rightarrow> freq_state option" where
  "manager_wiota e s = manager_wiota_loop e ((manager_wiota_freq_list_init s)\<lparr>manager_state := PROCESS_SCAN\<rparr>)"

definition manager_wiota_exit :: "freq_env \<Rightarrow> freq_state \<Rightarrow> freq_state option" where
  "manager_wiota_exit e s = do { s1 \<leftarrow> manager_wiota_clean_freq_list e s; Some (act Wiota_exit s1) }"

section \<open>Ranking\<close>

abbreviation node_key :: "t_freq_node_manager \<Rightarrow> int" where
  "node_key n \<equiv> sint (fn_rssi n)"

lemma insert_node_split:
  "insert_node n ms = takeWhile (\<lambda>m. node_key m \<le> node_key n) ms @ n # dropWhile (\<lambda>m. node_key m \<le> node_key n) ms"
  by (induction ms) auto

lemma insert_node_set [simp]: "set (insert_node n ms) = insert n (set ms)"
  by (induction ms) auto

lemma insert_node_sorted: "sorted (map node_key ms) \<Longrightarrow> sorted (map node_key (insert_node n ms))"
  by (induction ms) (auto simp: not_less)

lemma insert_node_stable:
  "sorted (map node_key ms) \<Longrightarrow>
   filter (\<lambda>m. node_key m = k) (insert_node n ms) =
   filter (\<lambda>m. node_key m = k) ms @ (if node_key n = k then [n] else [])"
proof (induction ms)
  case (Cons m ms)
  show ?case
  proof (cases "node_key n < node_key m")
    case True
    then have "filter (\<lambda>x. node_key x = node_key n) (m # ms) = []"
      using Cons.prems by (auto simp: filter_empty_conv)
    then show ?thesis using True by auto
  qed (use Cons in auto)
qed simp

lemma insert_node_mset: "mset (insert_node n ms) = add_mset n (mset ms)"
  by (induction ms) auto

text \<open>Insertion behind the entries of equal strength is one step of a stable sort.\<close>

lemma insert_node_sort_key: "insert_node n (sort_key node_key ms) = sort_key node_key (ms @ [n])"
proof (rule properties_for_sort_key [symmetric])
  show "mset (insert_node n (sort_key node_key ms)) = mset (ms @ [n])"
    by (simp add: insert_node_mset)
  show "filter (\<lambda>x. node_key m = node_key x) (insert_node n (sort_key node_key ms)) =
      filter (\<lambda>x. node_key m = node_key x) (ms @ [n])" for m
    using insert_node_stable [OF sorted_sort_key [of node_key ms], of "node_key m" n] sort_key_stable [of node_key "node_key m" ms]
    by (simp add: eq_commute [of "node_key m"])
  show "sorted (map node_key (insert_node n (sort_key node_key ms)))"
    by (rule insert_node_sorted) simp
qed


section \<open>The loop\<close>

text \<open>The channels that a scan leaves to choose from, in order.\<close>

definition scan_ranking :: "freq_env \<Rightarrow> nat \<Rightarrow> t_freq_node_manager list" where
  "scan_ranking e i =
     (if sr_status (scan_result e i) = 0 then
        fold (manager_wiota_scan_entry (freq_node_ok e i)) (scan_entries (sr_bytes (scan_result e i))) []
      else [])"

lemma act_simps [simp]:
  "freq_list (act x s) = freq_list s" "current_freq_node (act x s) = current_freq_node s"
  "continue_scan_fail (act x s) = continue_scan_fail s" "manager_state (act x s) = manager_state s"
  "scans (act x s) = scans s" "actions (act x s) = actions s @ [x]"
  by (simp_all add: act_def)

lemma scan_freq_result:
  assumes "freed_readable e" "manager_wiota_get_static_freq e \<noteq> 1"
  shows "\<exists>res s1 acts. manager_wiota_scan_freq e s = Some (res, s1) \<and> freq_list s1 = scan_ranking e (scans s) \<and>
           (scan_ranking e (scans s) \<noteq> [] \<longrightarrow> res = 0) \<and> current_freq_node s1 = None \<and> continue_scan_fail s1 = 0 \<and>
           scans s1 = scans s + 1 \<and> actions s1 = actions s @ acts \<and> (\<forall>d. Delay d \<notin> set acts)"
  using assms
  by (auto simp: manager_wiota_scan_freq_def manager_wiota_clean_freq_list_def manager_wiota_freq_list_init_def
      manager_wiota_freq_manager_def scan_ranking_def Let_def split: if_splits)

lemma process_scan_result:
  assumes "freed_readable e" "manager_wiota_get_static_freq e \<noteq> 1"
  shows "\<exists>s1 acts. process_scan e s = Some s1 \<and> freq_list s1 = scan_ranking e (scans s) \<and>
           (if scan_ranking e (scans s) \<noteq> [] then manager_state s1 = PROCESS_INIT
            else manager_state s1 \<in> {PROCESS_SCAN, PROCESS_INIT}) \<and> current_freq_node s1 = None \<and>
           scans s1 = scans s + 1 \<and> actions s1 = actions s @ acts \<and> (\<forall>d. Delay d \<in> set acts \<longrightarrow> d = 1000)"
proof -
  obtain res s1 acts where r: "manager_wiota_scan_freq e s = Some (res, s1)" "freq_list s1 = scan_ranking e (scans s)"
    "scan_ranking e (scans s) \<noteq> [] \<longrightarrow> res = 0" "current_freq_node s1 = None" "continue_scan_fail s1 = 0"
    "scans s1 = scans s + 1" "actions s1 = actions s @ acts" "\<forall>d. Delay d \<notin> set acts"
    using scan_freq_result [OF assms] by blast
  then show ?thesis
    by (auto simp: process_scan_def manager_wiota_report_state_def Let_def)
qed

definition start_sequence :: "u8 \<Rightarrow> u8 option \<Rightarrow> freq_action list" where
  "start_sequence f g =
     [Wiota_init, Report REPORT_INIT, Set_freq_info f, Report REPORT_USER_FREQ] @
     (case g of None \<Rightarrow> [] | Some h \<Rightarrow> [Set_hopping_freq h, Set_hopping_mode 2 2]) @ [Wiota_run, Report REPORT_RUN]"

fun second_freq :: "t_freq_node_manager list \<Rightarrow> u8 option" where
  "second_freq (_ # m # _) = Some (fn_freq m)"
| "second_freq _ = None"

lemma loop_unfold:
  "manager_state s \<noteq> PROCESS_STRATEGY \<Longrightarrow> manager_wiota_turn e s = Some s' \<Longrightarrow>
   manager_wiota_loop e s = manager_wiota_loop e s'"
  by (subst manager_wiota_loop.simps) simp

lemma loop_done: "manager_state s = PROCESS_STRATEGY \<Longrightarrow> manager_wiota_loop e s = Some s"
  by (subst manager_wiota_loop.simps) simp

lemma loop_from_init:
  assumes "manager_state s = PROCESS_INIT" "freq_list s = n # ns" "current_freq_node s = None"
  shows "\<exists>s'. manager_wiota_loop e s = Some s' \<and> manager_state s' = PROCESS_STRATEGY \<and> freq_list s' = n # ns \<and>
           scans s' = scans s \<and> actions s' = actions s @ start_sequence (fn_freq n) (second_freq (n # ns))"
proof -
  obtain s1 where s1: "process_init s = Some s1" "manager_state s1 = PROCESS_RUN" "freq_list s1 = n # ns"
    "scans s1 = scans s" "actions s1 @ [Wiota_run, Report REPORT_RUN] = actions s @ start_sequence (fn_freq n) (second_freq (n # ns))"
    using assms
    by (cases ns) (auto simp: process_init_def manager_wiota_choose_freq_def manager_wiota_report_state_def
        start_sequence_def Let_def)
  have "manager_wiota_loop e s = manager_wiota_loop e s1"
    using assms s1 by (intro loop_unfold) (simp_all add: manager_wiota_turn_def)
  also have "\<dots> = manager_wiota_loop e (process_run s1)"
    using s1 by (intro loop_unfold) (simp_all add: manager_wiota_turn_def)
  also have "\<dots> = Some (process_run s1)"
    by (rule loop_done) (simp add: process_run_def)
  finally show ?thesis using s1
    by (intro exI [of _ "process_run s1"]) (simp add: process_run_def manager_wiota_report_state_def)
qed

lemma loop_empty_init:
  assumes "manager_state s = PROCESS_INIT" "freq_list s = []"
  shows "manager_wiota_loop e s = manager_wiota_loop e (s\<lparr>manager_state := PROCESS_SCAN\<rparr>)"
  using assms by (intro loop_unfold) (simp_all add: manager_wiota_turn_def process_init_def manager_wiota_choose_freq_def)

lemma loop_from_scan:
  assumes "freed_readable e" "manager_wiota_get_static_freq e \<noteq> 1"
    and "\<forall>i < k. scan_ranking e (scans s + i) = []" "scan_ranking e (scans s + k) = n # ns"
    and "manager_state s = PROCESS_SCAN"
  shows "\<exists>s' acts. manager_wiota_loop e s = Some s' \<and> manager_state s' = PROCESS_STRATEGY \<and> freq_list s' = n # ns \<and>
           scans s' = scans s + k + 1 \<and> (\<forall>d. Delay d \<in> set acts \<longrightarrow> d = 1000) \<and>
           actions s' = actions s @ acts @ start_sequence (fn_freq n) (second_freq (n # ns))"
  using assms(3-5)
proof (induction k arbitrary: s)
  case 0
  obtain s1 acts where r: "process_scan e s = Some s1" "freq_list s1 = n # ns" "manager_state s1 = PROCESS_INIT"
    "current_freq_node s1 = None" "scans s1 = scans s + 1" "actions s1 = actions s @ acts"
    "\<forall>d. Delay d \<in> set acts \<longrightarrow> d = 1000"
    using process_scan_result [OF assms(1,2), of s] 0 by auto
  have "manager_wiota_loop e s = manager_wiota_loop e s1"
    using 0 r by (intro loop_unfold) (simp_all add: manager_wiota_turn_def)
  then show ?case using loop_from_init [OF r(3,2,4), of e] r by auto
next
  case (Suc k)
  obtain s1 acts where r: "process_scan e s = Some s1" "freq_list s1 = []" "manager_state s1 \<in> {PROCESS_SCAN, PROCESS_INIT}"
    "scans s1 = scans s + 1" "actions s1 = actions s @ acts" "\<forall>d. Delay d \<in> set acts \<longrightarrow> d = 1000"
    using process_scan_result [OF assms(1,2), of s] Suc.prems(1) by auto
  let ?s = "s1\<lparr>manager_state := PROCESS_SCAN\<rparr>"
  have "manager_wiota_loop e s = manager_wiota_loop e s1"
    using Suc.prems r by (intro loop_unfold) (simp_all add: manager_wiota_turn_def)
  also have "\<dots> = manager_wiota_loop e ?s"
  proof (cases "manager_state s1 = PROCESS_SCAN")
    case True
    then have "?s = s1" by simp
    then show ?thesis by simp
  qed (use r loop_empty_init in auto)
  finally have l: "manager_wiota_loop e s = manager_wiota_loop e ?s" .
  have "\<forall>i < k. scan_ranking e (scans ?s + i) = []" "scan_ranking e (scans ?s + k) = n # ns"
    using Suc.prems(1,2) r(4) by (auto dest: spec [of _ "Suc _"])
  from Suc.IH [OF this] obtain s' acts' where "manager_wiota_loop e ?s = Some s'" "manager_state s' = PROCESS_STRATEGY"
    "freq_list s' = n # ns" "scans s' = scans s1 + k + 1" "\<forall>d. Delay d \<in> set acts' \<longrightarrow> d = 1000"
    "actions s' = actions s1 @ acts' @ start_sequence (fn_freq n) (second_freq (n # ns))"
    by auto
  then show ?case using l r by (intro exI [of _ s'] exI [of _ "acts @ acts'"]) auto
qed


lemma find_node_None: "sf_freq_idx x \<notin> fn_freq ` set ns \<Longrightarrow> manager_wiota_find_node (sf_freq_idx x) ns = None"
  by (force simp: manager_wiota_find_node_def find_None_iff)

lemma remove_absent: "sf_freq_idx x \<notin> fn_freq ` set ns \<Longrightarrow> manager_wiota_remove_freq_list x ns = ns"
  by (induction ns) auto

definition free_channels :: "uc_scan_freq_t list \<Rightarrow> t_freq_node_manager list" where
  "free_channels xs = map new_node (filter (\<lambda>x. sf_is_synced x = 0) xs)"

lemma free_channels_freqs: "fn_freq ` set (free_channels xs) \<subseteq> sf_freq_idx ` set xs"
  by (auto simp: free_channels_def new_node_def)

lemma scan_fold_ranks:
  assumes "distinct (map sf_freq_idx xs)" "\<And>f. ok f"
  shows "fold (manager_wiota_scan_entry ok) xs [] = sort_key node_key (free_channels xs)"
  using assms(1)
proof (induction xs rule: rev_induct)
  case (snoc x xs)
  let ?ns = "sort_key node_key (free_channels xs)"
  have "sf_freq_idx x \<notin> fn_freq ` set ?ns" using snoc.prems free_channels_freqs [of xs] by auto
  then show ?case
    using snoc assms(2) insert_node_sort_key [of "new_node x" "free_channels xs"]
    by (simp add: manager_wiota_scan_entry_def manager_wiota_add_freq_list_def find_node_None remove_absent
        free_channels_def)
qed (simp add: free_channels_def)

section \<open>Properties\<close>

text \<open>C35: The list built entry by entry from a scan of distinct channels is the stable sort,
  by signed signal strength, of the channels on which no other AP was heard: it can be
  read off the result of the scan without the insertions, updates and removals.\<close>

theorem scan_ranks_free_channels:
  assumes "sr_status r = 0" "distinct (map sf_freq_idx (scan_entries (sr_bytes r)))"
    and "\<And>f. freq_node_ok e (scans s) f" "freq_list s = []"
  shows "freq_list (snd (manager_wiota_freq_manager e r s)) =
           sort_key (\<lambda>n. sint (fn_rssi n))
             (map new_node (filter (\<lambda>x. sf_is_synced x = 0) (scan_entries (sr_bytes r))))"
  using assms scan_fold_ranks [OF assms(2), of "freq_node_ok e (scans s)"]
  by (simp add: manager_wiota_freq_manager_def free_channels_def)

definition sample_scan :: uc_scan_recv_t where
  "sample_scan = \<lparr>sr_status = 0, sr_bytes = [100, 5, 0xB0, 0, 102, 5, 0xA0, 1, 104, 5, 0x90, 0]\<rparr>"

definition sample_freq_env :: freq_env where
  "sample_freq_env = \<lparr>static_freqs = replicate 16 0xFF,
     scan_result = (\<lambda>i. if i = 0 then sample_scan\<lparr>sr_status := 1\<rparr> else sample_scan),
     freq_node_ok = (\<lambda>_ _. True), freed_readable = True\<rparr>"

definition sample_freq_state :: freq_state where
  "sample_freq_state = \<lparr>freq_list = [], current_freq_node = None, continue_scan_fail = 0,
     manager_state = PROCESS_DEFAULT, scans = 0, actions = []\<rparr>"

theorem scan_ranks_free_channels_witness:
  "map fn_freq (freq_list (snd (manager_wiota_freq_manager sample_freq_env sample_scan sample_freq_state))) = [104, 100]"
proof -
  have "sr_status sample_scan = 0" "distinct (map sf_freq_idx (scan_entries (sr_bytes sample_scan)))"
    "\<And>f. freq_node_ok sample_freq_env (scans sample_freq_state) f" "freq_list sample_freq_state = []"
    by (simp_all add: sample_scan_def sample_freq_env_def sample_freq_state_def)
  from scan_ranks_free_channels [OF this] show ?thesis
    by (simp add: sample_scan_def new_node_def)
qed



end
