(* ===== verification/Frame.thy ===== *)
theory Frame
  imports Prelude "HOL-Library.Multiset"
begin

text \<open>
  The operation task, app/wiota\_manager/manager\_wiota/manager\_wiota\_frame.c: it sends the
  messages of the logic task over the air, repeats failed ones and reports their results.
  The list of messages in flight is the list of its values (theory ManagerList); the node
  that a query returns is its first match.  What the environment decides in one round of
  the loop is an argument of the round: whether a list node can be allocated and whether
  the queue of the logic task takes a message.
\<close>

section \<open>Messages and state\<close>

record t_app_operation_head =
  oh_src_address :: u32
  oh_id :: u32
  oh_state :: nat
  oh_result_function :: nat
  oh_cmd :: u32
  oh_request_number :: u32

record t_app_operation_data =
  od_head :: t_app_operation_head
  od_len :: nat
  od_pload :: "bytes option"
  od_segment :: "nat option"

record t_app_recv_wiota_info =
  ri_id :: u32
  ri_data :: bytes

record t_from_network_message =
  dest_len :: nat
  dest_address :: "u32 list option"
  nm_cmd :: u32
  request_number :: u32
  json_data :: "bytes option"

record t_http_message =
  down_file_size :: int
  http_state :: int

record uc_send_recv_t =
  sr_user_id :: u32
  sr_data_id :: u32
  sr_result :: u32

definition MANAGER_SEND_DEFAULT :: nat where "MANAGER_SEND_DEFAULT = 0"
definition MANAGER_SEND_SUCCESS :: nat where "MANAGER_SEND_SUCCESS = 1"
definition MANAGER_SEND_FAIL :: nat where "MANAGER_SEND_FAIL = 2"
definition MANAGER_MAX_SEND_NUM :: nat where "MANAGER_MAX_SEND_NUM = 3"
definition UC_OP_SUCC :: u32 where "UC_OP_SUCC = 0"
definition APP_CMD_GET_SPECIFIC_DATA_SPONSE :: u32 where "APP_CMD_GET_SPECIFIC_DATA_SPONSE = 53"

datatype op_msg =
    OPERATION_MSG t_app_operation_data
  | OPERATION_MSG_RESULT uc_send_recv_t
  | OPERATION_RADIO t_app_operation_data
  | OPERATION_OTA_RADIO t_app_operation_data
  | OPERATION_OTA_RADIO_RESULT
  | OPERATION_EXIT
  | OPERATION_OTHER

datatype logic_msg =
    LOGIC_WIOTA_START
  | LOGIC_SEND_RESULT t_app_operation_data
  | LOGIC_RECV_WIOTA_DATA t_app_recv_wiota_info
  | LOGIC_FROM_NETWORK_MESSAGE t_from_network_message
  | LOGIC_FROM_HTTP_MESSAGE t_http_message

text \<open>Calls of the radio stack, with payload, length and destination.\<close>

datatype radio_call =
    Send_data "bytes option" nat u32
  | Send_broadcast "bytes option" nat bool

text \<open>
  Posting a message: its allocation fails, the allocation of its page fails (manager\_send\_page
  stops there), the queue (theory MessageQueue) stays full, or the message is queued.
\<close>

datatype post_env = No_message | No_page | Queue_full | Queued

record op_state =
  send_list :: "t_app_operation_data list"
  logic_queue :: "logic_msg list"
  operation_queue :: "op_msg list"
  radio :: "radio_call list"
  task_running :: bool
  recv_msg_count :: u32
  old_recv_msg_count :: u32

record outcome =
  node_ok :: bool
  logic_post :: post_env

section \<open>Entry points of the other tasks\<close>

definition to_operation_wiota_data :: "post_env \<Rightarrow> op_msg \<Rightarrow> op_state \<Rightarrow> op_state option" where
  "to_operation_wiota_data e m s =
     (case e of
        No_message \<Rightarrow> Some s
      | No_page \<Rightarrow> None
      | Queue_full \<Rightarrow> Some s
      | Queued \<Rightarrow> Some (s\<lparr>operation_queue := operation_queue s @ [m]\<rparr>))"

definition operation_page ::
  "u32 \<Rightarrow> u32 \<Rightarrow> u32 \<Rightarrow> u32 \<Rightarrow> nat \<Rightarrow> bytes option \<Rightarrow> nat option \<Rightarrow> nat \<Rightarrow> t_app_operation_data" where
  "operation_page number src c dest n data seg func =
     \<lparr>od_head = \<lparr>oh_src_address = src, oh_id = dest, oh_state = MANAGER_SEND_DEFAULT, oh_result_function = func,
                 oh_cmd = c, oh_request_number = number\<rparr>,
      od_len = n, od_pload = data, od_segment = seg\<rparr>"

definition manager_logic_send_to_operater ::
  "bool \<Rightarrow> post_env \<Rightarrow> (t_app_operation_data \<Rightarrow> op_msg) \<Rightarrow> t_app_operation_data \<Rightarrow> op_state \<Rightarrow> op_state option" where
  "manager_logic_send_to_operater page_ok e msg_type page s = do {
     c_assert page_ok;
     to_operation_wiota_data e (msg_type page) s
   }"

definition to_queue_logic_data :: "post_env \<Rightarrow> logic_msg \<Rightarrow> op_state \<Rightarrow> op_state option" where
  "to_queue_logic_data e m s =
     (case e of
        No_message \<Rightarrow> None
      | No_page \<Rightarrow> None
      | Queue_full \<Rightarrow> Some s
      | Queued \<Rightarrow> Some (s\<lparr>logic_queue := logic_queue s @ [m]\<rparr>))"

definition manager_recv_data :: "bool \<Rightarrow> bool \<Rightarrow> post_env \<Rightarrow> u32 \<Rightarrow> bytes \<Rightarrow> op_state \<Rightarrow> op_state option" where
  "manager_recv_data info_ok data_ok e user d s =
     (if info_ok \<and> data_ok then do {
        s1 \<leftarrow> to_queue_logic_data e (LOGIC_RECV_WIOTA_DATA \<lparr>ri_id = user, ri_data = d\<rparr>) s;
        Some (s1\<lparr>recv_msg_count := recv_msg_count s1 + 1\<rparr>)
      }
      else Some s)"

definition manager_send_result :: "bool \<Rightarrow> post_env \<Rightarrow> uc_send_recv_t \<Rightarrow> op_state \<Rightarrow> op_state option" where
  "manager_send_result res_ok e r s =
     (if res_ok then to_operation_wiota_data e (OPERATION_MSG_RESULT r) s else Some s)"

definition manager_recv_timer_func :: "post_env \<Rightarrow> op_state \<Rightarrow> op_state option" where
  "manager_recv_timer_func e s =
     (if recv_msg_count s = old_recv_msg_count s then to_operation_wiota_data e OPERATION_EXIT s
      else Some (s\<lparr>old_recv_msg_count := recv_msg_count s\<rparr>))"

definition uc_send_radio_ota_callback :: "post_env \<Rightarrow> op_state \<Rightarrow> op_state option" where
  "uc_send_radio_ota_callback e s = to_operation_wiota_data e OPERATION_OTA_RADIO_RESULT s"

section \<open>The task\<close>

definition query_result_callback :: "u32 \<Rightarrow> t_app_operation_data \<Rightarrow> bool" where
  "query_result_callback user d \<longleftrightarrow> oh_id (od_head d) = user"

definition manager_ota_remove_cb :: "t_app_operation_data \<Rightarrow> bool" where
  "manager_ota_remove_cb d \<longleftrightarrow> oh_cmd (od_head d) = APP_CMD_GET_SPECIFIC_DATA_SPONSE"

definition set_state :: "nat \<Rightarrow> t_app_operation_data \<Rightarrow> t_app_operation_data" where
  "set_state n d = d\<lparr>od_head := (od_head d)\<lparr>oh_state := n\<rparr>\<rparr>"

definition send_data :: "t_app_operation_data \<Rightarrow> op_state \<Rightarrow> op_state" where
  "send_data d s = s\<lparr>radio := radio s @ [Send_data (od_pload d) (od_len d) (oh_id (od_head d))]\<rparr>"

text \<open>A message is moved to the front by a new node; without one it is gone.\<close>

definition manager_operate_result :: "outcome \<Rightarrow> uc_send_recv_t \<Rightarrow> op_state \<Rightarrow> op_state option" where
  "manager_operate_result e res s =
     (case List.extract (query_result_callback (sr_user_id res)) (send_list s) of
        None \<Rightarrow> Some s
      | Some (xs, process, ys) \<Rightarrow>
          if sr_result res = UC_OP_SUCC then
            to_queue_logic_data (logic_post e) (LOGIC_SEND_RESULT (set_state MANAGER_SEND_SUCCESS process))
              (s\<lparr>send_list := xs @ ys\<rparr>)
          else if oh_state (od_head process) > MANAGER_MAX_SEND_NUM - 2 then
            to_queue_logic_data (logic_post e) (LOGIC_SEND_RESULT (set_state MANAGER_SEND_FAIL process))
              (s\<lparr>send_list := xs @ ys\<rparr>)
          else
            let s1 = send_data process s;
                process' = set_state (oh_state (od_head process) + 1) process
            in Some (s1\<lparr>send_list := (if node_ok e then process' # xs @ ys else xs @ ys)\<rparr>))"

definition manager_ota_result_msg :: "outcome \<Rightarrow> op_state \<Rightarrow> op_state option" where
  "manager_ota_result_msg e s =
     (case List.extract manager_ota_remove_cb (send_list s) of
        None \<Rightarrow> Some s
      | Some (xs, d, ys) \<Rightarrow> to_queue_logic_data (logic_post e) (LOGIC_SEND_RESULT d) (s\<lparr>send_list := xs @ ys\<rparr>))"

fun manager_operation_case :: "outcome \<Rightarrow> op_msg \<Rightarrow> op_state \<Rightarrow> op_state option" where
  "manager_operation_case e (OPERATION_MSG d) s = do {
     c_assert (node_ok e);
     Some (send_data d (s\<lparr>send_list := send_list s @ [d]\<rparr>))
   }"
| "manager_operation_case e (OPERATION_MSG_RESULT r) s = manager_operate_result e r s"
| "manager_operation_case e (OPERATION_RADIO d) s =
     Some (s\<lparr>radio := radio s @ [Send_broadcast (od_pload d) (od_len d) False]\<rparr>)"
| "manager_operation_case e (OPERATION_OTA_RADIO d) s = do {
     c_assert (node_ok e);
     Some (s\<lparr>send_list := send_list s @ [d], radio := radio s @ [Send_broadcast (od_pload d) (od_len d) True]\<rparr>)
   }"
| "manager_operation_case e OPERATION_OTA_RADIO_RESULT s = manager_ota_result_msg e s"
| "manager_operation_case e OPERATION_EXIT s = Some (s\<lparr>task_running := False\<rparr>)"
| "manager_operation_case e OPERATION_OTHER s = Some s"

text \<open>The start of the task, one round of its loop, and its end.\<close>

definition manager_operation_start :: "post_env \<Rightarrow> bool \<Rightarrow> op_state \<Rightarrow> op_state option" where
  "manager_operation_start e timer_ok s = do {
     s1 \<leftarrow> to_queue_logic_data e LOGIC_WIOTA_START s;
     c_assert timer_ok;
     Some (s1\<lparr>send_list := [], task_running := True\<rparr>)
   }"

definition manager_operation_round :: "outcome \<Rightarrow> op_state \<Rightarrow> op_state option" where
  "manager_operation_round e s =
     (if \<not> task_running s then Some s
      else case operation_queue s of
        [] \<Rightarrow> Some s
      | m # ms \<Rightarrow> manager_operation_case e m (s\<lparr>operation_queue := ms\<rparr>))"

definition manager_operation_end :: "op_state \<Rightarrow> op_state" where
  "manager_operation_end s = s\<lparr>send_list := []\<rparr>"

section \<open>Accounting of messages\<close>

text \<open>
  An interleaving of the other tasks, the callbacks and the timer with the rounds of the
  loop.
\<close>

datatype op_event =
    Post bool bool post_env t_app_operation_data
  | Post_radio bool post_env t_app_operation_data
  | Recv bool bool post_env u32 bytes
  | Result bool post_env uc_send_recv_t
  | Timer post_env
  | Ota_result post_env
  | Round outcome

fun op_event_step :: "op_event \<Rightarrow> op_state \<Rightarrow> op_state option" where
  "op_event_step (Post ota p e d) s =
     manager_logic_send_to_operater p e (if ota then OPERATION_OTA_RADIO else OPERATION_MSG) d s"
| "op_event_step (Post_radio p e d) s = manager_logic_send_to_operater p e OPERATION_RADIO d s"
| "op_event_step (Recv i d e u x) s = manager_recv_data i d e u x s"
| "op_event_step (Result r e res) s = manager_send_result r e res s"
| "op_event_step (Timer e) s = manager_recv_timer_func e s"
| "op_event_step (Ota_result e) s = uc_send_radio_ota_callback e s"
| "op_event_step (Round e) s = manager_operation_round e s"

text \<open>
  No allocation with an assertion fails, no list node and no report is lost, and pages are
  new.
\<close>

fun event_ok :: "op_event \<Rightarrow> bool" where
  "event_ok (Post _ p e d) \<longleftrightarrow> p \<and> e \<noteq> No_page \<and> oh_state (od_head d) = MANAGER_SEND_DEFAULT"
| "event_ok (Post_radio p e _) \<longleftrightarrow> p \<and> e \<noteq> No_page"
| "event_ok (Recv _ _ e _ _) \<longleftrightarrow> e = Queue_full \<or> e = Queued"
| "event_ok (Result _ e _) \<longleftrightarrow> e \<noteq> No_page"
| "event_ok (Timer e) \<longleftrightarrow> e \<noteq> No_page"
| "event_ok (Ota_result e) \<longleftrightarrow> e \<noteq> No_page"
| "event_ok (Round e) \<longleftrightarrow> node_ok e \<and> logic_post e = Queued"

fun posted_by :: "op_event \<Rightarrow> t_app_operation_data list" where
  "posted_by (Post _ p e d) = (if e = Queued then [d] else [])"
| "posted_by _ = []"

fun pages_of :: "op_msg \<Rightarrow> t_app_operation_data list" where
  "pages_of (OPERATION_MSG d) = [d]"
| "pages_of (OPERATION_OTA_RADIO d) = [d]"
| "pages_of _ = []"

fun report_of :: "logic_msg \<Rightarrow> t_app_operation_data list" where
  "report_of (LOGIC_SEND_RESULT d) = [d]"
| "report_of _ = []"

definition waiting :: "op_state \<Rightarrow> t_app_operation_data list" where
  "waiting s = concat (map pages_of (operation_queue s))"

definition reported :: "op_state \<Rightarrow> t_app_operation_data list" where
  "reported s = concat (map report_of (logic_queue s))"

fun sent_to :: "u32 \<Rightarrow> radio_call \<Rightarrow> bool" where
  "sent_to u (Send_data _ _ v) \<longleftrightarrow> u = v"
| "sent_to u (Send_broadcast _ _ _) \<longleftrightarrow> False"

definition transmissions :: "u32 \<Rightarrow> op_state \<Rightarrow> nat" where
  "transmissions u s = length (filter (sent_to u) (radio s))"

definition pages_for :: "u32 \<Rightarrow> t_app_operation_data list \<Rightarrow> nat" where
  "pages_for u ds = length (filter (query_result_callback u) ds)"

definition attempts :: "u32 \<Rightarrow> t_app_operation_data list \<Rightarrow> nat" where
  "attempts u ds = (\<Sum>d \<leftarrow> filter (query_result_callback u) ds. oh_state (od_head d) + 1)"

definition pages :: "t_app_operation_data list \<Rightarrow> t_app_operation_data multiset" where
  "pages ds = mset (map (set_state MANAGER_SEND_DEFAULT) ds)"

definition accounted :: "op_state \<Rightarrow> t_app_operation_data list \<Rightarrow> bool" where
  "accounted s a \<longleftrightarrow>
     pages a = pages (waiting s) + pages (send_list s) + pages (reported s) \<and>
     (\<forall>d \<in> set (waiting s). oh_state (od_head d) = MANAGER_SEND_DEFAULT) \<and>
     (\<forall>d \<in> set (send_list s). oh_state (od_head d) < MANAGER_MAX_SEND_NUM) \<and>
     (\<forall>u. transmissions u s \<le> attempts u (send_list s) + MANAGER_MAX_SEND_NUM * pages_for u (reported s))"

lemma base_set_state [simp]: "set_state n (set_state m d) = set_state n d"
  by (simp add: set_state_def)

lemma query_set_state [simp]: "query_result_callback u (set_state n d) = query_result_callback u d"
  by (simp add: set_state_def query_result_callback_def)

lemma state_set_state [simp]: "oh_state (od_head (set_state n d)) = n"
  by (simp add: set_state_def)

lemma id_set_state [simp]: "oh_id (od_head (set_state n d)) = oh_id (od_head d)"
  by (simp add: set_state_def)

lemma pages_simps [simp]:
  "pages [] = {#}" "pages (d # ds) = add_mset (set_state 0 d) (pages ds)" "pages (xs @ ys) = pages xs + pages ys"
  by (simp_all add: pages_def MANAGER_SEND_DEFAULT_def)

lemma attempts_simps [simp]:
  "attempts u [] = 0"
  "attempts u (d # ds) = (if query_result_callback u d then oh_state (od_head d) + 1 else 0) + attempts u ds"
  "attempts u (xs @ ys) = attempts u xs + attempts u ys"
  by (simp_all add: attempts_def)

lemma pages_for_simps [simp]:
  "pages_for u [] = 0"
  "pages_for u (d # ds) = (if query_result_callback u d then 1 else 0) + pages_for u ds"
  "pages_for u (xs @ ys) = pages_for u xs + pages_for u ys"
  by (simp_all add: pages_for_def)

lemma to_queue_logic_data_queued [simp]:
  "to_queue_logic_data Queued m s = Some (s\<lparr>logic_queue := logic_queue s @ [m]\<rparr>)"
  by (simp add: to_queue_logic_data_def)

lemma logic_queue_frame [simp]:
  "reported (s\<lparr>logic_queue := logic_queue s @ [m]\<rparr>) = reported s @ report_of m"
  "waiting (s\<lparr>logic_queue := l\<rparr>) = waiting s"
  "transmissions u (s\<lparr>logic_queue := l\<rparr>) = transmissions u s"
  by (simp_all add: reported_def waiting_def transmissions_def)

lemma operation_queue_frame [simp]:
  "waiting (s\<lparr>operation_queue := operation_queue s @ [m]\<rparr>) = waiting s @ pages_of m"
  "reported (s\<lparr>operation_queue := l\<rparr>) = reported s"
  "transmissions u (s\<lparr>operation_queue := l\<rparr>) = transmissions u s"
  by (simp_all add: reported_def waiting_def transmissions_def)

lemma send_data_frame [simp]:
  "send_list (send_data d s) = send_list s"
  "waiting (send_data d s) = waiting s"
  "reported (send_data d s) = reported s"
  "transmissions u (send_data d s) = transmissions u s + (if query_result_callback u d then 1 else 0)"
  by (auto simp: send_data_def waiting_def reported_def transmissions_def query_result_callback_def)

lemma update_frame [simp]:
  "waiting (s\<lparr>send_list := l\<rparr>) = waiting s" "reported (s\<lparr>send_list := l\<rparr>) = reported s"
  "transmissions u (s\<lparr>send_list := l\<rparr>) = transmissions u s"
  "waiting (s\<lparr>task_running := b\<rparr>) = waiting s" "reported (s\<lparr>task_running := b\<rparr>) = reported s"
  "transmissions u (s\<lparr>task_running := b\<rparr>) = transmissions u s"
  "waiting (s\<lparr>recv_msg_count := c\<rparr>) = waiting s" "reported (s\<lparr>recv_msg_count := c\<rparr>) = reported s"
  "transmissions u (s\<lparr>recv_msg_count := c\<rparr>) = transmissions u s"
  "waiting (s\<lparr>old_recv_msg_count := c\<rparr>) = waiting s" "reported (s\<lparr>old_recv_msg_count := c\<rparr>) = reported s"
  "transmissions u (s\<lparr>old_recv_msg_count := c\<rparr>) = transmissions u s"
  "waiting (s\<lparr>radio := r\<rparr>) = waiting s" "reported (s\<lparr>radio := r\<rparr>) = reported s"
  "transmissions u (s\<lparr>radio := radio s @ [Send_broadcast p n k]\<rparr>) = transmissions u s"
  by (simp_all add: waiting_def reported_def transmissions_def)

text \<open>A message leaves the list for a report, or stays in it with one more attempt.\<close>

lemma report_accounted:
  assumes "accounted s a" "send_list s = xs @ d # ys" "set_state 0 d' = set_state 0 d"
  shows "accounted (s\<lparr>send_list := xs @ ys, logic_queue := logic_queue s @ [LOGIC_SEND_RESULT d']\<rparr>) a"
proof -
  have n: "oh_state (od_head d) < 3" using assms by (simp add: accounted_def MANAGER_MAX_SEND_NUM_def)
  have q: "query_result_callback u d' = query_result_callback u d" for u
    using assms(3) by (metis query_set_state)
  have t: "transmissions u s \<le> attempts u (xs @ d # ys) + 3 * pages_for u (reported s)" for u
    using assms by (simp add: accounted_def MANAGER_MAX_SEND_NUM_def)
  have "transmissions u s \<le> attempts u (xs @ ys) + 3 * pages_for u (reported s @ [d'])" for u
    using t [of u] n q [of u] by (auto split: if_splits)
  then show ?thesis
    using assms unfolding accounted_def
    by (simp add: MANAGER_MAX_SEND_NUM_def reported_def waiting_def transmissions_def)
qed


lemma operate_result_accounted:
  assumes "accounted s a" "node_ok e" "logic_post e = Queued"
  shows "\<exists>s'. manager_operate_result e r s = Some s' \<and> accounted s' a"
proof (cases "List.extract (query_result_callback (sr_user_id r)) (send_list s)")
  case (Some t)
  obtain xs d ys where t: "t = (xs, d, ys)" by (metis prod_cases3)
  have l: "send_list s = xs @ d # ys" "query_result_callback (sr_user_id r) d" using Some t by (auto simp: extract_Some_iff)
  have tr: "transmissions u s \<le> attempts u (xs @ d # ys) + 3 * pages_for u (reported s)" for u
    using assms(1) l by (simp add: accounted_def MANAGER_MAX_SEND_NUM_def)
  have "accounted ((send_data d s)\<lparr>send_list := set_state (oh_state (od_head d) + 1) d # xs @ ys\<rparr>) a"
    if "oh_state (od_head d) \<le> 1"
  proof -
    have "transmissions u s + (if query_result_callback u d then 1 else 0)
        \<le> attempts u (set_state (oh_state (od_head d) + 1) d # xs @ ys) + 3 * pages_for u (reported s)" for u
      using tr [of u] by auto
    then show ?thesis using assms(1) l(1) that by (auto simp: accounted_def MANAGER_MAX_SEND_NUM_def)
  qed
  moreover have "accounted (s\<lparr>send_list := xs @ ys, logic_queue := logic_queue s @ [LOGIC_SEND_RESULT (set_state k d)]\<rparr>) a" for k
    by (rule report_accounted [OF assms(1) l(1)]) simp
  ultimately show ?thesis using Some t assms
    by (simp add: manager_operate_result_def Let_def MANAGER_MAX_SEND_NUM_def)
qed (use assms in \<open>simp add: manager_operate_result_def\<close>)

lemma ota_result_accounted:
  assumes "accounted s a" "logic_post e = Queued"
  shows "\<exists>s'. manager_ota_result_msg e s = Some s' \<and> accounted s' a"
proof (cases "List.extract manager_ota_remove_cb (send_list s)")
  case (Some t)
  obtain xs d ys where t: "t = (xs, d, ys)" by (metis prod_cases3)
  then have "send_list s = xs @ d # ys" using Some by (simp add: extract_Some_iff)
  then show ?thesis using report_accounted [OF assms(1), of xs d ys d] Some t assms
    by (simp add: manager_ota_result_msg_def)
qed (use assms in \<open>simp add: manager_ota_result_msg_def\<close>)

lemma operation_case_accounted:
  assumes "accounted (s\<lparr>operation_queue := m # ms\<rparr>) a" "node_ok e" "logic_post e = Queued"
  shows "\<exists>s'. manager_operation_case e m (s\<lparr>operation_queue := ms\<rparr>) = Some s' \<and> accounted s' a"
proof -
  let ?s = "s\<lparr>operation_queue := ms\<rparr>"
  have w: "waiting (s\<lparr>operation_queue := m # ms\<rparr>) = pages_of m @ waiting ?s"
    by (simp add: waiting_def)
  have acc: "pages a = pages (pages_of m) + pages (waiting ?s) + pages (send_list ?s) + pages (reported ?s)"
    "\<forall>d \<in> set (pages_of m @ waiting ?s). oh_state (od_head d) = MANAGER_SEND_DEFAULT"
    "\<forall>d \<in> set (send_list ?s). oh_state (od_head d) < MANAGER_MAX_SEND_NUM"
    "\<And>u. transmissions u ?s \<le> attempts u (send_list ?s) + MANAGER_MAX_SEND_NUM * pages_for u (reported ?s)"
    using assms(1) unfolding accounted_def w by (simp_all add: ac_simps)
  have skip: "accounted ?s a" if "pages_of m = []"
    using assms(1) that by (simp add: accounted_def w)
  show ?thesis
  proof (cases m)
    case (OPERATION_MSG d)
    have "accounted (send_data d (?s\<lparr>send_list := send_list ?s @ [d]\<rparr>)) a"
      unfolding accounted_def using acc OPERATION_MSG
      by (auto simp: MANAGER_SEND_DEFAULT_def MANAGER_MAX_SEND_NUM_def)
    then show ?thesis using OPERATION_MSG assms by simp
  next
    case (OPERATION_OTA_RADIO d)
    have "accounted (?s\<lparr>send_list := send_list ?s @ [d], radio := radio ?s @ [Send_broadcast (od_pload d) (od_len d) True]\<rparr>) a"
      unfolding accounted_def using acc OPERATION_OTA_RADIO
      by (auto simp: MANAGER_SEND_DEFAULT_def MANAGER_MAX_SEND_NUM_def waiting_def reported_def
          transmissions_def le_SucI)
    then show ?thesis using OPERATION_OTA_RADIO assms by simp
  next
    case (OPERATION_RADIO d)
    then have "accounted (?s\<lparr>radio := radio ?s @ [Send_broadcast (od_pload d) (od_len d) False]\<rparr>) a"
      using skip by (simp add: accounted_def waiting_def reported_def transmissions_def)
    then show ?thesis using OPERATION_RADIO by simp
  next
    case OPERATION_EXIT
    then show ?thesis using skip by (simp add: accounted_def waiting_def reported_def transmissions_def)
  qed (use skip assms operate_result_accounted ota_result_accounted in auto)
qed

lemma post_untracked:
  assumes "accounted s a" "pages_of x = []" "e \<noteq> No_page"
  shows "\<exists>s'. to_operation_wiota_data e x s = Some s' \<and> accounted s' a"
  using assms by (cases e) (simp_all add: to_operation_wiota_data_def accounted_def)

lemma post_accounted:
  assumes "accounted s a" "\<forall>d \<in> set (pages_of x). oh_state (od_head d) = MANAGER_SEND_DEFAULT" "e \<noteq> No_page"
  shows "\<exists>s'. to_operation_wiota_data e x s = Some s' \<and> accounted s' (a @ (if e = Queued then pages_of x else []))"
proof (cases e)
  case Queued
  have "pages a = pages (waiting s) + pages (send_list s) + pages (reported s)" using assms(1) by (simp add: accounted_def)
  then have "pages (a @ pages_of x) = pages (waiting s @ pages_of x) + pages (send_list s) + pages (reported s)"
    by (simp only: pages_simps union_ac)
  then have "accounted (s\<lparr>operation_queue := operation_queue s @ [x]\<rparr>) (a @ pages_of x)"
    using assms(1,2) unfolding accounted_def by (simp add: ball_Un)
  then show ?thesis using Queued by (simp add: to_operation_wiota_data_def)
qed (use assms in \<open>simp_all add: to_operation_wiota_data_def\<close>)

lemma recv_accounted:
  assumes "accounted s a" "e = Queue_full \<or> e = Queued"
  shows "\<exists>s'. manager_recv_data i d e u x s = Some s' \<and> accounted s' a"
  using assms by (auto simp: manager_recv_data_def to_queue_logic_data_def accounted_def)

lemma timer_accounted:
  assumes "accounted s a" "e \<noteq> No_page"
  shows "\<exists>s'. manager_recv_timer_func e s = Some s' \<and> accounted s' a"
  using assms post_untracked [OF assms(1), of OPERATION_EXIT e]
  by (simp add: manager_recv_timer_func_def accounted_def)

lemma round_accounted:
  assumes "accounted s a" "node_ok e" "logic_post e = Queued"
  shows "\<exists>s'. manager_operation_round e s = Some s' \<and> accounted s' a"
proof (cases "task_running s \<and> operation_queue s \<noteq> []")
  case True
  then obtain m ms where q: "operation_queue s = m # ms" by (cases "operation_queue s") auto
  have r: "s\<lparr>operation_queue := m # ms\<rparr> = s" unfolding q [symmetric] by simp
  from q show ?thesis
    using True assms operation_case_accounted [where s = s and m = m and ms = ms and a = a and e = e, unfolded r]
    by (simp add: manager_operation_round_def)
qed (use assms in \<open>auto simp: manager_operation_round_def split: list.splits\<close>)

text \<open>The events implement the accounting of the posted pages, so every interleaving does.\<close>

interpretation ops: simulation accounted "\<lambda>c _. event_ok c" op_event_step "\<lambda>c a. a @ posted_by c"
proof
  fix s a c assume a: "accounted s a" "event_ok c"
  show "\<exists>s'. op_event_step c s = Some s' \<and> accounted s' (a @ posted_by c)"
  proof (cases c)
    case (Post ota p e d)
    then show ?thesis
      using a post_accounted [OF a(1), of "OPERATION_OTA_RADIO d" e] post_accounted [OF a(1), of "OPERATION_MSG d" e]
      by (auto simp: manager_logic_send_to_operater_def)
  qed (use a recv_accounted timer_accounted round_accounted post_untracked [OF a(1)] in
        \<open>auto simp: manager_logic_send_to_operater_def manager_send_result_def uc_send_radio_ota_callback_def\<close>)
qed

lemma fold_append: "fold (\<lambda>c a. a @ f c) cs a = a @ concat (map f cs)"
  by (induction cs arbitrary: a) simp_all

lemma attempts_le:
  assumes "\<forall>d \<in> set ds. oh_state (od_head d) < n"
  shows "attempts u ds \<le> n * pages_for u ds"
  using assms by (induction ds) auto

lemma pages_for_size: "pages_for u ds = size (filter_mset (query_result_callback u) (pages ds))"
  by (induction ds) (simp_all)

lemma accounted_bound:
  assumes "accounted s a"
  shows "transmissions u s \<le> MANAGER_MAX_SEND_NUM * pages_for u a"
proof -
  have "pages_for u a = pages_for u (waiting s) + pages_for u (send_list s) + pages_for u (reported s)"
    using assms by (simp add: accounted_def pages_for_size)
  moreover have "attempts u (send_list s) \<le> MANAGER_MAX_SEND_NUM * pages_for u (send_list s)"
    using assms by (intro attempts_le) (simp add: accounted_def)
  moreover have "transmissions u s \<le> attempts u (send_list s) + MANAGER_MAX_SEND_NUM * pages_for u (reported s)"
    using assms by (simp add: accounted_def)
  ultimately show ?thesis by (simp add: distrib_left)
qed

section \<open>Properties\<close>


definition sample_page :: "u32 \<Rightarrow> nat \<Rightarrow> t_app_operation_data" where
  "sample_page u n = operation_page 7 1 2 u n (Some [9]) None 0"

definition idle_operation :: op_state where
  "idle_operation = \<lparr>send_list = [], logic_queue = [], operation_queue = [], radio = [],
     task_running = True, recv_msg_count = 0, old_recv_msg_count = 0\<rparr>"

definition sample_events :: "op_event list" where
  "sample_events = [Post False True Queued (sample_page 5 1), Round \<lparr>node_ok = True, logic_post = Queued\<rparr>,
     Result True Queued \<lparr>sr_user_id = 5, sr_data_id = 0, sr_result = 1\<rparr>,
     Round \<lparr>node_ok = True, logic_post = Queued\<rparr>]"


text \<open>C34: A result is matched to a message by the device alone.  When two messages to one
  device are in flight, the first fails and is sent again, and then the second succeeds,
  it is the first that is reported as delivered; the second stays in flight.  The
  message numbers that the results carry are never looked at.\<close>

theorem result_misattributed:
  assumes "send_list s = []" "oh_state (od_head a) = MANAGER_SEND_DEFAULT"
    and "oh_id (od_head a) = u" "oh_id (od_head b) = u" "r \<noteq> UC_OP_SUCC" "node_ok e" "logic_post e = Queued"
  shows "run_steps (manager_operation_case e)
           [OPERATION_MSG a, OPERATION_MSG b,
            OPERATION_MSG_RESULT \<lparr>sr_user_id = u, sr_data_id = i, sr_result = r\<rparr>,
            OPERATION_MSG_RESULT \<lparr>sr_user_id = u, sr_data_id = j, sr_result = UC_OP_SUCC\<rparr>] s =
         Some (s\<lparr>send_list := [b],
                 logic_queue := logic_queue s @ [LOGIC_SEND_RESULT (set_state MANAGER_SEND_SUCCESS a)],
                 radio := radio s @ [Send_data (od_pload a) (od_len a) u, Send_data (od_pload b) (od_len b) u,
                                     Send_data (od_pload a) (od_len a) u]\<rparr>)"
  using assms
  by (simp add: manager_operate_result_def send_data_def extract_Cons_code query_result_callback_def
      to_queue_logic_data_def MANAGER_SEND_DEFAULT_def MANAGER_MAX_SEND_NUM_def Let_def)

theorem result_misattributed_witness:
  "run_steps (manager_operation_case \<lparr>node_ok = True, logic_post = Queued\<rparr>)
     [OPERATION_MSG (sample_page 5 1), OPERATION_MSG (sample_page 5 2),
      OPERATION_MSG_RESULT \<lparr>sr_user_id = 5, sr_data_id = 0, sr_result = 1\<rparr>,
      OPERATION_MSG_RESULT \<lparr>sr_user_id = 5, sr_data_id = 1, sr_result = UC_OP_SUCC\<rparr>] idle_operation =
   Some (idle_operation\<lparr>send_list := [sample_page 5 2],
           logic_queue := [LOGIC_SEND_RESULT (set_state MANAGER_SEND_SUCCESS (sample_page 5 1))],
           radio := [Send_data (Some [9]) 1 5, Send_data (Some [9]) 2 5, Send_data (Some [9]) 1 5]\<rparr>)"
proof -
  have "oh_state (od_head (sample_page 5 1)) = MANAGER_SEND_DEFAULT"
    "oh_id (od_head (sample_page 5 1)) = 5" "oh_id (od_head (sample_page 5 2)) = 5" "(1::u32) \<noteq> UC_OP_SUCC"
    "od_pload (sample_page 5 n) = Some [9]" "od_len (sample_page 5 n) = n"
    "send_list idle_operation = []" "logic_queue idle_operation = []" "radio idle_operation = []" for n
    by (simp_all add: sample_page_def operation_page_def UC_OP_SUCC_def idle_operation_def)
  then show ?thesis
    using result_misattributed [of idle_operation "sample_page 5 1" 5 "sample_page 5 2" 1
        "\<lparr>node_ok = True, logic_post = Queued\<rparr>" 0 1]
    by (simp del: run_steps.simps)
qed

end
