(* ===== verification/Update.thy ===== *)
theory Update
  imports Complex_Main Frame Coding
begin

unbundle bit_operations_syntax

text \<open>
  OTA updates, app/wiota\_manager/manager\_wiota/manager\_update.c: the AP keeps an image in
  its flash, broadcasts it block by block, one block for every result of the previous one,
  and repeats the blocks that devices ask for, which are marked in a bitmap.  The JSON
  texts come from cJSON: \<open>cJSON_Parse\<close> and the printing functions are parameters, and the
  code that walks a parsed tree is modelled on the tree.
\<close>

section \<open>State\<close>

text \<open>A parsed JSON value; numbers with their \<open>valuedouble\<close>, taken to be exact.\<close>

datatype cjson =
    CNull
  | CBool bool
  | CNumber rat
  | CString string
  | CArray "cjson list"
  | CObject "(string \<times> cjson) list"

record t_manager_netwwork_info =
  ni_access :: int
  ni_username :: "string option"
  ni_password :: "string option"
  ni_path :: "string option"
  ni_address :: "string option"
  ni_port :: int

record t_manager_update_info =
  active_state :: int
  iote_num :: nat
  iote_id :: "u32 list option"
  new_version :: "string option"
  old_version :: "string option"
  dev_type :: "string option"
  update_type :: int
  up_range :: int
  file_name :: "string option"
  file_len :: int
  md5 :: "string option"
  network :: t_manager_netwwork_info

record t_data_offset =
  do_offset :: int
  do_len :: int

record t_manager_iote_resend_info =
  rs_dev_type :: string
  rs_old_version :: string
  rs_new_version :: string
  rs_update_type :: int
  rs_data_info :: "t_data_offset list"

datatype manager_update_state =
    UPDATE_DEFAULT | UPDATE_REQUEST_MSG | UPDATE_RESPONSE_MSG | UPDATE_DOWN_PAGE
  | START_TRANSFER_DATA | UPDATE_SYSTEM | UPDATE_STOP

record t_manager_update =
  up_state :: manager_update_state
  ota_op_address :: u32
  up_info :: t_manager_update_info
  sub_flag_num :: nat
  rem_sub_flag :: "bytes option"

definition MANAGER_OTA_STOP :: int where "MANAGER_OTA_STOP = 0"
definition MANAGER_OTA_GONGING :: int where "MANAGER_OTA_GONGING = 1"
definition MANAGER_OTA_NODATA :: int where "MANAGER_OTA_NODATA = 2"
definition MANAGER_OTA_SEND_BIN_SIZE :: nat where "MANAGER_OTA_SEND_BIN_SIZE = 512"
definition UC_OTA_PARTITION_START_ADDRESS :: u32 where "UC_OTA_PARTITION_START_ADDRESS = 1016 * 1024"
definition SERVER_DEFAULT_ADDRESS :: u32 where "SERVER_DEFAULT_ADDRESS = 0xFFFFFFF1"
definition APP_CMD_GET_UPDATE_STATE_REQUEST :: u8 where "APP_CMD_GET_UPDATE_STATE_REQUEST = 56"
definition SPECIFIC_DATA_SPONSE :: u8 where "SPECIFIC_DATA_SPONSE = 53"
definition AP_DEMO_VERSION :: string where "AP_DEMO_VERSION = ''v1.0''"

text \<open>The result functions of the pages, by number.\<close>

definition RESULT_OTA_MSG :: nat where "RESULT_OTA_MSG = 4"
definition RESULT_OTA_STATE :: nat where "RESULT_OTA_STATE = 5"
definition RESULT_OTA_RESEND :: nat where "RESULT_OTA_RESEND = 6"

section \<open>The bitmap of blocks to repeat\<close>

definition manager_init_resend_sub_flag :: "bool \<Rightarrow> nat \<Rightarrow> nat \<Rightarrow> bytes option \<times> nat \<times> int" where
  "manager_init_resend_sub_flag ok len sub_len =
     (let count = len div sub_len + (if len mod sub_len > 0 then len mod sub_len else 0);
          flag_num = count div 8 + (if count mod 8 > 0 then 1 else 0)
      in if ok then (Some (replicate (count div 8 + 1) 0), flag_num, 0) else (None, flag_num, 1))"

text \<open>\<open>start_bit\<close> and \<open>block_num\<close> as the loop has them; the byte must be inside the block.\<close>

function set_flag_loop :: "bytes \<Rightarrow> int \<Rightarrow> int \<Rightarrow> bytes option" where
  "set_flag_loop flag start_bit block_num =
     (if block_num = 0 then Some flag
      else if start_bit < 0 \<or> nat start_bit div 8 \<ge> length flag then None
      else set_flag_loop
             (flag[nat start_bit div 8 := flag ! (nat start_bit div 8) OR push_bit (nat start_bit mod 8) 1])
             (start_bit + 1) (block_num - 1))"
  by auto
termination
  by (relation "measure (\<lambda>(flag, start_bit, block_num). nat (8 * int (length flag) - start_bit))") auto

declare set_flag_loop.simps [simp del]

definition c_div :: "int \<Rightarrow> int \<Rightarrow> int" where
  "c_div a b = sgn a * sgn b * (\<bar>a\<bar> div \<bar>b\<bar>)"

definition manager_set_resend_sub_flag :: "bytes \<Rightarrow> int \<Rightarrow> int \<Rightarrow> nat \<Rightarrow> bytes option" where
  "manager_set_resend_sub_flag flag offset len sub_len =
     set_flag_loop flag (c_div offset (int sub_len)) (c_div len (int sub_len))"

fun low_bit :: "u8 \<Rightarrow> nat \<Rightarrow> nat \<Rightarrow> nat option" where
  "low_bit b j 0 = None"
| "low_bit b j (Suc k) = (if b AND push_bit j 1 \<noteq> 0 then Some j else low_bit b (j + 1) k)"

fun get_flag_loop :: "bytes \<Rightarrow> nat \<Rightarrow> nat \<Rightarrow> int option" where
  "get_flag_loop flag i 0 = Some (-2)"
| "get_flag_loop flag i (Suc k) = do {
     b \<leftarrow> mem_get flag i;
     if b \<noteq> 0 then
       (case low_bit b 0 8 of
          None \<Rightarrow> Some (-1)
        | Some j \<Rightarrow> Some (int (i * 8 + j)))
     else get_flag_loop flag (i + 1) k
   }"

definition manager_get_resend_sub_flag :: "bytes option \<Rightarrow> nat \<Rightarrow> int option" where
  "manager_get_resend_sub_flag flag flag_num =
     (if flag_num = 0 then Some (-2) else do { f \<leftarrow> flag; get_flag_loop f 0 flag_num })"

definition manager_clean_resend_sub_flag :: "bytes option \<Rightarrow> nat \<Rightarrow> bytes option" where
  "manager_clean_resend_sub_flag flag bit_num = do {
     f \<leftarrow> flag;
     b \<leftarrow> mem_get f (bit_num div 8);
     Some (f[bit_num div 8 := b AND NOT (push_bit (bit_num mod 8) 1)])
   }"

section \<open>Messages of the server and of devices\<close>

fun to_lower :: "char \<Rightarrow> char" where
  "to_lower c = (let n = of_char c :: nat in if 65 \<le> n \<and> n \<le> 90 then char_of (n + 32) else c)"

definition cJSON_GetObjectItem :: "cjson option \<Rightarrow> string \<Rightarrow> cjson option" where
  "cJSON_GetObjectItem j name =
     (case j of
        Some (CObject items) \<Rightarrow>
          map_option snd (find (\<lambda>(k, v). map to_lower k = map to_lower name) items)
      | _ \<Rightarrow> None)"

definition int_value :: "rat \<Rightarrow> int" where
  "int_value q =
     (if q \<ge> 2 ^ 31 - 1 then 2 ^ 31 - 1 else if q \<le> - (2 ^ 31) then - (2 ^ 31)
      else if q < 0 then \<lceil>q\<rceil> else \<lfloor>q\<rfloor>)"

fun valueint :: "cjson \<Rightarrow> int" where
  "valueint (CNumber n) = int_value n"
| "valueint (CBool True) = 1"
| "valueint _ = 0"

text \<open>A field set from a member of the right type, else kept; \<open>ok\<close> is the outcome of the
  allocation for a string, which is not checked.\<close>

definition set_number :: "cjson option \<Rightarrow> string \<Rightarrow> int \<Rightarrow> int" where
  "set_number j name old = (case cJSON_GetObjectItem j name of Some (CNumber n) \<Rightarrow> int_value n | _ \<Rightarrow> old)"

definition set_string :: "bool \<Rightarrow> cjson option \<Rightarrow> string \<Rightarrow> string option \<Rightarrow> string option option" where
  "set_string ok j name old =
     (case cJSON_GetObjectItem j name of
        Some (CString t) \<Rightarrow> do { c_assert ok; Some (Some t) }
      | _ \<Rightarrow> Some old)"

definition parse_access_info :: "(nat \<Rightarrow> bool) \<Rightarrow> cjson \<Rightarrow> t_manager_netwwork_info \<Rightarrow> t_manager_netwwork_info option" where
  "parse_access_info mo info n = do {
     a \<leftarrow> cJSON_GetObjectItem (Some info) ''access'';
     user \<leftarrow> set_string (mo 5) (Some info) ''username'' (ni_username n);
     pass \<leftarrow> set_string (mo 6) (Some info) ''password'' (ni_password n);
     path \<leftarrow> set_string (mo 7) (Some info) ''path'' (ni_path n);
     url \<leftarrow> set_string (mo 8) (Some info) ''url'' (ni_address n);
     Some (n\<lparr>ni_access := valueint a, ni_username := user, ni_password := pass, ni_path := path,
             ni_address := url, ni_port := set_number (Some info) ''port'' (ni_port n)\<rparr>)
   }"

definition manager_parsing_network_ota_msg ::
  "(nat \<Rightarrow> bool) \<Rightarrow> cjson option \<Rightarrow> t_manager_update_info \<Rightarrow> t_manager_update_info option" where
  "manager_parsing_network_ota_msg mo json i = do {
     new \<leftarrow> set_string (mo 0) json ''new_version'' (new_version i);
     old \<leftarrow> set_string (mo 1) json ''old_version'' (old_version i);
     dev \<leftarrow> set_string (mo 2) json ''dev_type'' (dev_type i);
     ty \<leftarrow> cJSON_GetObjectItem json ''update_type'';
     fil \<leftarrow> set_string (mo 3) json ''file'' (file_name i);
     sz \<leftarrow> cJSON_GetObjectItem json ''size'';
     m \<leftarrow> set_string (mo 4) json ''md5'' (md5 i);
     net \<leftarrow> (case cJSON_GetObjectItem json ''access_info'' of
               Some (CObject fs) \<Rightarrow> parse_access_info mo (CObject fs) (network i)
             | _ \<Rightarrow> Some (network i));
     Some (i\<lparr>active_state := set_number json ''state'' (active_state i), up_range := set_number json ''range'' 0,
             new_version := new, old_version := old, dev_type := dev, update_type := valueint ty,
             file_name := fil, file_len := valueint sz, md5 := m, network := net\<rparr>)
   }"

definition free_update_info :: "t_manager_update_info \<Rightarrow> t_manager_update_info" where
  "free_update_info i =
     i\<lparr>active_state := 0, iote_num := 0, iote_id := None, new_version := None, old_version := None, dev_type := None,
       update_type := 0, up_range := 0, file_len := 0, file_name := None, md5 := None,
       network := \<lparr>ni_access = 0, ni_username = None, ni_password = None, ni_path = None, ni_address = None, ni_port = 0\<rparr>\<rparr>"

text \<open>A request for blocks: the error number or the request.\<close>

fun parse_data_info :: "cjson list \<Rightarrow> int + t_data_offset list" where
  "parse_data_info [] = Inr []"
| "parse_data_info (x # xs) =
     (case cJSON_GetObjectItem (Some x) ''offset'' of
        Some (CNumber a) \<Rightarrow>
          (case cJSON_GetObjectItem (Some x) ''len'' of
             Some (CNumber b) \<Rightarrow>
               (case parse_data_info xs of Inl e \<Rightarrow> Inl e | Inr r \<Rightarrow> Inr (\<lparr>do_offset = int_value a, do_len = int_value b\<rparr> # r))
           | _ \<Rightarrow> Inl 6)
      | _ \<Rightarrow> Inl 5)"

fun array_items :: "cjson \<Rightarrow> cjson list" where
  "array_items (CArray xs) = xs"
| "array_items (CObject fs) = map snd fs"
| "array_items _ = []"

definition manager_parsing_iote_resend_ota_msg ::
  "(nat \<Rightarrow> bool) \<Rightarrow> cjson option \<Rightarrow> (int + t_manager_iote_resend_info) option" where
  "manager_parsing_iote_resend_ota_msg mo json =
     (case json of
        None \<Rightarrow> Some (Inl 1)
      | Some j \<Rightarrow>
         (case cJSON_GetObjectItem json ''dev_type'' of
            Some (CString dev) \<Rightarrow> do {
              c_assert (mo 0);
              case cJSON_GetObjectItem json ''old_version'' of
                Some (CString old) \<Rightarrow> do {
                  c_assert (mo 1);
                  case cJSON_GetObjectItem json ''new_version'' of
                    Some (CString new) \<Rightarrow> do {
                      c_assert (mo 2);
                      case cJSON_GetObjectItem json ''update_type'' of
                        Some (CNumber ty) \<Rightarrow>
                          (case cJSON_GetObjectItem json ''data_info'' of
                             None \<Rightarrow> Some (Inl 3)
                           | Some info \<Rightarrow>
                               if array_items info \<noteq> [] \<and> \<not> mo 3 then Some (Inl 4)
                               else case parse_data_info (array_items info) of
                                      Inl e \<Rightarrow> Some (Inl e)
                                    | Inr r \<Rightarrow> Some (Inr \<lparr>rs_dev_type = dev, rs_old_version = old, rs_new_version = new,
                                                        rs_update_type = int_value ty, rs_data_info = r\<rparr>))
                      | _ \<Rightarrow> Some (Inl 2)
                    }
                  | _ \<Rightarrow> Some (Inl 2)
                }
              | _ \<Rightarrow> Some (Inl 2)
            }
          | _ \<Rightarrow> Some (Inl 2)))"

section \<open>Sending blocks\<close>

text \<open>
  What one call meets: the flash, the texts that cJSON prints, the WIoTa ids of devices, the
  outcome of the allocations and of posting a page, and whether a text that has just been
  freed can still be read.
\<close>

record ota_env =
  flash :: "nat \<Rightarrow> u8"
  data_text :: "t_manager_update_info \<Rightarrow> u32 list \<Rightarrow> nat \<Rightarrow> nat \<Rightarrow> bytes"
  state_text :: "t_manager_update_info \<Rightarrow> int \<Rightarrow> bytes option"
  query_id :: "u32 \<Rightarrow> u32 option"
  data_ok :: bool
  text_readable :: bool
  coding_ok :: "nat \<Rightarrow> nat \<Rightarrow> nat \<Rightarrow> bool"
  page_ok :: bool
  ota_post :: post_env

definition flash_read :: "ota_env \<Rightarrow> u32 \<Rightarrow> nat \<Rightarrow> bytes" where
  "flash_read e a n = map (\<lambda>i. flash e (unat a + i)) [0..<n]"

text \<open>The offset of the next block and its length, unless the image is finished.\<close>

definition block_offset :: "t_manager_update \<Rightarrow> nat" where
  "block_offset u = unat (ota_op_address u - UC_OTA_PARTITION_START_ADDRESS)"

definition block_len :: "t_manager_update \<Rightarrow> nat option" where
  "block_len u =
     (let off = block_offset u; fl = nat (file_len (up_info u) mod 2 ^ 32) in
      if unat (ota_op_address u - UC_OTA_PARTITION_START_ADDRESS + of_nat MANAGER_OTA_SEND_BIN_SIZE) > fl \<and> off < fl
      then Some (align4 (fl - off))
      else if off \<ge> fl then None
      else Some MANAGER_OTA_SEND_BIN_SIZE)"

fun query_all :: "(u32 \<Rightarrow> u32 option) \<Rightarrow> u32 list \<Rightarrow> u32 list option" where
  "query_all f [] = Some []"
| "query_all f (x # xs) = do { y \<leftarrow> f x; ys \<leftarrow> query_all f xs; Some (y # ys) }"

definition dev_list :: "ota_env \<Rightarrow> t_manager_update_info \<Rightarrow> u32 list option" where
  "dev_list e i =
     (if update_type i \<noteq> 0 \<and> iote_num i > 0 then do {
        ids \<leftarrow> iote_id i;
        c_assert (iote_num i \<le> length ids);
        query_all (query_id e) (take (iote_num i) ids)
      }
      else Some [])"

text \<open>The text and the block in a buffer of 1024 bytes, or nothing at the end of the image.\<close>

definition manager_ota_msg_of_data :: "ota_env \<Rightarrow> t_manager_update \<Rightarrow> (bytes option \<times> t_manager_update) option" where
  "manager_ota_msg_of_data e u =
     (case block_len u of
        None \<Rightarrow> Some (None, u)
      | Some len \<Rightarrow> do {
          let bin = flash_read e (ota_op_address u) len;
          let u' = u\<lparr>ota_op_address := ota_op_address u + of_nat len\<rparr>;
          ids \<leftarrow> dev_list e (up_info u);
          let text = data_text e (up_info u) ids (block_offset u) len;
          c_assert (data_ok e);
          c_assert (length text + len \<le> 1024);
          c_assert (text_readable e);
          Some (Some (text @ bin), u')
        })"

definition ota_header :: "u8 \<Rightarrow> app_ps_header_t" where
  "ota_header c =
     \<lparr>property = app_set_header_property 7 1 0, addr = \<lparr>src_addr = SERVER_DEFAULT_ADDRESS, dest_addr = 0\<rparr>,
      packet_num = 0, segment_info = \<lparr>total_num = 0, current_num = 0\<rparr>, cmd_type = c\<rparr>"

text \<open>The coded message, if coding answers 0.\<close>

definition manager_ota_msg_coding :: "(nat \<Rightarrow> nat \<Rightarrow> bool) \<Rightarrow> u8 \<Rightarrow> bytes \<Rightarrow> (bytes \<times> nat) option option" where
  "manager_ota_msg_coding mo c d = do {
     (r, h, out) \<leftarrow> app_data_coding mo (Some (ota_header c)) (Some d) (length d);
     Some (if r = 0 then out else None)
   }"

definition post_ota_page :: "ota_env \<Rightarrow> nat \<Rightarrow> bytes \<times> nat \<Rightarrow> op_state \<Rightarrow> op_state option" where
  "post_ota_page e func = (\<lambda>(buf, n) s.
     manager_logic_send_to_operater (page_ok e) (ota_post e) OPERATION_OTA_RADIO
       (operation_page 0 SERVER_DEFAULT_ADDRESS APP_CMD_GET_SPECIFIC_DATA_SPONSE 0 n (Some buf) None func) s)"

text \<open>Only the lowest bit of the state is sent.\<close>

definition manager_ota_send_state :: "ota_env \<Rightarrow> int \<Rightarrow> t_manager_update \<Rightarrow> op_state \<Rightarrow> op_state option" where
  "manager_ota_send_state e st u s =
     (case state_text e (up_info u) (st mod 2) of
        None \<Rightarrow> Some s
      | Some d \<Rightarrow> do {
          r \<leftarrow> manager_ota_msg_coding (coding_ok e 9) APP_CMD_GET_UPDATE_STATE_REQUEST d;
          case r of None \<Rightarrow> Some s | Some out \<Rightarrow> post_ota_page e RESULT_OTA_STATE out s
        })"

text \<open>Coding is tried five times; \<open>k\<close> attempts are left.\<close>

fun coding_attempts :: "ota_env \<Rightarrow> nat \<Rightarrow> nat \<Rightarrow> bytes \<Rightarrow> (bytes \<times> nat) option option" where
  "coding_attempts e num 0 d = Some None"
| "coding_attempts e num (Suc k) d = do {
     r \<leftarrow> manager_ota_msg_coding (coding_ok e num) SPECIFIC_DATA_SPONSE d;
     case r of Some out \<Rightarrow> Some (Some out) | None \<Rightarrow> coding_attempts e (num + 1) k d
   }"

definition manager_start_send_page ::
  "ota_env \<Rightarrow> t_manager_update \<times> op_state \<Rightarrow> (int \<times> t_manager_update \<times> op_state) option" where
  "manager_start_send_page e = (\<lambda>(u, s). do {
     (data, u1) \<leftarrow> manager_ota_msg_of_data e u;
     case data of
       Some d \<Rightarrow> do {
         r \<leftarrow> coding_attempts e 0 5 d;
         case r of
           Some out \<Rightarrow> do { s1 \<leftarrow> post_ota_page e RESULT_OTA_MSG out s; Some (0, u1, s1) }
         | None \<Rightarrow> do { s1 \<leftarrow> manager_ota_send_state e MANAGER_OTA_STOP u1 s; Some (1, u1, s1) }
       }
     | None \<Rightarrow> do {
         let u2 = u1\<lparr>up_state := UPDATE_STOP, ota_op_address := UC_OTA_PARTITION_START_ADDRESS\<rparr>;
         s1 \<leftarrow> manager_ota_send_state e MANAGER_OTA_STOP u2 s;
         Some (2, u2, s1)
       }
   })"

definition manager_ota_msg_result :: "ota_env \<Rightarrow> t_manager_update \<times> op_state \<Rightarrow> (t_manager_update \<times> op_state) option" where
  "manager_ota_msg_result e us = map_option snd (manager_start_send_page e us)"

definition manager_start_iote_update ::
  "ota_env \<Rightarrow> t_manager_update \<times> op_state \<Rightarrow> (int \<times> t_manager_update \<times> op_state) option" where
  "manager_start_iote_update e = (\<lambda>(u, s).
     let u1 = u\<lparr>ota_op_address := UC_OTA_PARTITION_START_ADDRESS, up_state := START_TRANSFER_DATA\<rparr> in
     if active_state (up_info u1) \<noteq> 0 then manager_start_send_page e (u1, s) else Some (1, u1, s))"

section \<open>Repeating blocks\<close>

text \<open>When there is no block to read, an uninitialised pointer is freed.\<close>

definition manager_resend_data :: "ota_env \<Rightarrow> t_manager_update \<times> op_state \<Rightarrow> (t_manager_update \<times> op_state) option" where
  "manager_resend_data e = (\<lambda>(u, s). do {
     loc \<leftarrow> manager_get_resend_sub_flag (rem_sub_flag u) (sub_flag_num u);
     if loc < 0 then Some (u, s)
     else do {
       let u1 = u\<lparr>ota_op_address := UC_OTA_PARTITION_START_ADDRESS + of_int (loc * int MANAGER_OTA_SEND_BIN_SIZE)\<rparr>;
       flag \<leftarrow> manager_clean_resend_sub_flag (rem_sub_flag u1) (nat loc);
       (data, u2) \<leftarrow> manager_ota_msg_of_data e (u1\<lparr>rem_sub_flag := Some flag\<rparr>);
       d \<leftarrow> data;
       r \<leftarrow> manager_ota_msg_coding (coding_ok e 0) SPECIFIC_DATA_SPONSE d;
       case r of
         None \<Rightarrow> Some (u2, s)
       | Some out \<Rightarrow> do { s1 \<leftarrow> post_ota_page e RESULT_OTA_RESEND out s; Some (u2, s1) }
     }
   })"

definition manager_ota_resend_msg_result :: "ota_env \<Rightarrow> t_manager_update \<times> op_state \<Rightarrow> (t_manager_update \<times> op_state) option" where
  "manager_ota_resend_msg_result e us = manager_resend_data e us"

text \<open>strcmp, which faults on a null pointer.\<close>

definition manager_check_iote_resend_quest :: "t_manager_iote_resend_info \<Rightarrow> t_manager_update_info \<Rightarrow> int option" where
  "manager_check_iote_resend_quest r i = do {
     new \<leftarrow> new_version i;
     if rs_new_version r \<noteq> new then Some 1
     else do {
       old \<leftarrow> old_version i;
       Some (if rs_old_version r \<noteq> old then 2 else if rs_update_type r \<noteq> update_type i then 3 else 0)
     }
   }"

fun set_flags :: "bytes option \<Rightarrow> t_data_offset list \<Rightarrow> bytes option option" where
  "set_flags flag [] = Some flag"
| "set_flags flag (x # xs) = do {
     f \<leftarrow> (if c_div (do_len x) (int MANAGER_OTA_SEND_BIN_SIZE) = 0 then Some flag
           else do {
             f0 \<leftarrow> flag;
             f1 \<leftarrow> manager_set_resend_sub_flag f0 (do_offset x) (do_len x) MANAGER_OTA_SEND_BIN_SIZE;
             Some (Some f1)
           });
     set_flags f xs
   }"

definition manager_ota_resend_data ::
  "ota_env \<Rightarrow> (nat \<Rightarrow> bool) \<Rightarrow> cjson option \<Rightarrow> t_manager_update \<times> op_state \<Rightarrow> (int \<times> t_manager_update \<times> op_state) option" where
  "manager_ota_resend_data e mo json = (\<lambda>(u, s). do {
     req \<leftarrow> manager_parsing_iote_resend_ota_msg mo json;
     case req of
       Inl _ \<Rightarrow> Some (1, u, s)
     | Inr r \<Rightarrow> do {
         c \<leftarrow> manager_check_iote_resend_quest r (up_info u);
         if c \<noteq> 0 then Some (2, u, s)
         else do {
           flag \<leftarrow> manager_get_resend_sub_flag (rem_sub_flag u) (sub_flag_num u);
           f \<leftarrow> set_flags (rem_sub_flag u) (rs_data_info r);
           let u1 = u\<lparr>rem_sub_flag := f\<rparr>;
           if flag \<noteq> 0 then do { us \<leftarrow> manager_resend_data e (u1, s); Some (0, us) }
           else Some (0, u1, s)
         }
       }
   })"

section \<open>Starting an update\<close>

datatype update_action = Wait_download | Boot_update int | Nothing_more

definition manager_ap_update :: "int \<Rightarrow> t_manager_update \<Rightarrow> update_action \<times> t_manager_update" where
  "manager_ap_update n u = (Boot_update n, u\<lparr>up_state := UPDATE_SYSTEM, up_info := free_update_info (up_info u)\<rparr>)"

definition manager_start_update ::
  "ota_env \<Rightarrow> bool \<Rightarrow> t_http_message \<Rightarrow> t_manager_update \<times> op_state \<Rightarrow> (update_action \<times> t_manager_update \<times> op_state) option" where
  "manager_start_update e flag_ok h = (\<lambda>(u, s).
     if http_state h = 0 then do {
       ids \<leftarrow> iote_id (up_info u);
       c_assert (ids \<noteq> []);
       dev \<leftarrow> (if hd ids = 0xD0000000 then dev_type (up_info u) else Some []);
       if hd ids = 0xD0000000 \<and> dev = ''ap'' then
         (case manager_ap_update (down_file_size h) u of (a, u1) \<Rightarrow> Some (a, u1, s))
       else do {
         let i = (up_info u)\<lparr>file_len := down_file_size h\<rparr>;
         let (f, n, r) = manager_init_resend_sub_flag flag_ok (nat (down_file_size h)) MANAGER_OTA_SEND_BIN_SIZE;
         (_, us) \<leftarrow> manager_start_iote_update e (u\<lparr>up_info := i, rem_sub_flag := f, sub_flag_num := n\<rparr>, s);
         Some (Nothing_more, us)
       }
     }
     else Some (Nothing_more, u\<lparr>up_state := UPDATE_STOP\<rparr>, s))"

definition manager_check_ap_update_info :: "t_manager_update_info \<Rightarrow> int option" where
  "manager_check_ap_update_info i = do {
     dev \<leftarrow> dev_type i;
     if dev \<noteq> ''ap'' then Some 1
     else do { old \<leftarrow> old_version i; Some (if old \<noteq> AP_DEMO_VERSION then 2 else 0) }
   }"

text \<open>
  The addresses are copied with four times their length in bytes; \<open>beyond\<close> are the words
  that follow them in memory.
\<close>

definition copy_ids :: "bool \<Rightarrow> u32 list \<Rightarrow> t_from_network_message \<Rightarrow> u32 list option option" where
  "copy_ids ok beyond m =
     (if \<not> ok then Some None
      else if dest_len m = 0 then Some (Some [])
      else do {
        ids \<leftarrow> dest_address m;
        c_assert (dest_len m \<le> length (ids @ beyond));
        Some (Some (take (dest_len m) (ids @ beyond)))
      })"

definition manager_update_response ::
  "(bytes \<Rightarrow> cjson option) \<Rightarrow> (nat \<Rightarrow> bool) \<Rightarrow> bool \<Rightarrow> u32 list \<Rightarrow> t_from_network_message \<Rightarrow> t_manager_update \<Rightarrow>
     (int \<times> update_action \<times> t_manager_update) option" where
  "manager_update_response cJSON_Parse mo ids_ok beyond m u = do {
     ids \<leftarrow> copy_ids ids_ok beyond m;
     let i0 = (up_info u)\<lparr>iote_num := dest_len m div 4, iote_id := ids\<rparr>;
     i1 \<leftarrow> manager_parsing_network_ota_msg mo (Option.bind (json_data m) cJSON_Parse) i0;
     c \<leftarrow> manager_check_ap_update_info i1;
     let u1 = u\<lparr>up_info := i1\<rparr>;
     Some (if c = 2 then (2, Nothing_more, u1)
           else (0, if active_state i1 \<noteq> 0 then Wait_download else Nothing_more,
                 u1\<lparr>ota_op_address := UC_OTA_PARTITION_START_ADDRESS, up_state := UPDATE_DOWN_PAGE\<rparr>))
   }"

section \<open>The bitmap as a set\<close>

definition marked :: "bytes \<Rightarrow> nat set" where
  "marked f = {i. i < 8 * length f \<and> bit (f ! (i div 8)) (i mod 8)}"

lemma marked_finite [simp]: "finite (marked f)"
  unfolding marked_def by (rule finite_subset [of _ "{..<8 * length f}"]) auto

lemma div8_eq: "i div 8 = j div 8 \<and> i mod 8 = j mod 8 \<longleftrightarrow> i = (j :: nat)"
  by (metis mod_mult_div_eq)

lemma bit_mask8: "j < 8 \<Longrightarrow> bit (2 ^ k :: u8) j \<longleftrightarrow> j = k"
  by (auto simp: bit_simps)

lemma in_marked: "i \<in> marked f \<longleftrightarrow> i div 8 < length f \<and> bit (f ! (i div 8)) (i mod 8)"
proof -
  have "i < 8 * length f \<longleftrightarrow> i div 8 < length f" by linarith
  then show ?thesis by (simp add: marked_def)
qed

lemma marked_set:
  assumes "i div 8 < length f"
  shows "marked (f[i div 8 := f ! (i div 8) OR push_bit (i mod 8) 1]) = insert i (marked f)"
proof (rule set_eqI)
  fix x
  show "x \<in> marked (f[i div 8 := f ! (i div 8) OR push_bit (i mod 8) 1]) \<longleftrightarrow> x \<in> insert i (marked f)"
    using assms div8_eq [of x i]
    by (cases "x div 8 = i div 8") (auto simp: in_marked bit_or_iff bit_mask8)
qed

lemma marked_clear:
  assumes "i div 8 < length f"
  shows "marked (f[i div 8 := f ! (i div 8) AND NOT (push_bit (i mod 8) 1)]) = marked f - {i}"
proof (rule set_eqI)
  fix x
  show "x \<in> marked (f[i div 8 := f ! (i div 8) AND NOT (push_bit (i mod 8) 1)]) \<longleftrightarrow> x \<in> marked f - {i}"
    using assms div8_eq [of x i]
    by (cases "x div 8 = i div 8") (auto simp: in_marked bit_and_iff bit_not_iff bit_mask8)
qed

lemma set_flag_loop_step:
  assumes "start div 8 < length f"
  shows "set_flag_loop f (int start) (int (Suc k)) =
    set_flag_loop (f[start div 8 := f ! (start div 8) OR push_bit (start mod 8) 1]) (int (start + 1)) (int k)"
  using assms by (subst set_flag_loop.simps) (simp add: add.commute)

lemma set_flag_loop_marks:
  assumes "start + k \<le> 8 * length f"
  shows "\<exists>f'. set_flag_loop f (int start) (int k) = Some f' \<and> length f' = length f \<and>
           marked f' = marked f \<union> {start..<start + k}"
  using assms
proof (induction k arbitrary: f start)
  case 0
  then show ?case by (simp add: set_flag_loop.simps)
next
  case (Suc k)
  let ?f = "f[start div 8 := f ! (start div 8) OR push_bit (start mod 8) 1]"
  have s: "start div 8 < length f" using Suc.prems by (intro less_mult_imp_div_less) simp
  have "\<exists>f'. set_flag_loop ?f (int (start + 1)) (int k) = Some f' \<and> length f' = length ?f \<and>
    marked f' = marked ?f \<union> {start + 1..<start + 1 + k}"
    by (rule Suc.IH) (use Suc.prems in simp)
  moreover have "insert start (marked f) \<union> {start + 1..<start + 1 + k} = marked f \<union> {start..<start + Suc k}" by auto
  ultimately show ?case unfolding set_flag_loop_step [OF s] marked_set [OF s] by simp
qed

lemma set_flag_loop_outside:
  assumes "0 < k" "8 * length f < start + k"
  shows "set_flag_loop f (int start) (int k) = None"
  using assms
proof (induction k arbitrary: f start)
  case (Suc k)
  show ?case
  proof (cases "start div 8 < length f")
    case True
    then have "start < 8 * length f" by linarith
    then have k: "0 < k" using Suc.prems by (cases k) auto
    let ?f = "f[start div 8 := f ! (start div 8) OR push_bit (start mod 8) 1]"
    have "set_flag_loop ?f (int (start + 1)) (int k) = None"
      by (rule Suc.IH [OF k]) (use Suc.prems in simp)
    then show ?thesis unfolding set_flag_loop_step [OF True] .
  qed (subst set_flag_loop.simps, simp)
qed simp

lemma low_bit_spec:
  "low_bit b j k = (if \<exists>i. j \<le> i \<and> i < j + k \<and> bit b i then Some (LEAST i. j \<le> i \<and> bit b i) else None)"
proof (induction k arbitrary: j)
  case (Suc k)
  have b: "b AND push_bit j 1 \<noteq> 0 \<longleftrightarrow> bit b j"
    using and_exp_eq_0_iff_not_bit [of b j] by (simp add: push_bit_eq_mult)
  show ?case
  proof (cases "bit b j")
    case True
    then have "(LEAST i. j \<le> i \<and> bit b i) = j" by (intro Least_equality) auto
    moreover have "\<exists>i. j \<le> i \<and> i < j + Suc k \<and> bit b i" using True by (intro exI [of _ j]) simp
    ultimately show ?thesis using True b by simp
  next
    case False
    then have e: "j \<le> i \<and> bit b i \<longleftrightarrow> j + 1 \<le> i \<and> bit b i" for i by (metis Suc_eq_plus1 le_antisym not_less_eq_eq Suc_leD)
    have "(\<exists>i. j \<le> i \<and> i < j + Suc k \<and> bit b i) \<longleftrightarrow> (\<exists>i. j + 1 \<le> i \<and> i < j + 1 + k \<and> bit b i)"
      using e by auto
    moreover have "low_bit b j (Suc k) = low_bit b (j + 1) k" using False b by simp
    ultimately show ?thesis unfolding Suc.IH [of "j + 1"] e by simp
  qed
qed simp

lemma get_flag_loop_spec:
  assumes "i + k \<le> length f"
  shows "get_flag_loop f i k =
    Some (if marked f \<inter> {8 * i..<8 * (i + k)} = {} then -2 else int (Min (marked f \<inter> {8 * i..<8 * (i + k)})))"
  using assms
proof (induction k arbitrary: i)
  case (Suc k)
  let ?M = "marked f \<inter> {8 * i..<8 * (i + Suc k)}"
  have i: "i < length f" using Suc.prems by simp
  have m: "8 * i + j \<in> marked f \<longleftrightarrow> bit (f ! i) j" if "j < 8" for j using i that by (auto simp: marked_def)
  show ?case
  proof (cases "f ! i = 0")
    case True
    have "x \<notin> marked f" if "8 * i \<le> x" "x < 8 * (i + 1)" for x
      using m [of "x - 8 * i"] that True by auto
    then have "?M = marked f \<inter> {8 * (i + 1)..<8 * (i + 1 + k)}" by force
    then show ?thesis using Suc.IH [of "i + 1"] Suc.prems True i by (simp add: mem_get_def add.assoc)
  next
    case False
    then obtain j where "bit (f ! i) j" by (metis bit_eqI bit_0_eq bot_apply bot_bool_def)
    then have ex: "\<exists>j. 0 \<le> j \<and> j < 0 + 8 \<and> bit (f ! i) j" using bit_imp_le_length by fastforce
    define l where "l = (LEAST j. 0 \<le> j \<and> bit (f ! i) j)"
    have l: "bit (f ! i) l" "l < 8" "\<And>j. bit (f ! i) j \<Longrightarrow> l \<le> j"
      using ex LeastI [of "bit (f ! i)"] Least_le [of "bit (f ! i)"] bit_imp_le_length [of "f ! i"]
      unfolding l_def by fastforce+
    have "Min ?M = 8 * i + l"
    proof (rule Min_eqI)
      show "8 * i + l \<in> ?M" using l m by auto
      fix x assume x: "x \<in> ?M"
      show "8 * i + l \<le> x"
      proof (cases "x < 8 * (i + 1)")
        case True
        then have "bit (f ! i) (x - 8 * i)" using m [of "x - 8 * i"] x by auto
        then show ?thesis using l(3) x by force
      qed (use l(2) in simp)
    qed simp
    moreover have "?M \<noteq> {}" using l m by fastforce
    moreover have "low_bit (f ! i) 0 8 = Some l" using ex unfolding low_bit_spec l_def by simp
    ultimately show ?thesis using False i by (simp add: mem_get_def)
  qed
qed simp

lemma get_flag_spec:
  assumes "n \<le> length f" "marked f \<subseteq> {..<8 * n}"
  shows "manager_get_resend_sub_flag (Some f) n = Some (if marked f = {} then -2 else int (Min (marked f)))"
proof (cases "n = 0")
  case True
  then show ?thesis using assms by (simp add: manager_get_resend_sub_flag_def)
next
  case False
  have "marked f \<inter> {8 * 0..<8 * (0 + n)} = marked f" using assms(2) by auto
  then show ?thesis using False get_flag_loop_spec [of 0 n f] assms(1)
    by (simp add: manager_get_resend_sub_flag_def)
qed

lemma clean_flag_spec:
  assumes "i \<in> marked f"
  shows "\<exists>f'. manager_clean_resend_sub_flag (Some f) i = Some f' \<and> length f' = length f \<and> marked f' = marked f - {i}"
proof -
  have i: "i div 8 < length f" using assms unfolding marked_def by (simp; linarith)
  then show ?thesis using marked_clear [OF i] by (simp add: manager_clean_resend_sub_flag_def mem_get_def)
qed

section \<open>Blocks and pages\<close>

text \<open>
  Block \<open>k\<close> of the image: 512 bytes, or the rest of the image up to a multiple of four.
\<close>

definition block_size :: "nat \<Rightarrow> nat \<Rightarrow> nat" where
  "block_size fl k = (if 512 * (k + 1) \<le> fl then 512 else align4 (fl - 512 * k))"

definition block_count :: "nat \<Rightarrow> nat" where
  "block_count fl = (fl + 511) div 512"

definition image_len :: "t_manager_update_info \<Rightarrow> nat" where
  "image_len i = nat (file_len i)"

definition block_addr :: "nat \<Rightarrow> u32" where
  "block_addr k = UC_OTA_PARTITION_START_ADDRESS + of_nat (512 * k)"

definition image_block :: "ota_env \<Rightarrow> t_manager_update_info \<Rightarrow> nat \<Rightarrow> bytes" where
  "image_block e i k = flash_read e (block_addr k) (block_size (image_len i) k)"

text \<open>The message that carries a payload, and the page posted for block \<open>k\<close>.\<close>

definition ota_page :: "u8 \<Rightarrow> nat \<Rightarrow> bytes \<Rightarrow> op_msg" where
  "ota_page c func d = (let w = header_wire (ota_header c) in
     OPERATION_OTA_RADIO (operation_page 0 SERVER_DEFAULT_ADDRESS APP_CMD_GET_SPECIFIC_DATA_SPONSE 0
       (length (w @ d)) (Some (w @ d @ replicate (header_size - length w) 0)) None func))"

definition block_page :: "ota_env \<Rightarrow> t_manager_update_info \<Rightarrow> u32 list \<Rightarrow> nat \<Rightarrow> nat \<Rightarrow> op_msg" where
  "block_page e i ids func k =
     ota_page SPECIFIC_DATA_SPONSE func
       (data_text e i ids (512 * k) (block_size (image_len i) k) @ image_block e i k)"

definition posted :: "op_msg list \<Rightarrow> op_state \<Rightarrow> op_state" where
  "posted ms s = s\<lparr>operation_queue := operation_queue s @ ms\<rparr>"

text \<open>Allocations and posting succeed, the devices are known, and the texts leave room for a block.\<close>

definition transfer_env :: "ota_env \<Rightarrow> t_manager_update_info \<Rightarrow> u32 list \<Rightarrow> bool" where
  "transfer_env e i ids \<longleftrightarrow>
     data_ok e \<and> text_readable e \<and> (\<forall>a b c. coding_ok e a b c) \<and> page_ok e \<and> ota_post e = Queued \<and>
     dev_list e i = Some ids \<and> (\<forall>off len. length (data_text e i ids off len) \<le> 496)"

definition image_ok :: "t_manager_update_info \<Rightarrow> bool" where
  "image_ok i \<longleftrightarrow> 0 \<le> file_len i \<and> file_len i < 2 ^ 31"

lemma ota_header_plain: "\<not> compress_flag (property (ota_header c))"
  unfolding ota_header_def compress_flag_def app_set_header_property_def by (simp add: bit_simps)

lemma posted_posted [simp]: "posted b (posted a s) = posted (a @ b) s"
  by (simp add: posted_def)

lemma posted_Nil [simp]: "posted [] s = s"
  by (simp add: posted_def)

lemma coding_ota:
  assumes "d \<noteq> []" "length d \<le> 1008" "\<And>b c. mo b c"
  shows "manager_ota_msg_coding mo c d =
    Some (Some (filled (header_wire (ota_header c) @ d) (header_size - length (header_wire (ota_header c)))))"
  using app_data_coding_plain [of d mo "ota_header c"] assms ota_header_plain
  by (simp add: manager_ota_msg_coding_def APP_MAX_CODING_DATA_LEN_def header_size_def)

lemma post_ota:
  assumes "page_ok e" "ota_post e = Queued"
  shows "post_ota_page e func (filled (header_wire (ota_header c) @ d) (header_size - length (header_wire (ota_header c)))) s =
    Some (posted [ota_page c func d] s)"
  using assms
  by (simp add: post_ota_page_def filled_def manager_logic_send_to_operater_def to_operation_wiota_data_def
      ota_page_def Let_def posted_def)

lemma block_size_bounds: "block_size fl k \<le> 512" "512 * k < fl \<Longrightarrow> 0 < block_size fl k"
proof -
  show "block_size fl k \<le> 512" unfolding block_size_def align4_def by auto
  show "512 * k < fl \<Longrightarrow> 0 < block_size fl k"
    using align4_ge [of "fl - 512 * k"] unfolding block_size_def by auto
qed

lemma block_less: "k < block_count fl \<longleftrightarrow> 512 * k < fl"
  unfolding block_count_def by linarith

lemma file_len_nat: "image_ok i \<Longrightarrow> nat (file_len i mod 2 ^ 32) = image_len i \<and> image_len i < 2 ^ 31"
  by (auto simp: image_ok_def image_len_def)

lemma block_offset_addr:
  assumes "512 * k \<le> 2 ^ 31 + 512"
  shows "unat (block_addr k - UC_OTA_PARTITION_START_ADDRESS) = 512 * k"
    "unat (block_addr k - UC_OTA_PARTITION_START_ADDRESS + of_nat 512) = 512 * k + 512"
proof -
  have d: "block_addr k - UC_OTA_PARTITION_START_ADDRESS = of_nat (512 * k)" by (simp add: block_addr_def)
  show "unat (block_addr k - UC_OTA_PARTITION_START_ADDRESS) = 512 * k"
    unfolding d unat_of_nat using assms by simp
  have "block_addr k - UC_OTA_PARTITION_START_ADDRESS + of_nat 512 = of_nat (512 * k + 512)" unfolding d by simp
  then show "unat (block_addr k - UC_OTA_PARTITION_START_ADDRESS + of_nat 512) = 512 * k + 512"
    unfolding unat_of_nat using assms by (simp only: unat_of_nat) simp
qed

lemma of_data_block:
  assumes "transfer_env e (up_info u) ids" "image_ok (up_info u)" "k < block_count (image_len (up_info u))"
    "ota_op_address u = block_addr k"
  shows "manager_ota_msg_of_data e u =
    Some (Some (data_text e (up_info u) ids (512 * k) (block_size (image_len (up_info u)) k) @ image_block e (up_info u) k),
          u\<lparr>ota_op_address := block_addr k + of_nat (block_size (image_len (up_info u)) k)\<rparr>)"
proof -
  let ?fl = "image_len (up_info u)"
  have fl: "nat (file_len (up_info u) mod 2 ^ 32) = ?fl" "?fl < 2 ^ 31" using file_len_nat [OF assms(2)] by auto
  have k: "512 * k < ?fl" using assms(3) by (simp add: block_less)
  then have "512 * k \<le> 2 ^ 31 + 512" using fl(2) by simp
  note off = block_offset_addr [OF this]
  have len: "block_len u = Some (block_size ?fl k)"
    using k off unfolding block_len_def block_offset_def Let_def fl(1) assms(4)
    by (simp add: MANAGER_OTA_SEND_BIN_SIZE_def block_size_def)
  have "length (data_text e (up_info u) ids (512 * k) (block_size ?fl k)) \<le> 496"
    using assms(1) by (simp add: transfer_env_def)
  then have "length (data_text e (up_info u) ids (512 * k) (block_size ?fl k)) + block_size ?fl k \<le> 1024"
    using block_size_bounds(1) [of ?fl k] by linarith
  then show ?thesis using assms(1,4) len off
    by (simp add: manager_ota_msg_of_data_def transfer_env_def image_block_def block_offset_def)
qed

lemma block_message_fits:
  assumes "transfer_env e i ids" "k < block_count (image_len i)"
  shows "data_text e i ids (512 * k) (block_size (image_len i) k) @ image_block e i k \<noteq> []"
    "length (data_text e i ids (512 * k) (block_size (image_len i) k) @ image_block e i k) \<le> 1008"
proof -
  have l: "length (image_block e i k) = block_size (image_len i) k" by (simp add: image_block_def flash_read_def)
  have "length (data_text e i ids (512 * k) (block_size (image_len i) k)) \<le> 496" using assms(1) by (simp add: transfer_env_def)
  then show "length (data_text e i ids (512 * k) (block_size (image_len i) k) @ image_block e i k) \<le> 1008"
    using l block_size_bounds(1) [of "image_len i" k] by simp
  show "data_text e i ids (512 * k) (block_size (image_len i) k) @ image_block e i k \<noteq> []"
    using l block_size_bounds(2) [of k "image_len i"] assms(2) by (auto simp: block_less)
qed

lemma send_page_block:
  assumes "transfer_env e (up_info u) ids" "image_ok (up_info u)" "k < block_count (image_len (up_info u))"
    "ota_op_address u = block_addr k"
  shows "manager_start_send_page e (u, s) =
    Some (0, u\<lparr>ota_op_address := block_addr k + of_nat (block_size (image_len (up_info u)) k)\<rparr>,
          posted [block_page e (up_info u) ids RESULT_OTA_MSG k] s)"
proof -
  have ok: "\<And>b c. coding_ok e 0 b c" "page_ok e" "ota_post e = Queued" using assms(1) by (auto simp: transfer_env_def)
  show ?thesis
    using of_data_block [OF assms] coding_ota [OF block_message_fits [OF assms(1,3)] ok(1)] post_ota [OF ok(2,3)]
    by (simp add: manager_start_send_page_def numeral_eq_Suc block_page_def)
qed

text \<open>After \<open>k\<close> blocks the address stands at the next one, and after the last one past the image.\<close>

definition after_blocks :: "nat \<Rightarrow> nat \<Rightarrow> u32" where
  "after_blocks fl k = UC_OTA_PARTITION_START_ADDRESS + of_nat (min (512 * k) (align4 fl))"

lemma sent_Suc:
  assumes "k < block_count fl"
  shows "min (512 * Suc k) (align4 fl) = 512 * k + block_size fl k"
proof (cases "512 * (k + 1) \<le> fl")
  case True
  then show ?thesis using align4_ge [of fl] by (simp add: block_size_def min_def)
next
  case False
  have "512 * k < fl" using assms by (simp add: block_less)
  then obtain r where r: "fl = 512 * k + r" by (metis less_imp_add_positive)
  then have r': "r < 512" using False by simp
  have "fl + 3 = (r + 3) + (128 * k) * 4" using r by simp
  then have "align4 fl = 512 * k + align4 r" unfolding align4_def by (simp only: div_mult_self1) simp
  moreover have "align4 r \<le> 512" using r' div_le_mono [of "r + 3" 514 4] unfolding align4_def by simp
  ultimately show ?thesis using False r by (simp add: block_size_def min_def)
qed

lemma after_blocks_addr:
  assumes "k < block_count fl"
  shows "after_blocks fl k = block_addr k" "after_blocks fl (Suc k) = block_addr k + of_nat (block_size fl k)"
proof -
  have "512 * k < fl" using assms by (simp add: block_less)
  then show "after_blocks fl k = block_addr k"
    using align4_ge [of fl] by (simp add: after_blocks_def block_addr_def min_def)
  show "after_blocks fl (Suc k) = block_addr k + of_nat (block_size fl k)"
    unfolding after_blocks_def block_addr_def sent_Suc [OF assms] by (simp only: of_nat_add add.assoc)
qed

lemma align4_blocks: "align4 fl \<le> 512 * block_count fl"
proof -
  have "fl \<le> 512 * block_count fl" unfolding block_count_def by linarith
  then have "(fl + 3) div 4 \<le> (3 + (128 * block_count fl) * 4) div 4" by (intro div_le_mono) simp
  then show ?thesis by (simp add: align4_def)
qed

lemma of_data_end:
  assumes "image_ok (up_info u)" "ota_op_address u = after_blocks (image_len (up_info u)) (block_count (image_len (up_info u)))"
  shows "manager_ota_msg_of_data e u = Some (None, u)"
proof -
  let ?fl = "image_len (up_info u)"
  have fl: "nat (file_len (up_info u) mod 2 ^ 32) = ?fl" "?fl < 2 ^ 31" using file_len_nat [OF assms(1)] by auto
  have "min (512 * block_count ?fl) (align4 ?fl) = align4 ?fl" using align4_blocks [of ?fl] by simp
  then have "block_offset u = align4 ?fl mod 2 ^ 32"
    unfolding block_offset_def assms(2) after_blocks_def by (simp add: unat_of_nat)
  also have "\<dots> = align4 ?fl" using fl(2) align4_lt [of ?fl] by simp
  finally have "?fl \<le> block_offset u" using align4_ge by simp
  then show ?thesis unfolding manager_ota_msg_of_data_def block_len_def fl(1) Let_def by simp
qed

section \<open>The whole transfer\<close>

lemma send_page_end:
  assumes "transfer_env e (up_info u) ids" "image_ok (up_info u)"
    "ota_op_address u = after_blocks (image_len (up_info u)) (block_count (image_len (up_info u)))"
    "state_text e (up_info u) 0 = Some t" "t \<noteq> []" "length t \<le> 1008"
  shows "manager_start_send_page e (u, s) =
    Some (2, u\<lparr>up_state := UPDATE_STOP, ota_op_address := UC_OTA_PARTITION_START_ADDRESS\<rparr>,
          posted [ota_page APP_CMD_GET_UPDATE_STATE_REQUEST RESULT_OTA_STATE t] s)"
proof -
  have ok: "\<And>b c. coding_ok e 9 b c" "page_ok e" "ota_post e = Queued" using assms(1) by (auto simp: transfer_env_def)
  show ?thesis
    using of_data_end [OF assms(2,3)] assms(4) coding_ota [OF assms(5,6) ok(1)] post_ota [OF ok(2,3)]
    by (simp add: manager_start_send_page_def manager_ota_send_state_def MANAGER_OTA_STOP_def)
qed

lemma transfer_run:
  assumes "transfer_env e i ids" "image_ok i" "state_text e i 0 = Some t" "t \<noteq> []" "length t \<le> 1008"
    "up_info u = i" "ota_op_address u = after_blocks (image_len i) k" "k + m = block_count (image_len i)"
  shows "run_steps manager_ota_msg_result (replicate (Suc m) e) (u, s) =
    Some (u\<lparr>up_state := UPDATE_STOP, ota_op_address := UC_OTA_PARTITION_START_ADDRESS\<rparr>,
          posted (map (block_page e i ids RESULT_OTA_MSG) [k..<k + m] @
            [ota_page APP_CMD_GET_UPDATE_STATE_REQUEST RESULT_OTA_STATE t]) s)"
  using assms(6-)
proof (induction m arbitrary: k u s)
  case 0
  then show ?case using send_page_end [of e u ids t s] assms(1-5) by (simp add: manager_ota_msg_result_def)
next
  case (Suc m)
  have k: "k < block_count (image_len i)" using Suc.prems(3) by simp
  let ?u = "u\<lparr>ota_op_address := after_blocks (image_len i) (Suc k)\<rparr>"
  have "manager_ota_msg_result e (u, s) = Some (?u, posted [block_page e i ids RESULT_OTA_MSG k] s)"
    using send_page_block [of e u ids k s] assms(1,2) k Suc.prems after_blocks_addr [OF k]
    by (simp add: manager_ota_msg_result_def)
  moreover have "run_steps manager_ota_msg_result (replicate (Suc m) e) (?u, posted [block_page e i ids RESULT_OTA_MSG k] s) =
      Some (?u\<lparr>up_state := UPDATE_STOP, ota_op_address := UC_OTA_PARTITION_START_ADDRESS\<rparr>,
        posted (map (block_page e i ids RESULT_OTA_MSG) [Suc k..<Suc k + m] @
            [ota_page APP_CMD_GET_UPDATE_STATE_REQUEST RESULT_OTA_STATE t]) (posted [block_page e i ids RESULT_OTA_MSG k] s))"
    by (rule Suc.IH) (use Suc.prems in simp_all)
  moreover have "[k..<k + Suc m] = k # [Suc k..<Suc k + m]" by (simp add: upt_conv_Cons)
  ultimately show ?case by simp
qed

lemma flash_read_append:
  assumes "unat a + m < 2 ^ 32"
  shows "flash_read e a m @ flash_read e (a + of_nat m) n = flash_read e a (m + n)"
proof -
  have a: "unat (a + of_nat m) = unat a + m" using assms by (simp add: unat_word_ariths unat_of_nat)
  have "flash_read e (a + of_nat m) n = map (\<lambda>i. flash e (unat a + i)) (map (\<lambda>i. i + m) [0..<n])"
    unfolding flash_read_def a map_map by (simp add: comp_def ac_simps)
  also have "map (\<lambda>i. i + m) [0..<n] = [m..<m + n]" by (simp only: map_add_upt add.commute)
  finally show ?thesis unfolding flash_read_def using upt_add_eq_append [of 0 m n] by (simp flip: map_append)
qed

lemma image_blocks:
  assumes "image_ok i" "k \<le> block_count (image_len i)"
  shows "concat (map (image_block e i) [0..<k]) =
    flash_read e UC_OTA_PARTITION_START_ADDRESS (min (512 * k) (align4 (image_len i)))"
  using assms(2)
proof (induction k)
  case (Suc k)
  have k: "k < block_count (image_len i)" using Suc.prems by simp
  have fl: "512 * k < image_len i" "image_len i < 2 ^ 31" using file_len_nat [OF assms(1)] k by (simp_all add: block_less)
  have n: "min (512 * k) (align4 (image_len i)) = 512 * k" using fl(1) align4_ge [of "image_len i"] by simp
  have "concat (map (image_block e i) [0..<Suc k]) =
      flash_read e UC_OTA_PARTITION_START_ADDRESS (512 * k) @
      flash_read e (UC_OTA_PARTITION_START_ADDRESS + of_nat (512 * k)) (block_size (image_len i) k)"
    using Suc.IH k n by (simp add: image_block_def [of e i k] block_addr_def [of k])
  also have "\<dots> = flash_read e UC_OTA_PARTITION_START_ADDRESS (512 * k + block_size (image_len i) k)"
    by (rule flash_read_append) (use fl in \<open>simp add: UC_OTA_PARTITION_START_ADDRESS_def\<close>)
  finally show ?case unfolding sent_Suc [OF k] .
qed (simp add: flash_read_def)

section \<open>Samples\<close>

definition sample_info :: t_manager_update_info where
  "sample_info =
     \<lparr>active_state = 1, iote_num = 0, iote_id = None, new_version = Some ''v2'', old_version = Some ''v1'',
      dev_type = Some ''iote'', update_type = 0, up_range = 0, file_name = None, file_len = 1000, md5 = None,
      network = \<lparr>ni_access = 0, ni_username = None, ni_password = None, ni_path = None, ni_address = None, ni_port = 0\<rparr>\<rparr>"

definition sample_update :: t_manager_update where
  "sample_update =
     \<lparr>up_state = UPDATE_DOWN_PAGE, ota_op_address = UC_OTA_PARTITION_START_ADDRESS, up_info = sample_info,
      sub_flag_num = 62, rem_sub_flag = Some (replicate 62 0)\<rparr>"

definition sample_ota_env :: ota_env where
  "sample_ota_env =
     \<lparr>flash = \<lambda>a. of_nat a, data_text = \<lambda>_ _ _ _. [123, 125], state_text = \<lambda>_ _. Some [123, 125], query_id = \<lambda>_. None,
      data_ok = True, text_readable = True, coding_ok = \<lambda>_ _ _. True, page_ok = True, ota_post = Queued\<rparr>"

definition sample_request :: "(rat \<times> rat) list \<Rightarrow> cjson option" where
  "sample_request ranges = Some (CObject
     [(''dev_type'', CString ''iote''), (''old_version'', CString ''v1''), (''new_version'', CString ''v2''),
      (''update_type'', CNumber 0),
      (''data_info'', CArray (map (\<lambda>(a, n). CObject [(''offset'', CNumber a), (''len'', CNumber n)]) ranges))])"

definition sample_resend :: "t_data_offset list \<Rightarrow> t_manager_iote_resend_info" where
  "sample_resend xs = \<lparr>rs_dev_type = ''iote'', rs_old_version = ''v1'', rs_new_version = ''v2'', rs_update_type = 0, rs_data_info = xs\<rparr>"

lemma sample_transfer: "transfer_env sample_ota_env sample_info []"
  by (simp add: transfer_env_def sample_ota_env_def dev_list_def sample_info_def)

text \<open>C9: An update reaches the devices complete and in order.  Once started, and with one
  call of the result function for every page sent, the AP posts the blocks of the image in
  ascending order, each once, then the message that ends the transfer, and stops; the
  blocks put together are the image in the flash, up to a multiple of four bytes.\<close>

theorem ota_transfer_complete:
  assumes "transfer_env e (up_info u) ids" "image_ok (up_info u)" "active_state (up_info u) \<noteq> 0"
    "state_text e (up_info u) 0 = Some t" "t \<noteq> []" "length t \<le> 1008"
  defines "n \<equiv> block_count (image_len (up_info u))"
  shows "Option.bind (manager_start_iote_update e (u, s)) (\<lambda>(_, us). run_steps manager_ota_msg_result (replicate n e) us) =
      Some (u\<lparr>up_state := UPDATE_STOP, ota_op_address := UC_OTA_PARTITION_START_ADDRESS\<rparr>,
        posted (map (block_page e (up_info u) ids RESULT_OTA_MSG) [0..<n] @
          [ota_page APP_CMD_GET_UPDATE_STATE_REQUEST RESULT_OTA_STATE t]) s) \<and>
    concat (map (image_block e (up_info u)) [0..<n]) =
      flash_read e UC_OTA_PARTITION_START_ADDRESS (align4 (image_len (up_info u)))"
proof -
  let ?u = "u\<lparr>ota_op_address := UC_OTA_PARTITION_START_ADDRESS, up_state := START_TRANSFER_DATA\<rparr>"
  have "run_steps manager_ota_msg_result (replicate (Suc n) e) (?u, s) =
      Some (?u\<lparr>up_state := UPDATE_STOP, ota_op_address := UC_OTA_PARTITION_START_ADDRESS\<rparr>,
        posted (map (block_page e (up_info u) ids RESULT_OTA_MSG) [0..<0 + n] @
          [ota_page APP_CMD_GET_UPDATE_STATE_REQUEST RESULT_OTA_STATE t]) s)"
    by (rule transfer_run [OF assms(1,2,4-6)]) (simp_all add: after_blocks_def n_def)
  moreover have "Option.bind (manager_start_iote_update e (u, s)) (\<lambda>(_, us). run_steps manager_ota_msg_result (replicate n e) us) =
      run_steps manager_ota_msg_result (replicate (Suc n) e) (?u, s)"
    using assms(3)
    by (cases "manager_start_send_page e (?u, s)")
      (auto simp: manager_start_iote_update_def manager_ota_msg_result_def)
  ultimately show ?thesis
    using image_blocks [OF assms(2), of n e] align4_blocks [of "image_len (up_info u)"] by (simp add: n_def)
qed

theorem ota_transfer_complete_witness:
  "Option.bind (manager_start_iote_update sample_ota_env (sample_update, idle_operation))
      (\<lambda>(_, us). run_steps manager_ota_msg_result (replicate 2 sample_ota_env) us) =
    Some (sample_update\<lparr>up_state := UPDATE_STOP\<rparr>,
      posted [block_page sample_ota_env sample_info [] RESULT_OTA_MSG 0, block_page sample_ota_env sample_info [] RESULT_OTA_MSG 1,
        ota_page APP_CMD_GET_UPDATE_STATE_REQUEST RESULT_OTA_STATE [123, 125]] idle_operation)"
proof -
  have i: "up_info sample_update = sample_info" by (simp add: sample_update_def)
  have n: "block_count (image_len sample_info) = 2" by (simp add: sample_info_def image_len_def block_count_def)
  have "image_ok sample_info" "active_state sample_info \<noteq> 0" by (simp_all add: image_ok_def sample_info_def)
  moreover have "state_text sample_ota_env sample_info 0 = Some [123, 125]" by (simp add: sample_ota_env_def)
  ultimately show ?thesis
    using ota_transfer_complete [of sample_ota_env sample_update "[]" "[123, 125]" idle_operation] sample_transfer
    unfolding i n by (simp add: sample_update_def numeral_2_eq_2)
qed

section \<open>Repeating blocks\<close>

text \<open>The bitmap is in place and marks blocks of the image only.\<close>

definition bitmap_ok :: "t_manager_update \<Rightarrow> nat set \<Rightarrow> bool" where
  "bitmap_ok u B \<longleftrightarrow>
     (\<exists>f. rem_sub_flag u = Some f \<and> marked f = B \<and> sub_flag_num u \<le> length f) \<and>
     B \<subseteq> {..<block_count (image_len (up_info u))} \<and> block_count (image_len (up_info u)) \<le> 8 * sub_flag_num u"

lemma bitmap_get:
  assumes "bitmap_ok u B"
  shows "manager_get_resend_sub_flag (rem_sub_flag u) (sub_flag_num u) = Some (if B = {} then -2 else int (Min B))"
proof -
  obtain f where f: "rem_sub_flag u = Some f" "marked f = B" "sub_flag_num u \<le> length f"
    using assms by (auto simp: bitmap_ok_def)
  have "marked f \<subseteq> {..<8 * sub_flag_num u}" using assms f(2) by (auto simp: bitmap_ok_def)
  then show ?thesis using get_flag_spec [OF f(3)] f(1,2) by simp
qed

lemma resend_block:
  assumes "transfer_env e (up_info u) ids" "image_ok (up_info u)" "bitmap_ok u B" "B \<noteq> {}"
  shows "\<exists>u'. manager_resend_data e (u, s) = Some (u', posted [block_page e (up_info u) ids RESULT_OTA_RESEND (Min B)] s) \<and>
    up_info u' = up_info u \<and> bitmap_ok u' (B - {Min B})"
proof -
  obtain f where f: "rem_sub_flag u = Some f" "marked f = B" "sub_flag_num u \<le> length f"
    using assms(3) by (auto simp: bitmap_ok_def)
  have fin: "finite B" using f(2) by auto
  let ?k = "Min B"
  have k: "?k \<in> marked f" using f(2) fin assms(4) by simp
  then have kn: "?k < block_count (image_len (up_info u))" using assms(3) f(2) by (auto simp: bitmap_ok_def)
  obtain f' where f': "manager_clean_resend_sub_flag (Some f) ?k = Some f'" "length f' = length f" "marked f' = B - {?k}"
    using clean_flag_spec [OF k] f(2) by auto
  have ok: "\<And>b c. coding_ok e 0 b c" "page_ok e" "ota_post e = Queued" using assms(1) by (auto simp: transfer_env_def)
  let ?u1 = "u\<lparr>ota_op_address := block_addr ?k, rem_sub_flag := Some f'\<rparr>"
  let ?u2 = "?u1\<lparr>ota_op_address := block_addr ?k + of_nat (block_size (image_len (up_info u)) ?k)\<rparr>"
  have d: "manager_ota_msg_of_data e ?u1 =
      Some (Some (data_text e (up_info u) ids (512 * ?k) (block_size (image_len (up_info u)) ?k) @ image_block e (up_info u) ?k), ?u2)"
    using of_data_block [of e ?u1 ids ?k] assms(1,2) kn by simp
  have a: "UC_OTA_PARTITION_START_ADDRESS + of_int (int ?k * int MANAGER_OTA_SEND_BIN_SIZE) = block_addr ?k"
    by (simp add: block_addr_def MANAGER_OTA_SEND_BIN_SIZE_def mult.commute)
  have "manager_resend_data e (u, s) = Some (?u2, posted [block_page e (up_info u) ids RESULT_OTA_RESEND ?k] s)"
    using bitmap_get [OF assms(3)] assms(4) f(1) f'(1) a d coding_ota [OF block_message_fits [OF assms(1) kn] ok(1)] post_ota [OF ok(2,3)]
    by (simp add: manager_resend_data_def block_page_def del: of_int_mult)
  moreover have "bitmap_ok ?u2 (B - {?k})" using assms(3) f(3) f'(2,3) by (auto simp: bitmap_ok_def)
  ultimately show ?thesis by (intro exI [of _ ?u2]) simp
qed

lemma resend_run:
  assumes "transfer_env e i ids" "image_ok i" "up_info u = i" "bitmap_ok u B" "card B \<le> m"
  shows "\<exists>u'. run_steps manager_ota_resend_msg_result (replicate m e) (u, s) =
      Some (u', posted (map (block_page e i ids RESULT_OTA_RESEND) (sorted_list_of_set B)) s) \<and>
    up_info u' = i \<and> bitmap_ok u' {}"
  using assms(3-)
proof (induction m arbitrary: u B s)
  case 0
  then have "finite B" by (auto simp: bitmap_ok_def)
  then show ?case using 0 by auto
next
  case (Suc m)
  have fin: "finite B" using Suc.prems(2) by (auto simp: bitmap_ok_def)
  show ?case
  proof (cases "B = {}")
    case True
    have "manager_resend_data e (u, s) = Some (u, s)" using bitmap_get [OF Suc.prems(2)] True by (simp add: manager_resend_data_def)
    then show ?thesis using Suc.IH [OF Suc.prems(1,2), of s] True by (simp add: manager_ota_resend_msg_result_def)
  next
    case False
    then obtain u' where u': "manager_resend_data e (u, s) = Some (u', posted [block_page e i ids RESULT_OTA_RESEND (Min B)] s)"
      "up_info u' = i" "bitmap_ok u' (B - {Min B})"
      using resend_block [of e u ids B s] assms(1,2) Suc.prems(1,2) by auto
    have "card (B - {Min B}) \<le> m" using Suc.prems(3) fin False by simp
    moreover have "sorted_list_of_set B = Min B # sorted_list_of_set (B - {Min B})"
      using fin False by (simp add: sorted_list_of_set_nonempty)
    ultimately show ?thesis
      using Suc.IH [OF u'(2,3), of "posted [block_page e i ids RESULT_OTA_RESEND (Min B)] s"] u'(1) by (simp add: manager_ota_resend_msg_result_def)
  qed
qed

text \<open>The blocks that one entry of a request, and a whole request, ask for.\<close>

definition asked :: "t_data_offset \<Rightarrow> nat set" where
  "asked x = {nat (do_offset x) div 512..<nat (do_offset x) div 512 + nat (do_len x) div 512}"

definition in_range :: "nat \<Rightarrow> t_data_offset \<Rightarrow> bool" where
  "in_range n x \<longleftrightarrow> 0 \<le> do_offset x \<and> 0 \<le> do_len x \<and> nat (do_offset x) div 512 + nat (do_len x) div 512 \<le> n"

lemma in_range_mono: "in_range n x \<Longrightarrow> n \<le> m \<Longrightarrow> in_range m x"
  by (simp add: in_range_def)

lemma in_range_asked: "in_range n x \<Longrightarrow> asked x \<subseteq> {..<n}"
  by (auto simp: asked_def in_range_def)

lemma c_div_nat: "0 \<le> a \<Longrightarrow> c_div a (int (Suc n)) = int (nat a div Suc n)"
  by (cases "a = 0") (auto simp: c_div_def nat_div_distrib zdiv_int sgn_if)

lemma set_flag_entry:
  assumes "in_range (8 * length f) x"
  shows "\<exists>f'. manager_set_resend_sub_flag f (do_offset x) (do_len x) MANAGER_OTA_SEND_BIN_SIZE = Some f' \<and>
    length f' = length f \<and> marked f' = marked f \<union> asked x"
proof -
  have "c_div (do_offset x) 512 = int (nat (do_offset x) div 512)" "c_div (do_len x) 512 = int (nat (do_len x) div 512)"
    using c_div_nat [of _ 511] assms by (simp_all add: in_range_def)
  then show ?thesis
    using set_flag_loop_marks [of "nat (do_offset x) div 512" "nat (do_len x) div 512" f] assms
    by (simp add: manager_set_resend_sub_flag_def MANAGER_OTA_SEND_BIN_SIZE_def asked_def in_range_def)
qed

lemma set_flags_marks:
  assumes "\<forall>x \<in> set xs. in_range (8 * length f) x"
  shows "\<exists>f'. set_flags (Some f) xs = Some (Some f') \<and> length f' = length f \<and> marked f' = marked f \<union> (\<Union>x \<in> set xs. asked x)"
  using assms
proof (induction xs arbitrary: f)
  case (Cons x xs)
  have x: "in_range (8 * length f) x" using Cons.prems by simp
  have "\<exists>f'. set_flags (Some f) (x # xs) = set_flags (Some f') xs \<and> length f' = length f \<and> marked f' = marked f \<union> asked x"
  proof (cases "c_div (do_len x) (int MANAGER_OTA_SEND_BIN_SIZE) = 0")
    case True
    then have "asked x = {}"
      using c_div_nat [of "do_len x" 511] x by (simp add: MANAGER_OTA_SEND_BIN_SIZE_def in_range_def asked_def)
    then show ?thesis using True by (intro exI [of _ f]) simp
  next
    case False
    then show ?thesis using set_flag_entry [OF x] by auto
  qed
  then obtain f1 where f1: "set_flags (Some f) (x # xs) = set_flags (Some f1) xs" "length f1 = length f" "marked f1 = marked f \<union> asked x"
    by blast
  then show ?case using Cons.IH [of f1] Cons.prems by (auto simp: Un_assoc)
qed simp

lemma init_bitmap:
  assumes "manager_init_resend_sub_flag True (image_len (up_info u)) MANAGER_OTA_SEND_BIN_SIZE = (f, n, r)"
  shows "bitmap_ok (u\<lparr>rem_sub_flag := f, sub_flag_num := n\<rparr>) {} \<and> r = 0"
proof -
  let ?fl = "image_len (up_info u)"
  let ?c = "?fl div 512 + ?fl mod 512"
  have f: "f = Some (replicate (?c div 8 + 1) 0)" "n = ?c div 8 + (if ?c mod 8 > 0 then 1 else 0)" "r = 0"
    using assms by (auto simp: manager_init_resend_sub_flag_def MANAGER_OTA_SEND_BIN_SIZE_def Let_def split: if_splits)
  have "i div 8 < ?c div 8 + 1 \<Longrightarrow> replicate (?c div 8 + 1) (0 :: u8) ! (i div 8) = 0" for i by (rule nth_replicate)
  then have "marked (replicate (?c div 8 + 1) 0) = {}" by (auto simp: in_marked simp del: replicate.simps)
  moreover have "\<not> 512 * ?c < ?fl" using mult_div_mod_eq [of 512 ?fl] unfolding distrib_left by linarith
  then have "block_count ?fl \<le> ?c" unfolding block_less [symmetric] by simp
  moreover have "?c \<le> 8 * n" unfolding f(2) using mult_div_mod_eq [of 8 ?c] mod_less_divisor [of 8 ?c] by auto
  ultimately show ?thesis using f by (auto simp: bitmap_ok_def)
qed

lemma sample_bitmap: "bitmap_ok sample_update {}"
proof -
  have "\<And>i. i < 62 \<Longrightarrow> replicate 62 (0 :: u8) ! i = 0" by (rule nth_replicate)
  then have "marked (replicate 62 0) = {}" by (auto simp: in_marked)
  then show ?thesis
    by (simp add: bitmap_ok_def sample_update_def sample_info_def block_count_def image_len_def)
qed



text \<open>A device can make the AP write outside the bitmap: the offset of a request is not
  compared with the size of the image.\<close>

theorem resend_request_overruns:
  assumes "bitmap_ok u B" "rem_sub_flag u = Some f"
    "manager_parsing_iote_resend_ota_msg mo json = Some (Inr r)"
    "manager_check_iote_resend_quest r (up_info u) = Some 0"
    "rs_data_info r = x # xs" "0 \<le> do_offset x" "512 \<le> do_len x"
    "8 * length f < nat (do_offset x) div 512 + nat (do_len x) div 512"
  shows "manager_ota_resend_data e mo json (u, s) = None"
proof -
  have d: "c_div (do_offset x) 512 = int (nat (do_offset x) div 512)" "c_div (do_len x) 512 = int (nat (do_len x) div 512)"
    using c_div_nat [of _ 511] assms(6,7) by simp_all
  have p: "0 < nat (do_len x) div 512" using assms(7) by (simp add: div_greater_zero_iff)
  then have "set_flags (Some f) (x # xs) = None"
    using set_flag_loop_outside [OF p assms(8)] d
    by (simp add: manager_set_resend_sub_flag_def MANAGER_OTA_SEND_BIN_SIZE_def)
  then show ?thesis using assms(2-5) bitmap_get [OF assms(1)] by (simp add: manager_ota_resend_data_def)
qed

theorem resend_request_overruns_witness:
  "manager_ota_resend_data sample_ota_env (\<lambda>_. True) (sample_request [(253952, 512)]) (sample_update, idle_operation) = None"
proof -
  let ?r = "sample_resend [\<lparr>do_offset = 253952, do_len = 512\<rparr>]"
  have p: "manager_parsing_iote_resend_ota_msg (\<lambda>_. True) (sample_request [(253952, 512)]) = Some (Inr ?r)" by code_simp
  have c: "manager_check_iote_resend_quest ?r (up_info sample_update) = Some 0" by code_simp
  show ?thesis
    by (rule resend_request_overruns [OF sample_bitmap _ p c, of "replicate 62 0" "\<lparr>do_offset = 253952, do_len = 512\<rparr>" "[]"])
      (simp_all add: sample_resend_def sample_update_def)
qed

text \<open>A request for the last block of an image whose length is no multiple of 512 does nothing.\<close>

lemma resend_last_block_lost:
  assumes "bitmap_ok u {}" "manager_parsing_iote_resend_ota_msg mo json = Some (Inr r)"
    "manager_check_iote_resend_quest r (up_info u) = Some 0"
    "rs_data_info r = [x]" "0 \<le> do_len x" "do_len x < 512"
  shows "manager_ota_resend_data e mo json (u, s) = Some (0, u, s)"
proof -
  have "c_div (do_len x) 512 = 0" using c_div_nat [of "do_len x" 511] assms(5,6) by simp
  then show ?thesis using assms(2-4) bitmap_get [OF assms(1)]
    by (simp add: manager_ota_resend_data_def manager_resend_data_def MANAGER_OTA_SEND_BIN_SIZE_def)
qed

end
