(* ===== verification/Download.thy ===== *)
theory Download
  imports Update
begin

text \<open>
  The HTTP downloader, app/wiota\_manager/manager\_downloader/http\_downloader.c, with the loop
  of packages/webclient that fetches a file piece by piece: the image of an update is
  fetched, written to the flash in words of reversed byte order, and accepted if its MD5
  digest is the expected one.  The flash driver, the digest and what the server replies
  are parameters.
\<close>

section \<open>State\<close>

record t_download_file_info =
  df_file_size :: int
  df_recv_len :: int
  df_flash :: "nat \<Rightarrow> u8"

text \<open>
  What the server makes of one request of the loop: the request cannot be sent, it is
  redirected (and the new address can be stored or not), the connection is lost (and can be
  established again or not), or bytes are received, none if receiving fails.
\<close>

datatype shard_reply =
    Header_failed nat
  | Redirected bool
  | Lost bool
  | Body bytes

record attempt =
  at_session :: bool
  at_head :: "int \<times> int"
  at_replies :: "shard_reply list"

text \<open>
  The flash driver changes the contents of the flash; \<open>dl_md5\<close> is the digest of the blocks
  that the context is updated with.
\<close>

record download_env =
  dl_erase :: "u32 \<Rightarrow> (nat \<Rightarrow> u8) \<Rightarrow> nat \<Rightarrow> u8"
  dl_write :: "bytes \<Rightarrow> u32 \<Rightarrow> nat \<Rightarrow> (nat \<Rightarrow> u8) \<Rightarrow> nat \<Rightarrow> u8"
  dl_md5 :: "bytes list \<Rightarrow> bytes"
  dl_buffer :: bool
  dl_message :: bool
  dl_post :: post_env

definition HTTP_DOWNLOADER_RETRY :: nat where "HTTP_DOWNLOADER_RETRY = 3"
definition HTTP_DOWNLOADER_BLOCK_SIZE :: nat where "HTTP_DOWNLOADER_BLOCK_SIZE = 4096"

section \<open>Fetching\<close>

function byte_swap :: "bytes \<Rightarrow> nat \<Rightarrow> nat \<Rightarrow> bytes option" where
  "byte_swap buf n i =
     (if i < n then do {
        a \<leftarrow> mem_get buf i;
        d \<leftarrow> mem_get buf (i + 3);
        b \<leftarrow> mem_get buf (i + 1);
        c \<leftarrow> mem_get buf (i + 2);
        byte_swap (buf[i := d, i + 3 := a, i + 1 := c, i + 2 := b]) n (i + 4)
      }
      else Some buf)"
  by pat_completeness auto
termination
  by (relation "measure (\<lambda>(buf, n, i). n - i)") auto

declare byte_swap.simps [simp del]

text \<open>
  A piece of the file, in a block with one byte more than it has; the progress is computed
  with a division by the size of the file.
\<close>

definition shard_download_handle :: "download_env \<Rightarrow> bytes \<Rightarrow> t_download_file_info \<Rightarrow> t_download_file_info option" where
  "shard_download_handle e b s = do {
     let a = UC_OTA_PARTITION_START_ADDRESS + of_int (df_recv_len s);
     let f1 = dl_erase e a (df_flash s);
     buf \<leftarrow> byte_swap (b @ [0]) (length b) 0;
     let f2 = dl_write e buf a (length b mod 2 ^ 16) f1;
     let r = df_recv_len s + int (length b);
     c_assert (df_file_size s \<noteq> 0 \<and> r * 100 < 2 ^ 31);
     Some (s\<lparr>df_recv_len := r, df_flash := f2\<rparr>)
   }"

text \<open>
  The loop of the web client over the pieces from \<open>start\<close> to \<open>tot\<close>; its result is missing
  while it waits for a reply.
\<close>

fun webclient_shard_position_function ::
  "download_env \<Rightarrow> int \<Rightarrow> int \<Rightarrow> shard_reply list \<Rightarrow> int \<Rightarrow> int \<Rightarrow> t_download_file_info \<Rightarrow> (int option \<times> t_download_file_info) option" where
  "webclient_shard_position_function e start tot [] sp ep s = (
     if tot = ep + 1 then Some (Some 0, s)
     else do { c_assert (sp \<le> tot); Some (None, s) })"
| "webclient_shard_position_function e start tot (r # rs) sp ep s = (
     if tot = ep + 1 then Some (Some 0, s)
     else do {
       c_assert (sp \<le> tot \<and> sp + int HTTP_DOWNLOADER_BLOCK_SIZE \<le> 2 ^ 31);
       let ep1 = (let x = sp + int HTTP_DOWNLOADER_BLOCK_SIZE - 1 in if x \<ge> tot then tot - 1 else x);
       case r of
         Header_failed n \<Rightarrow> Some (Some (- int n - 1), s)
       | Redirected ok \<Rightarrow> if ok then webclient_shard_position_function e start tot rs start start s else Some (Some (-3), s)
       | Lost ok \<Rightarrow> if ok then webclient_shard_position_function e start tot rs sp sp s else Some (Some (-1), s)
       | Body b \<Rightarrow>
           if b \<noteq> [] then do {
             s' \<leftarrow> shard_download_handle e b s;
             webclient_shard_position_function e start tot rs (sp + int (length b)) ep1 s'
           }
           else webclient_shard_position_function e start tot rs sp ep1 s
     })"

definition webclient_downloader :: "download_env \<Rightarrow> attempt \<Rightarrow> t_download_file_info \<Rightarrow> (int option \<times> t_download_file_info) option" where
  "webclient_downloader e a s =
     (if \<not> at_session a then Some (Some (-5), s)
      else if fst (at_head a) < 0 then Some (Some (-1), s)
      else webclient_shard_position_function e 0 (snd (at_head a)) (at_replies a) 0 0
        (s\<lparr>df_file_size := snd (at_head a), df_recv_len := 0\<rparr>))"

section \<open>Checking\<close>

definition read_flash :: "(nat \<Rightarrow> u8) \<Rightarrow> u32 \<Rightarrow> nat \<Rightarrow> bytes" where
  "read_flash f a n = map (\<lambda>i. f (unat a + i)) [0..<n]"

text \<open>The blocks that the digest is computed over.\<close>

function md5_blocks :: "(nat \<Rightarrow> u8) \<Rightarrow> nat \<Rightarrow> nat \<Rightarrow> bytes list option" where
  "md5_blocks f fsize i =
     (if i + HTTP_DOWNLOADER_BLOCK_SIZE < fsize then do {
        b \<leftarrow> byte_swap (read_flash f (UC_OTA_PARTITION_START_ADDRESS + of_nat i) HTTP_DOWNLOADER_BLOCK_SIZE) HTTP_DOWNLOADER_BLOCK_SIZE 0;
        bs \<leftarrow> md5_blocks f fsize (i + HTTP_DOWNLOADER_BLOCK_SIZE);
        Some (b # bs)
      }
      else if i < fsize then do {
        b \<leftarrow> byte_swap (read_flash f (UC_OTA_PARTITION_START_ADDRESS + of_nat i) (align4 (fsize - i))) (align4 (fsize - i)) 0;
        Some [take (fsize - i) b]
      }
      else Some [])"
  by pat_completeness auto
termination
  by (relation "measure (\<lambda>(f, fsize, i). fsize - i)") (auto simp: HTTP_DOWNLOADER_BLOCK_SIZE_def)

declare md5_blocks.simps [simp del]

definition hex_digit :: "nat \<Rightarrow> u8" where
  "hex_digit n = (if n < 10 then of_nat (48 + n) else of_nat (87 + n))"

definition hex_text :: "bytes \<Rightarrow> bytes" where
  "hex_text d = concat (map (\<lambda>b. [hex_digit (unat b div 16), hex_digit (unat b mod 16)]) d)"

definition md5_verification :: "download_env \<Rightarrow> bytes option \<Rightarrow> t_download_file_info \<Rightarrow> int option" where
  "md5_verification e want s =
     (if df_recv_len s < df_file_size s then Some 1
      else do {
        c_assert (dl_buffer e);
        bs \<leftarrow> md5_blocks (df_flash s) (nat (df_file_size s)) 0;
        expected \<leftarrow> want;
        t \<leftarrow> mem_read expected 0 32;
        Some (if t \<noteq> take 32 (hex_text (dl_md5 e bs)) then 2 else 0)
      })"

section \<open>The task\<close>

fun download_attempts ::
  "download_env \<Rightarrow> bytes option \<Rightarrow> attempt list \<Rightarrow> t_download_file_info \<Rightarrow> (int option \<times> t_download_file_info) option" where
  "download_attempts e want [] s = Some (Some 1, s)"
| "download_attempts e want (a # as) s = do {
     (r, s') \<leftarrow> webclient_downloader e a s;
     case r of
       None \<Rightarrow> Some (None, s')
     | Some rc \<Rightarrow>
         if rc = 0 then do {
           v \<leftarrow> md5_verification e want s';
           if v = 0 then Some (Some 0, s') else download_attempts e want as s'
         }
         else download_attempts e want as s'
   }"

definition http_ota_download_task ::
  "download_env \<Rightarrow> bytes option \<Rightarrow> (nat \<Rightarrow> attempt) \<Rightarrow> t_download_file_info \<Rightarrow> (int option \<times> t_download_file_info) option" where
  "http_ota_download_task e want tries = download_attempts e want (map tries [0..<HTTP_DOWNLOADER_RETRY])"

text \<open>One request in the queue of the downloader; its result goes to the logic task.\<close>

definition manager_downloader_task ::
  "download_env \<Rightarrow> bytes option \<Rightarrow> (nat \<Rightarrow> attempt) \<Rightarrow> t_download_file_info \<times> op_state \<Rightarrow> (t_download_file_info \<times> op_state) option" where
  "manager_downloader_task e want tries = (\<lambda>(s, t). do {
     c_assert (dl_message e);
     (r, s') \<leftarrow> http_ota_download_task e want tries s;
     case r of
       None \<Rightarrow> Some (s', t)
     | Some rc \<Rightarrow> do {
         t' \<leftarrow> to_queue_logic_data (dl_post e) (LOGIC_FROM_HTTP_MESSAGE \<lparr>down_file_size = df_file_size s', http_state = rc\<rparr>) t;
         Some (s', t')
       }
   })"

section \<open>Words of reversed byte order\<close>

fun swapped :: "bytes \<Rightarrow> bytes" where
  "swapped (a # b # c # d # xs) = d # c # b # a # swapped xs"
| "swapped xs = xs"

lemma swapped_length [simp]: "length (swapped d) = length d"
  by (induction d rule: swapped.induct) simp_all

lemma words_induct [consumes 1, case_names Nil Word]:
  assumes "length (d :: bytes) mod 4 = 0" "P []" "\<And>a b c e xs. length xs mod 4 = 0 \<Longrightarrow> P xs \<Longrightarrow> P (a # b # c # e # xs)"
  shows "P d"
  using assms(1)
proof (induction d rule: swapped.induct)
  case (1 a b c d xs)
  have "length (a # b # c # d # xs) = length xs + 4" by simp
  then have "length xs mod 4 = 0" using "1.prems" by presburger
  then show ?case by (intro assms(3) "1.IH")
qed (use assms(2) in auto)

lemma swapped_swapped: "length d mod 4 = 0 \<Longrightarrow> swapped (swapped d) = d"
  by (induction d rule: words_induct) simp_all

lemma swapped_append: "length d mod 4 = 0 \<Longrightarrow> swapped (d @ xs) = swapped d @ swapped xs"
  by (induction d rule: words_induct) simp_all

lemma swapped_take: "n mod 4 = 0 \<Longrightarrow> n \<le> length d \<Longrightarrow> take n (swapped d) = swapped (take n d)"
  using swapped_append [of "take n d" "drop n d"] by simp

lemma swapped_drop: "n mod 4 = 0 \<Longrightarrow> n \<le> length d \<Longrightarrow> drop n (swapped d) = swapped (drop n d)"
  using swapped_append [of "take n d" "drop n d"] by simp

lemma byte_swap_words:
  assumes "length d mod 4 = 0" "length p + length d \<le> n"
  shows "byte_swap (p @ d @ r) n (length p) = byte_swap (p @ swapped d @ r) n (length p + length d)"
  using assms
proof (induction d arbitrary: p rule: words_induct)
  case (Word a b c e xs)
  have "byte_swap (p @ (a # b # c # e # xs) @ r) n (length p) =
      byte_swap ((p @ [e, c, b, a]) @ xs @ r) n (length (p @ [e, c, b, a]))"
    using Word.prems by (subst byte_swap.simps) (simp add: mem_get_def nth_append list_update_append numeral_eq_Suc)
  then show ?case using Word.IH [of "p @ [e, c, b, a]"] Word.prems by simp
qed simp

lemma byte_swap_done [simp]: "byte_swap d n n = Some d"
  by (simp add: byte_swap.simps)

lemma byte_swap_whole: "length d mod 4 = 0 \<Longrightarrow> byte_swap d (length d) 0 = Some (swapped d)"
  "length d mod 4 = 0 \<Longrightarrow> byte_swap (d @ [0]) (length d) 0 = Some (swapped d @ [0])"
  using byte_swap_words [of d "[]" "length d" "[]"] byte_swap_words [of d "[]" "length d" "[0]"] by simp_all

text \<open>A piece with one or two bytes more than whole words makes the exchange leave its block.\<close>

lemma partial_word_faults:
  assumes "length b mod 4 \<in> {1, 2}"
  shows "shard_download_handle e b s = None"
proof -
  define k where "k = length b - length b mod 4"
  define d r where "d = take k b" and "r = drop k b"
  have "k mod 4 = 0" "k + length b mod 4 = length b" unfolding k_def by (simp_all add: minus_mod_eq_mult_div)
  then have b: "b = d @ r" "length d mod 4 = 0" "length r \<in> {1, 2}" using assms by (auto simp: d_def r_def)
  have "byte_swap (b @ [0]) (length b) 0 = byte_swap (swapped d @ r @ [0]) (length b) (length d)"
    using byte_swap_words [of d "[]" "length b" "r @ [0]"] b by simp
  also have "\<dots> = None"
    using b by (subst byte_swap.simps) (auto simp: mem_get_def)
  finally show ?thesis by (simp add: shard_download_handle_def Let_def)
qed

section \<open>The image in the flash\<close>

text \<open>
  What the flash driver documents: erasing sets the 4096 bytes of a sector, writing sets erased
  bytes, in units of four; both leave the rest alone.
\<close>

definition flash_laws :: "download_env \<Rightarrow> bool" where
  "flash_laws e \<longleftrightarrow>
     (\<forall>a f x. unat a mod 4096 = 0 \<longrightarrow> dl_erase e a f x = (if unat a \<le> x \<and> x < unat a + 4096 then 0xFF else f x)) \<and>
     (\<forall>d a n f x. unat a mod 4 = 0 \<longrightarrow> n mod 4 = 0 \<longrightarrow> n \<le> length d \<longrightarrow> (\<forall>y. unat a \<le> y \<and> y < unat a + n \<longrightarrow> f y = 0xFF) \<longrightarrow>
       dl_write e d a n f x = (if unat a \<le> x \<and> x < unat a + n then d ! (x - unat a) else f x))"

lemma flash_erased:
  "flash_laws e \<Longrightarrow> unat a mod 4096 = 0 \<Longrightarrow> dl_erase e a f x = (if unat a \<le> x \<and> x < unat a + 4096 then 0xFF else f x)"
  by (simp add: flash_laws_def)

lemma flash_written:
  "flash_laws e \<Longrightarrow> unat a mod 4 = 0 \<Longrightarrow> n mod 4 = 0 \<Longrightarrow> n \<le> length d \<Longrightarrow> \<forall>y. unat a \<le> y \<and> y < unat a + n \<longrightarrow> f y = 0xFF \<Longrightarrow>
    dl_write e d a n f x = (if unat a \<le> x \<and> x < unat a + n then d ! (x - unat a) else f x)"
  by (simp add: flash_laws_def)

abbreviation ota_start :: nat where
  "ota_start \<equiv> unat UC_OTA_PARTITION_START_ADDRESS"

text \<open>The flash holds \<open>d\<close> from offset \<open>i\<close> of the partition on.\<close>

definition holds_at :: "(nat \<Rightarrow> u8) \<Rightarrow> nat \<Rightarrow> bytes \<Rightarrow> bool" where
  "holds_at f i d \<longleftrightarrow> (\<forall>x < length d. f (ota_start + i + x) = d ! x)"

lemma ota_start_value: "ota_start = 254 * 4096"
  by (simp add: UC_OTA_PARTITION_START_ADDRESS_def)

lemma ota_address: "i < 2 ^ 31 \<Longrightarrow> unat (UC_OTA_PARTITION_START_ADDRESS + of_nat i) = ota_start + i"
  by (simp add: UC_OTA_PARTITION_START_ADDRESS_def unat_word_ariths unat_of_nat)

lemma holds_at_append: "holds_at f i (a @ b) \<longleftrightarrow> holds_at f i a \<and> holds_at f (i + length a) b"
proof -
  have "(\<forall>x < m + n. P x) \<longleftrightarrow> (\<forall>x < m. P x) \<and> (\<forall>x < n. P (m + x))" for P and m n :: nat
  proof safe
    fix x assume p: "\<forall>x < m. P x" "\<forall>x < n. P (m + x)" "x < m + n"
    then show "P x" by (cases "x < m") (auto simp: not_less elim: less_eqE [of m x])
  qed simp_all
  from this [of "length a" "length b" "\<lambda>x. f (ota_start + i + x) = (a @ b) ! x"] show ?thesis by (simp add: holds_at_def nth_append add.assoc)
qed

lemma holds_at_read: "i < 2 ^ 31 \<Longrightarrow> holds_at f i d \<Longrightarrow> read_flash f (UC_OTA_PARTITION_START_ADDRESS + of_nat i) (length d) = d"
  by (rule nth_equalityI) (simp_all add: holds_at_def read_flash_def ota_address)

lemma shard_stored:
  assumes "flash_laws e" "length b mod 4 = 0" "length b \<le> 4096" "i mod 4096 = 0" "i + length b \<le> 21474836" "df_file_size s \<noteq> 0" "df_recv_len s = int i"
  shows "\<exists>f. shard_download_handle e b s = Some (s\<lparr>df_recv_len := int (i + length b), df_flash := f\<rparr>) \<and>
    holds_at f i (swapped b) \<and> (\<forall>x < ota_start + i. f x = df_flash s x)"
proof -
  let ?a = "UC_OTA_PARTITION_START_ADDRESS + of_nat i"
  have a: "unat ?a = ota_start + i" using assms(5) by (intro ota_address) simp
  then have m: "unat ?a mod 4096 = 0" using assms(4) unfolding ota_start_value by (simp only: mod_mult_self3)
  then have m4: "unat ?a mod 4 = 0" using mod_mod_cancel [of 4 4096 "unat ?a"] by simp
  define f1 where "f1 = dl_erase e ?a (df_flash s)"
  have f1: "f1 x = (if unat ?a \<le> x \<and> x < unat ?a + 4096 then 0xFF else df_flash s x)" for x
    unfolding f1_def by (rule flash_erased [OF assms(1) m])
  define f where "f = dl_write e (swapped b @ [0]) ?a (length b) f1"
  have "length b \<le> length (swapped b @ [0])" "\<forall>y. unat ?a \<le> y \<and> y < unat ?a + length b \<longrightarrow> f1 y = 0xFF"
    using f1 assms(3) by simp_all
  then have f: "f x = (if unat ?a \<le> x \<and> x < unat ?a + length b then (swapped b @ [0]) ! (x - unat ?a) else f1 x)" for x
    unfolding f_def by (rule flash_written [OF assms(1) m4 assms(2)])
  have "shard_download_handle e b s = Some (s\<lparr>df_recv_len := int (i + length b), df_flash := f\<rparr>)"
    using assms byte_swap_whole(2) [OF assms(2)] by (simp add: shard_download_handle_def f_def f1_def c_assert_def Let_def)
  moreover have "holds_at f i (swapped b)" using f by (simp add: holds_at_def a nth_append)
  moreover have "\<forall>x < ota_start + i. f x = df_flash s x" using f f1 by (simp add: a)
  ultimately show ?thesis by blast
qed

text \<open>The pieces in which the file is requested.\<close>

function shards :: "bytes \<Rightarrow> bytes list" where
  "shards d = (if d = [] then [] else take 4096 d # shards (drop 4096 d))"
  by pat_completeness auto
termination
  by (relation "measure length") auto

declare shards.simps [simp del]

lemma shards_concat: "concat (shards d) = d"
proof (induction d rule: shards.induct)
  case (1 d)
  then show ?case by (subst shards.simps) simp
qed

lemma shards_stored:
  assumes "flash_laws e" "length d mod 4 = 0" "d \<noteq> []" "i mod 4096 = 0" "i + length d \<le> 21474836" "df_file_size s \<noteq> 0" "df_recv_len s = int i"
    "ep + 1 \<noteq> int (i + length d)"
  shows "\<exists>f. webclient_shard_position_function e 0 (int (i + length d)) (map Body (shards d)) (int i) ep s =
      Some (Some 0, s\<lparr>df_recv_len := int (i + length d), df_flash := f\<rparr>) \<and>
    holds_at f i (swapped d) \<and> (\<forall>x < ota_start + i. f x = df_flash s x)"
  using assms(2-)
proof (induction d arbitrary: i s ep rule: shards.induct)
  case (1 d)
  let ?b = "take 4096 d" let ?r = "drop 4096 d"
  have sh: "map Body (shards d) = Body ?b # map Body (shards ?r)" using "1.prems"(2) by (subst shards.simps) simp
  have b: "?b \<noteq> []" "length ?b \<le> 4096" "length ?b mod 4 = 0" "length ?b + length ?r = length d"
    using "1.prems"(1,2) by (auto simp: min_def)
  obtain f where f: "shard_download_handle e ?b s = Some (s\<lparr>df_recv_len := int (i + length ?b), df_flash := f\<rparr>)"
    "holds_at f i (swapped ?b)" "\<forall>x < ota_start + i. f x = df_flash s x"
    using shard_stored [OF assms(1) b(3,2) "1.prems"(3) _ "1.prems"(5,6)] "1.prems"(4) b(4) by auto
  let ?s = "s\<lparr>df_recv_len := int (i + length ?b), df_flash := f\<rparr>"
  let ?ep = "if 4095 + int i \<ge> int (i + length d) then int (i + length d) - 1 else 4095 + int i"
  have step: "webclient_shard_position_function e 0 (int (i + length d)) (map Body (shards d)) (int i) ep s =
      webclient_shard_position_function e 0 (int (i + length d)) (map Body (shards ?r)) (int i + int (length ?b)) ?ep ?s"
    unfolding sh using b(1) f(1) "1.prems"(4,7) by (simp add: HTTP_DOWNLOADER_BLOCK_SIZE_def c_assert_def Let_def)
  show ?case
  proof (cases "?r = []")
    case True
    then have l: "length d \<le> 4096" "?b = d" by simp_all
    have "webclient_shard_position_function e 0 (int (i + length d)) [] (int i + int (length ?b)) (int (i + length d) - 1) ?s = Some (Some 0, ?s)"
      by simp
    moreover have "?ep = int (i + length d) - 1" using l(1) by auto
    moreover have "shards ?r = []" using True by (subst shards.simps) simp
    ultimately show ?thesis using step f l(2) by (intro exI [of _ f]) simp
  next
    case False
    then have l: "4096 < length d" "length ?b = 4096" by simp_all
    have "?ep = 4095 + int i" using l(1) by auto
    moreover have "\<exists>g. webclient_shard_position_function e 0 (int (i + 4096 + length ?r)) (map Body (shards ?r)) (int (i + 4096)) (4095 + int i) ?s =
        Some (Some 0, ?s\<lparr>df_recv_len := int (i + 4096 + length ?r), df_flash := g\<rparr>) \<and>
      holds_at g (i + 4096) (swapped ?r) \<and> (\<forall>x < ota_start + (i + 4096). g x = df_flash ?s x)"
    proof (rule "1.IH" [OF "1.prems"(2) _ False])
      show "length ?r mod 4 = 0" using "1.prems"(1) l(1) by (simp add: mod_eq_0_iff_dvd dvd_diff_nat)
    qed (use "1.prems" l in auto)
    then obtain g where g: "webclient_shard_position_function e 0 (int (i + length d)) (map Body (shards ?r)) (int (i + 4096)) (4095 + int i) ?s =
        Some (Some 0, ?s\<lparr>df_recv_len := int (i + length d), df_flash := g\<rparr>)"
      "holds_at g (i + 4096) (swapped ?r)" "\<forall>x < ota_start + (i + 4096). g x = f x" using l(1) by auto
    have "holds_at g i (swapped ?b)" using f(2) g(3) l(2) by (simp add: holds_at_def)
    moreover have "swapped d = swapped ?b @ swapped ?r" using swapped_append [OF b(3), of ?r] by simp
    ultimately have "holds_at g i (swapped d)" using g(2) l(2) by (simp add: holds_at_append)
    then show ?thesis using step g f(3) l(2) \<open>?ep = 4095 + int i\<close> by (intro exI [of _ g]) simp
  qed
qed

section \<open>The digest\<close>

lemma read_flash_append:
  "unat a + m < 2 ^ 32 \<Longrightarrow> read_flash f a m @ read_flash f (a + of_nat m) n = read_flash f a (m + n)"
  using flash_read_append [where e = "\<lparr>flash = f, data_text = d, state_text = st, query_id = q, data_ok = True, text_readable = True,
    coding_ok = c, page_ok = True, ota_post = Queued\<rparr>"]
  by (simp add: flash_read_def read_flash_def)

lemma read_flash_length [simp]: "length (read_flash f a n) = n"
  by (simp add: read_flash_def)

lemma align4_add: "align4 (m * 4 + k) = m * 4 + align4 k"
proof -
  have "(m * 4 + k + 3) div 4 = m + (k + 3) div 4" by (simp only: add.assoc div_mult_self3)
  then show ?thesis by (simp add: align4_def add_mult_distrib)
qed

lemma align4_whole:
  assumes "n mod 4 = 0"
  shows "align4 n = n"
proof -
  have "n div 4 * 4 = n" using assms div_mult_mod_eq [of n 4] by simp
  then show ?thesis using align4_add [of "n div 4" 0] by (simp add: align4_def)
qed

lemma md5_blocks_read:
  assumes "n < 2 ^ 31"
  shows "\<exists>bs. md5_blocks f n i = Some bs \<and>
    concat bs = take (n - i) (swapped (read_flash f (UC_OTA_PARTITION_START_ADDRESS + of_nat i) (align4 (n - i))))"
  using assms
proof (induction f n i rule: md5_blocks.induct)
  case (1 f n i)
  let ?a = "UC_OTA_PARTITION_START_ADDRESS + of_nat i :: u32"
  consider "i + 4096 < n" | "i < n" "n \<le> i + 4096" | "n \<le> i" by linarith
  then show ?case
  proof cases
    case 1
    let ?b = "read_flash f ?a 4096" let ?r = "read_flash f (?a + of_nat 4096) (align4 (n - (i + 4096)))"
    have b: "byte_swap ?b 4096 0 = Some (swapped ?b)" using byte_swap_whole(1) [of ?b] by simp
    have ad: "UC_OTA_PARTITION_START_ADDRESS + of_nat (i + 4096) = ?a + of_nat 4096" by simp
    from "1.IH" [unfolded HTTP_DOWNLOADER_BLOCK_SIZE_def, OF 1 b "1.prems"]
    obtain bs where bs: "md5_blocks f n (i + 4096) = Some bs" "concat bs = take (n - (i + 4096)) (swapped ?r)"
      unfolding ad by blast
    have "unat ?a + 4096 < 2 ^ 32" using ota_address [of i] 1 "1.prems" unfolding ota_start_value by simp
    then have "?b @ ?r = read_flash f ?a (4096 + align4 (n - (i + 4096)))" by (rule read_flash_append)
    moreover have "4096 + align4 (n - (i + 4096)) = align4 (n - i)"
      using align4_add [of 1024 "n - (i + 4096)"] 1 by simp
    moreover have m4: "4096 mod 4 = (0 :: nat)" by simp
    ultimately have "swapped (read_flash f ?a (align4 (n - i))) = swapped ?b @ swapped ?r"
      using swapped_append [of ?b ?r] by (metis m4 read_flash_length)
    then have "concat (swapped ?b # bs) = take (n - i) (swapped (read_flash f ?a (align4 (n - i))))"
      using bs(2) 1 by (simp add: Suc_diff_le diff_diff_left)
    then show ?thesis using 1 b bs(1)
      by (subst md5_blocks.simps) (simp add: HTTP_DOWNLOADER_BLOCK_SIZE_def)
  next
    case 2
    have m: "align4 (n - i) mod 4 = 0" by (simp add: align4_def)
    then have "byte_swap (read_flash f ?a (align4 (n - i))) (align4 (n - i)) 0 = Some (swapped (read_flash f ?a (align4 (n - i))))"
      using byte_swap_whole(1) [of "read_flash f ?a (align4 (n - i))"] by simp
    then show ?thesis using 2
      by (subst md5_blocks.simps) (simp add: HTTP_DOWNLOADER_BLOCK_SIZE_def)
  next
    case 3
    then show ?thesis by (subst md5_blocks.simps) (simp add: HTTP_DOWNLOADER_BLOCK_SIZE_def)
  qed
qed

section \<open>Properties\<close>

text \<open>An attempt in which the server delivers the whole file, and one that ends without it.\<close>

definition delivers :: "attempt \<Rightarrow> bytes \<Rightarrow> bool" where
  "delivers a d \<longleftrightarrow> at_session a \<and> at_head a = (0, int (length d)) \<and> at_replies a = map Body (shards d)"

definition fails :: "download_env \<Rightarrow> attempt \<Rightarrow> bool" where
  "fails e a \<longleftrightarrow> (\<forall>s. \<exists>rc s'. webclient_downloader e a s = Some (Some rc, s') \<and> rc \<noteq> 0)"

lemma delivered:
  assumes "flash_laws e" "delivers a d" "length d mod 4 = 0" "d \<noteq> []" "length d \<le> 21474836"
  shows "\<exists>f. webclient_downloader e a s = Some (Some 0, s\<lparr>df_file_size := int (length d), df_recv_len := int (length d), df_flash := f\<rparr>) \<and>
    holds_at f 0 (swapped d)"
proof -
  have "length d \<noteq> 1" using assms(3) by auto
  then show ?thesis
    using shards_stored [OF assms(1,3,4), of 0 "s\<lparr>df_file_size := int (length d), df_recv_len := 0\<rparr>" 0] assms(2,4,5)
    by (simp add: webclient_downloader_def delivers_def) (metis t_download_file_info.update_convs(2,3))
qed

lemma hex_text_length: "length (hex_text d) = 2 * length d"
  by (induction d) (simp_all add: hex_text_def)

lemma image_verified:
  assumes "holds_at f 0 (swapped d)" "length d mod 4 = 0" "length d < 2 ^ 31" "dl_buffer e" "\<And>bs. dl_md5 e bs = digest (concat bs)"
    "length (digest d) = 16" "df_recv_len s = int (length d)" "df_file_size s = int (length d)" "df_flash s = f"
  shows "md5_verification e (Some (hex_text (digest d) @ x)) s = Some 0"
proof -
  have a: "align4 (length d) = length d" by (rule align4_whole [OF assms(2)])
  obtain bs where bs: "md5_blocks f (length d) 0 = Some bs"
    "concat bs = swapped (read_flash f UC_OTA_PARTITION_START_ADDRESS (length d))"
    using md5_blocks_read [OF assms(3), of f 0] a by auto
  have "read_flash f UC_OTA_PARTITION_START_ADDRESS (length d) = swapped d"
    using holds_at_read [OF _ assms(1)] by simp
  then have "concat bs = d" using bs(2) swapped_swapped [OF assms(2)] by simp
  then show ?thesis using bs(1) assms(4-9) by (simp add: md5_verification_def c_assert_def mem_read_def hex_text_length)
qed

lemma attempts_succeed:
  assumes "flash_laws e" "length d mod 4 = 0" "d \<noteq> []" "length d \<le> 21474836" "dl_buffer e" "\<And>bs. dl_md5 e bs = digest (concat bs)"
    "length (digest d) = 16" "\<forall>a \<in> set as. fails e a" "delivers b d"
  shows "\<exists>f s'. download_attempts e (Some (hex_text (digest d) @ x)) (as @ b # bs) s = Some (Some 0, s') \<and>
    df_file_size s' = int (length d) \<and> df_flash s' = f \<and> holds_at f 0 (swapped d)"
  using assms(8)
proof (induction as arbitrary: s)
  case Nil
  obtain f where f: "webclient_downloader e b s = Some (Some 0, s\<lparr>df_file_size := int (length d), df_recv_len := int (length d), df_flash := f\<rparr>)"
    "holds_at f 0 (swapped d)" using delivered [OF assms(1,9,2-4)] by blast
  then show ?case
    using image_verified [OF f(2) assms(2) _ assms(5-7), of "s\<lparr>df_file_size := int (length d), df_recv_len := int (length d), df_flash := f\<rparr>" x] assms(4)
    by simp
next
  case (Cons a as)
  then obtain rc s' where "webclient_downloader e a s = Some (Some rc, s')" "rc \<noteq> 0" by (fastforce simp: fails_def)
  then show ?case using Cons.IH [of s'] Cons.prems by simp
qed


definition sample_download :: download_env where
  "sample_download =
     \<lparr>dl_erase = \<lambda>a f x. if unat a \<le> x \<and> x < unat a + 4096 then 0xFF else f x,
      dl_write = \<lambda>d a n f x. if unat a \<le> x \<and> x < unat a + n then d ! (x - unat a) else f x,
      dl_md5 = \<lambda>bs. replicate 16 (sum_list (concat bs)), dl_buffer = True, dl_message = True, dl_post = Queued\<rparr>"

definition sample_tries :: "nat \<Rightarrow> attempt" where
  "sample_tries j = (if j = 0 then \<lparr>at_session = False, at_head = (0, 0), at_replies = []\<rparr>
     else \<lparr>at_session = True, at_head = (0, 4), at_replies = [Body [1, 2, 3, 4]]\<rparr>)"

definition sample_file :: t_download_file_info where
  "sample_file = \<lparr>df_file_size = 0, df_recv_len = 0, df_flash = \<lambda>_. 0\<rparr>"

lemma sample_download_ok:
  "flash_laws sample_download" "dl_buffer sample_download" "dl_message sample_download" "dl_post sample_download = Queued"
  "dl_md5 sample_download bs = replicate 16 (sum_list (concat bs))" "fails sample_download (sample_tries 0)" "delivers (sample_tries 1) [1, 2, 3, 4]"
  by (simp_all add: flash_laws_def sample_download_def fails_def sample_tries_def webclient_downloader_def delivers_def shards.simps)


text \<open>C16: Whatever the server replies, an image is only accepted as complete if it has the
  announced size and the digest of what the flash holds, with the bytes of every word in
  order again, is the expected one.\<close>

theorem accepted_image_verified:
  assumes "http_ota_download_task e (Some expected) tries s = Some (Some 0, s')" "\<And>bs. dl_md5 e bs = digest (concat bs)" "df_file_size s' < 2 ^ 31"
  shows "df_file_size s' \<le> df_recv_len s' \<and>
    take 32 expected = take 32 (hex_text (digest (take (nat (df_file_size s'))
      (swapped (read_flash (df_flash s') UC_OTA_PARTITION_START_ADDRESS (align4 (nat (df_file_size s'))))))))"
proof -
  have "download_attempts e (Some expected) as s = Some (Some 0, s') \<Longrightarrow> md5_verification e (Some expected) s' = Some 0" for as
  proof (induction as arbitrary: s)
    case (Cons a as)
    then show ?case by (auto simp: bind_eq_Some_conv split: option.splits if_splits)
  qed simp
  then have v: "md5_verification e (Some expected) s' = Some 0" using assms(1) unfolding http_ota_download_task_def by blast
  have "nat (df_file_size s') < 2 ^ 31" using assms(3) by simp
  from md5_blocks_read [OF this, of "df_flash s'" 0] show ?thesis
    using v assms(2) by (auto simp: md5_verification_def bind_eq_Some_conv mem_read_def c_assert_def split: if_splits)
qed

theorem accepted_image_verified_witness:
  "\<exists>s'. http_ota_download_task sample_download (Some (hex_text (replicate 16 10))) sample_tries sample_file = Some (Some 0, s') \<and>
    hex_text (replicate 16 10) = take 32 (hex_text (replicate 16 (sum_list (take (nat (df_file_size s'))
      (swapped (read_flash (df_flash s') UC_OTA_PARTITION_START_ADDRESS (align4 (nat (df_file_size s')))))))))"
proof -
  let ?d = "[1, 2, 3, 4] :: bytes"
  have m: "map sample_tries [0..<HTTP_DOWNLOADER_RETRY] = [sample_tries 0] @ sample_tries 1 # [sample_tries 2]"
    by (simp add: HTTP_DOWNLOADER_RETRY_def numeral_3_eq_3 numeral_2_eq_2)
  obtain s' where s': "http_ota_download_task sample_download (Some (hex_text (replicate 16 (sum_list ?d)) @ [])) sample_tries sample_file = Some (Some 0, s')"
    "df_file_size s' = int (length ?d)"
    using attempts_succeed [of sample_download ?d "\<lambda>d. replicate 16 (sum_list d)" "[sample_tries 0]" "sample_tries 1" "[]" "[sample_tries 2]" sample_file]
      sample_download_ok unfolding http_ota_download_task_def m by auto
  have h: "sum_list ?d = 10" by simp
  show ?thesis
    using accepted_image_verified [where digest = "\<lambda>d. replicate 16 (sum_list d)", OF s'(1) sample_download_ok(5)] s' unfolding h by (auto simp: hex_text_length)
qed

end
