(* ===== verification/Logic.thy ===== *)
theory Logic
  imports Update UserId DataPacket
begin

unbundle bit_operations_syntax

text \<open>
  The logic task, app/wiota\_manager/manager\_logic.c with manager\_iote\_message.c,
  manager\_net\_messager.c, manager\_wiota\_respons.c, manager\_wiota\_attribute.c and
  manager\_request\_*.c: it takes messages from devices, from the network and from the
  operation task, and joins the codec (Coding), the packet store (DataPacket), the id
  allocator (UserId), the operation task (Frame) and the updates (Update).  The buffers
  that it releases are not followed; a use of one after its release is a fault.
\<close>

section \<open>State\<close>

text \<open>
  A message to the network task: the data of a device with length and source, the result
  of a request, a JSON tree, or a request of the server with its number.
\<close>

datatype net_body =
    Report "bytes option" nat u32
  | Response u32 nat
  | Json cjson
  | Request int bytes

record t_app_passthrough_message =
  pm_cmd :: u32
  pm_data :: net_body

text \<open>
  The state of all the logic task works on; \<open>blocks\<close> are the four-byte blocks that the
  segments of one message share, state and number of segments left.
\<close>

record logic_state =
  op_task :: op_state
  ids :: uid_state
  packets :: packet_list
  update :: t_manager_update
  blocks :: "nat \<rightharpoonup> nat \<times> u8"
  net_queue :: "t_app_passthrough_message list"
  actions :: "update_action list"

text \<open>
  Sending to the network task: the allocation of the description fails, the allocation of the
  message fails, the queue stays full, or the message is queued.
\<close>

datatype net_env = Net_no_info | Net_no_message | Net_full | Net_queued

text \<open>What one attempt to send meets.\<close>

record send_env =
  se_code :: "nat \<Rightarrow> nat \<Rightarrow> bool"
  se_page :: bool
  se_post :: post_env
  se_net :: net_env
  se_resp :: bool

text \<open>What one round of the task meets; \<open>le_send\<close> by destination and segment.\<close>

record logic_env =
  le_cfg :: sub_system_config_t
  le_send :: "nat \<Rightarrow> nat \<Rightarrow> send_env"
  le_decode :: "nat \<Rightarrow> nat \<Rightarrow> bool"
  le_packet :: "nat option"
  le_segs :: bool
  le_reader :: bool
  le_block :: "nat \<Rightarrow> nat option"
  le_parse :: "bytes \<Rightarrow> cjson option"
  le_replace_text :: "u32 \<Rightarrow> bytes"
  le_ota :: ota_env
  le_json :: "nat \<Rightarrow> bool"
  le_ids :: bool
  le_beyond :: "u32 list"
  le_flag :: bool
  le_reserve :: "nat \<Rightarrow> bool"
  le_query :: "u32 list \<Rightarrow> (u8 \<times> u8) list option"
  le_timer :: bool

definition AP_DEFAULT_RADIO_ADDRESS :: u32 where "AP_DEFAULT_RADIO_ADDRESS = 0xDFFFFFFF"
definition AP_MULTICAST_ADDRESS :: u32 where "AP_MULTICAST_ADDRESS = 0xE0000000"
definition UC_WIOTA_MAX_SEND_NORMAL_DATA_LEN :: nat where "UC_WIOTA_MAX_SEND_NORMAL_DATA_LEN = 310"
definition UC_WIOTA_MAX_SEND_BROADCAST_DATA_LEN :: nat where "UC_WIOTA_MAX_SEND_BROADCAST_DATA_LEN = 1024"

definition APP_CMD_IOTE_PROPERTY_REPORT :: u8 where "APP_CMD_IOTE_PROPERTY_REPORT = 0"
definition APP_CMD_AP_PROPERTY_REPORT :: u32 where "APP_CMD_AP_PROPERTY_REPORT = 1"
definition APP_CMD_IOTE_STATE_REPORT :: u8 where "APP_CMD_IOTE_STATE_REPORT = 11"
definition APP_CMD_IOTE_PAIR_REQUEST :: u8 where "APP_CMD_IOTE_PAIR_REQUEST = 30"
definition APP_CMD_NET_PAIR_RESPONSE :: u32 where "APP_CMD_NET_PAIR_RESPONSE = 31"
definition APP_CMD_NET_PAIR_CANCEL :: u32 where "APP_CMD_NET_PAIR_CANCEL = 33"
definition APP_CMD_NET_CTRL_IOTE :: u32 where "APP_CMD_NET_CTRL_IOTE = 40"
definition APP_CMD_UPDATE_VERSION_REQUEST :: u8 where "APP_CMD_UPDATE_VERSION_REQUEST = 50"
definition APP_CMD_UPDATE_VERSION_SPONSE :: u32 where "APP_CMD_UPDATE_VERSION_SPONSE = 51"
definition APP_CMD_GET_SPECIFIC_DATA_REQUEST :: u8 where "APP_CMD_GET_SPECIFIC_DATA_REQUEST = 52"
definition APP_CMD_IOTE_MUTICAST_REQUEST :: u8 where "APP_CMD_IOTE_MUTICAST_REQUEST = 100"
definition APP_CMD_NET_MUTICAST_ASSIGNMENT :: u32 where "APP_CMD_NET_MUTICAST_ASSIGNMENT = 101"
definition APP_CMD_NET_DELIVER_IOTE_CONFIG :: u32 where "APP_CMD_NET_DELIVER_IOTE_CONFIG = 121"
definition WIOTA_AP_REQUEST_RESERVE_ADDR :: u32 where "WIOTA_AP_REQUEST_RESERVE_ADDR = 122"
definition MANAGER_LOGIC_RESPONSE_RESERVE_ADDR :: u32 where "MANAGER_LOGIC_RESPONSE_RESERVE_ADDR = 123"
definition APP_CMD_AP_REQUEST_IOTE_REPLACE_ADDR :: u8 where "APP_CMD_AP_REQUEST_IOTE_REPLACE_ADDR = 130"
definition APP_CMD_IOTE_RESPONSE_REPLACE_ADDR :: u8 where "APP_CMD_IOTE_RESPONSE_REPLACE_ADDR = 131"
definition MANAGER_LOGIC_MQTT_EXE_RESPONSE :: u32 where "MANAGER_LOGIC_MQTT_EXE_RESPONSE = 0xF0000011"

definition PRO_SEGMENT_FLAG :: nat where "PRO_SEGMENT_FLAG = 2"
definition PRO_RESPONSE_FLAG :: nat where "PRO_RESPONSE_FLAG = 3"
definition PRO_NEED_RES :: nat where "PRO_NEED_RES = 4"
definition PRO_PACKET_NUM :: nat where "PRO_PACKET_NUM = 5"
definition PRO_DEST_ADDR :: nat where "PRO_DEST_ADDR = 6"
definition PRO_SRC_ADDR :: nat where "PRO_SRC_ADDR = 7"

definition response_flag :: "app_ps_property_t \<Rightarrow> bool" where "response_flag p = bit p 3"
definition is_need_res :: "app_ps_property_t \<Rightarrow> bool" where "is_need_res p = bit p 4"

text \<open>The other result functions of pages, by number; 0 is none.\<close>

definition RESULT_CONTROL :: nat where "RESULT_CONTROL = 1"
definition RESULT_REPLACE :: nat where "RESULT_REPLACE = 2"
definition RESULT_NETWORK :: nat where "RESULT_NETWORK = 3"

section \<open>Messages to the network task\<close>

definition to_network_data :: "net_env \<Rightarrow> u32 \<Rightarrow> net_body \<Rightarrow> logic_state \<Rightarrow> int \<times> logic_state" where
  "to_network_data e c d s =
     (case e of
        Net_queued \<Rightarrow> (0, s\<lparr>net_queue := net_queue s @ [\<lparr>pm_cmd = c, pm_data = d\<rparr>]\<rparr>)
      | Net_full \<Rightarrow> (-3, s)
      | _ \<Rightarrow> (-12, s))"

text \<open>Success is reported even when the message has not been queued.\<close>

definition manager_send_data_logic_to_net :: "net_env \<Rightarrow> u32 \<Rightarrow> net_body \<Rightarrow> logic_state \<Rightarrow> int \<times> logic_state" where
  "manager_send_data_logic_to_net e c d s =
     (if e = Net_no_info then (1, s) else (0, snd (to_network_data e c d s)))"

text \<open>The allocation is not checked.\<close>

definition manager_response_message_result :: "send_env \<Rightarrow> nat \<Rightarrow> u32 \<Rightarrow> logic_state \<Rightarrow> logic_state option" where
  "manager_response_message_result e result number s = do {
     c_assert (se_resp e);
     Some (snd (manager_send_data_logic_to_net (se_net e) MANAGER_LOGIC_MQTT_EXE_RESPONSE (Response number result) s))
   }"

definition manager_request_reserve_addr :: "net_env \<Rightarrow> logic_state \<Rightarrow> logic_state" where
  "manager_request_reserve_addr e s =
     snd (to_network_data e WIOTA_AP_REQUEST_RESERVE_ADDR
       (Json (CObject [(''src_address'', CNumber 0xD0000000), (''type'', CString ''ap'')])) s)"

definition manager_input_attribute :: "net_env \<Rightarrow> logic_state \<Rightarrow> logic_state" where
  "manager_input_attribute e s =
     snd (to_network_data e APP_CMD_AP_PROPERTY_REPORT (Json (CObject [(''src_address'', CNumber 0xD0000000)])) s)"

text \<open>The text of the version with its terminator.\<close>

definition manager_check_ap_version :: "net_env \<Rightarrow> bytes \<Rightarrow> logic_state \<Rightarrow> logic_state" where
  "manager_check_ap_version e text s =
     snd (manager_send_data_logic_to_net e (ucast APP_CMD_UPDATE_VERSION_REQUEST)
       (Report (Some (text @ [0])) (length text) AP_DEFAULT_ADDRESS) s)"

section \<open>Results of the operation task\<close>

definition manager_network_to_wiota_result :: "send_env \<Rightarrow> t_app_operation_data \<Rightarrow> logic_state \<Rightarrow> logic_state option" where
  "manager_network_to_wiota_result e d s = (
     let h = od_head d; answer = (oh_src_address h = SERVER_DEFAULT_ADDRESS) in
     case od_segment d of
       Some a \<Rightarrow> do {
         (st, left) \<leftarrow> blocks s a;
         let st' = (if oh_state h = MANAGER_SEND_FAIL then MANAGER_SEND_FAIL else st);
         let left' = left - 1;
         if left' = 0 then do {
           s1 \<leftarrow> (if answer then manager_response_message_result e st' (oh_request_number h) s else Some s);
           Some (s1\<lparr>blocks := (blocks s1)(a := None)\<rparr>)
         }
         else Some (s\<lparr>blocks := (blocks s)(a \<mapsto> (st', left'))\<rparr>)
       }
     | None \<Rightarrow> if answer then manager_response_message_result e (oh_state h) (oh_request_number h) s else Some s)"

text \<open>The parts of the state that updates work on, with the ids of the allocator.\<close>

definition ota_of :: "logic_env \<Rightarrow> logic_state \<Rightarrow> ota_env" where
  "ota_of e s = (le_ota e)\<lparr>query_id := \<lambda>mac. manager_query_wiotaid (le_cfg e) mac (ids s)\<rparr>"

definition put_ota :: "logic_state \<Rightarrow> t_manager_update \<times> op_state \<Rightarrow> logic_state" where
  "put_ota s us = s\<lparr>update := fst us, op_task := snd us\<rparr>"

definition result_function :: "logic_env \<Rightarrow> t_app_operation_data \<Rightarrow> logic_state \<Rightarrow> logic_state option" where
  "result_function e d s = (
     let f = oh_result_function (od_head d) in
     if f = RESULT_NETWORK then manager_network_to_wiota_result (le_send e 0 0) d s
     else if f = RESULT_OTA_MSG then map_option (put_ota s) (manager_ota_msg_result (ota_of e s) (update s, op_task s))
     else if f = RESULT_OTA_RESEND then map_option (put_ota s) (manager_ota_resend_msg_result (ota_of e s) (update s, op_task s))
     else Some s)"

section \<open>Messages from the network\<close>

definition is_broadcast :: "u32 \<Rightarrow> bool" where
  "is_broadcast a \<longleftrightarrow>
     a AND AP_DEFAULT_ADDRESS = AP_DEFAULT_ADDRESS \<or> a AND AP_DEFAULT_RADIO_ADDRESS = AP_DEFAULT_RADIO_ADDRESS \<or>
     a AND AP_MULTICAST_ADDRESS = AP_MULTICAST_ADDRESS"

definition post_page ::
  "send_env \<Rightarrow> (t_app_operation_data \<Rightarrow> op_msg) \<Rightarrow> t_app_operation_data \<Rightarrow> logic_state \<Rightarrow> logic_state option" where
  "post_page e ty d s = do {
     o' \<leftarrow> manager_logic_send_to_operater (se_page e) (se_post e) ty d (op_task s);
     Some (s\<lparr>op_task := o'\<rparr>)
   }"

text \<open>A message that cannot be coded is dropped without an answer.\<close>

definition manager_send_packet ::
  "sub_system_config_t \<Rightarrow> send_env \<Rightarrow> app_ps_header_t \<Rightarrow> nat option \<Rightarrow> bool \<Rightarrow> u32 \<Rightarrow> bytes \<Rightarrow> logic_state \<Rightarrow>
     (app_ps_header_t \<times> logic_state) option" where
  "manager_send_packet cfg e h segb broadcast number d s = do {
     (r, h', out) \<leftarrow> app_data_coding (se_code e) (Some h) (Some d) (length d);
     if r = 0 then do {
       (buf, n) \<leftarrow> out;
       wid \<leftarrow> manager_query_wiotaid cfg (dest_addr (addr h')) (ids s);
       let page = operation_page number (src_addr (addr h')) (ucast (cmd_type h')) wid n (Some buf) segb;
       if \<not> broadcast then do {
         s1 \<leftarrow> post_page e OPERATION_MSG (page RESULT_NETWORK) s;
         Some (h', s1)
       }
       else do {
         s1 \<leftarrow> post_page e OPERATION_RADIO (page 0) s;
         s2 \<leftarrow> manager_response_message_result e MANAGER_SEND_SUCCESS number s1;
         Some (h', s2)
       }
     }
     else Some (h', s)
   }"

definition max_len :: "bool \<Rightarrow> nat" where
  "max_len broadcast =
     (if broadcast then UC_WIOTA_MAX_SEND_BROADCAST_DATA_LEN - header_size else UC_WIOTA_MAX_SEND_NORMAL_DATA_LEN - header_size)"

definition next_segment :: "app_ps_header_t \<Rightarrow> app_ps_header_t" where
  "next_segment h = h\<lparr>segment_info := (segment_info h)\<lparr>current_num := current_num (segment_info h) + 1\<rparr>\<rparr>"

text \<open>The loop over the segments; \<open>k\<close> counts them.\<close>

function send_segments ::
  "sub_system_config_t \<Rightarrow> (nat \<Rightarrow> send_env) \<Rightarrow> nat \<Rightarrow> app_ps_header_t \<Rightarrow> nat \<Rightarrow> bool \<Rightarrow> u32 \<Rightarrow> bytes \<Rightarrow> logic_state \<Rightarrow>
     logic_state option" where
  "send_segments cfg e k h segb broadcast number d s =
     (if d = [] then Some s
      else do {
        (h', s') \<leftarrow> manager_send_packet cfg (e k) h (Some segb) broadcast number (take (max_len broadcast) d) s;
        send_segments cfg e (k + 1) (next_segment h') segb broadcast number (drop (max_len broadcast) d) s'
      })"
  by pat_completeness auto
termination
  by (relation "measure (\<lambda>(cfg, e, k, h, segb, b, n, d, s). length d)")
    (auto simp: max_len_def UC_WIOTA_MAX_SEND_BROADCAST_DATA_LEN_def UC_WIOTA_MAX_SEND_NORMAL_DATA_LEN_def header_size_def)

declare send_segments.simps [simp del]

definition downlink_property :: "bool \<Rightarrow> bool \<Rightarrow> app_ps_property_t" where
  "downlink_property broadcast segmented = (
     let p1 = app_set_header_property PRO_DEST_ADDR 1 (app_set_header_property PRO_SRC_ADDR 1 0);
         p2 = (if \<not> broadcast then app_set_header_property PRO_NEED_RES 1 p1 else p1)
     in if segmented then app_set_header_property PRO_PACKET_NUM 1 (app_set_header_property PRO_SEGMENT_FLAG 1 p2) else p2)"

definition downlink_header :: "bool \<Rightarrow> u8 \<Rightarrow> t_from_network_message \<Rightarrow> u32 \<Rightarrow> app_ps_header_t" where
  "downlink_header segmented tot m a =
     \<lparr>property = downlink_property (is_broadcast a) segmented,
      addr = \<lparr>src_addr = SERVER_DEFAULT_ADDRESS, dest_addr = a\<rparr>,
      packet_num = ucast (request_number m),
      segment_info = \<lparr>total_num = tot, current_num = 0\<rparr>,
      cmd_type = ucast (nm_cmd m)\<rparr>"

text \<open>One destination; the allocation of the block of a segmented message is not checked.\<close>

definition send_to_destination ::
  "logic_env \<Rightarrow> t_from_network_message \<Rightarrow> nat \<Rightarrow> u32 \<Rightarrow> logic_state \<Rightarrow> logic_state option" where
  "send_to_destination e m num a s = do {
     d \<leftarrow> json_data m;
     let b = is_broadcast a;
     if length d > max_len b then do {
       let tot = of_nat ((length d + max_len b - 1) div max_len b);
       blk \<leftarrow> le_block e num;
       send_segments (le_cfg e) (le_send e num) 0 (downlink_header True tot m a) blk b (request_number m) d
         (s\<lparr>blocks := (blocks s)(blk \<mapsto> (MANAGER_SEND_SUCCESS, tot))\<rparr>)
     }
     else do {
       (h, s') \<leftarrow> manager_send_packet (le_cfg e) (le_send e num 0) (downlink_header False 0 m a) None b (request_number m) d s;
       Some s'
     }
   }"

fun send_to_destinations ::
  "logic_env \<Rightarrow> t_from_network_message \<Rightarrow> nat \<Rightarrow> u32 list \<Rightarrow> logic_state \<Rightarrow> logic_state option" where
  "send_to_destinations e m num [] s = Some s"
| "send_to_destinations e m num (a # as) s = do {
     s' \<leftarrow> send_to_destination e m num a s;
     send_to_destinations e m (num + 1) as s'
   }"

definition manager_send_msg_to_wiota :: "logic_env \<Rightarrow> t_from_network_message \<Rightarrow> logic_state \<Rightarrow> logic_state option" where
  "manager_send_msg_to_wiota e m s =
     (if dest_len m div 4 = 0 then Some s
      else do {
        as \<leftarrow> dest_address m;
        s' \<leftarrow> send_to_destinations e m 0 (take (dest_len m div 4) as) s;
        c_assert (dest_len m div 4 \<le> length as);
        Some s'
      })"

definition manager_send_config_to_wioata :: "send_env \<Rightarrow> t_from_network_message \<Rightarrow> logic_state \<Rightarrow> logic_state option" where
  "manager_send_config_to_wioata e m s = manager_response_message_result e MANAGER_SEND_SUCCESS (request_number m) s"

text \<open>The conversion of a number to unsigned int, which must be in range.\<close>

definition to_address :: "cjson option \<Rightarrow> u32 option" where
  "to_address j = do {
     v \<leftarrow> j;
     case v of
       CNumber q \<Rightarrow> do { c_assert (-1 < q \<and> q < 2 ^ 32); Some (of_int (if q < 0 then 0 else \<lfloor>q\<rfloor>)) }
     | _ \<Rightarrow> Some 0
   }"

definition manager_pasing_address :: "(bytes \<Rightarrow> cjson option) \<Rightarrow> bytes option \<Rightarrow> (u32 \<times> u32) option" where
  "manager_pasing_address parse d = do {
     j \<leftarrow> Option.bind d parse;
     a \<leftarrow> to_address (cJSON_GetObjectItem (Some j) ''start_address'');
     b \<leftarrow> to_address (cJSON_GetObjectItem (Some j) ''end_address'');
     Some (a, b)
   }"

text \<open>The first address is printed before anything else.\<close>

definition manager_net_data_logic :: "logic_env \<Rightarrow> t_from_network_message \<Rightarrow> logic_state \<Rightarrow> logic_state option" where
  "manager_net_data_logic e m s = do {
     as \<leftarrow> dest_address m;
     c_assert (as \<noteq> []);
     if nm_cmd m \<in> {APP_CMD_NET_PAIR_RESPONSE, APP_CMD_NET_PAIR_CANCEL, APP_CMD_NET_CTRL_IOTE, APP_CMD_NET_MUTICAST_ASSIGNMENT}
     then manager_send_msg_to_wiota e m s
     else if nm_cmd m = APP_CMD_UPDATE_VERSION_SPONSE then do {
       (r, act, u) \<leftarrow> manager_update_response (le_parse e) (le_json e) (le_ids e) (le_beyond e) m
         ((update s)\<lparr>up_state := UPDATE_RESPONSE_MSG\<rparr>);
       Some (s\<lparr>update := u, actions := actions s @ [act]\<rparr>)
     }
     else if nm_cmd m = APP_CMD_NET_DELIVER_IOTE_CONFIG then manager_send_config_to_wioata (le_send e 0 0) m s
     else if nm_cmd m = MANAGER_LOGIC_RESPONSE_RESERVE_ADDR then do {
       (a, b) \<leftarrow> manager_pasing_address (le_parse e) (json_data m);
       i \<leftarrow> manager_get_reserved_address (le_reserve e) (le_query e) (a OR push_bit 31 1) (b OR push_bit 31 1) (ids s);
       Some (s\<lparr>ids := i\<rparr>)
     }
     else Some s
   }"

section \<open>Messages from devices\<close>

definition manager_send_replace_response ::
  "send_env \<Rightarrow> (u32 \<Rightarrow> bytes) \<Rightarrow> u32 \<times> u32 \<times> u32 \<Rightarrow> logic_state \<Rightarrow> logic_state option" where
  "manager_send_replace_response e text = (\<lambda>(src, dest, new) s. do {
     (r, h, out) \<leftarrow> app_data_coding (se_code e) (Some (ota_header APP_CMD_IOTE_RESPONSE_REPLACE_ADDR))
       (Some (text new)) (length (text new));
     if r = 0 then do {
       (buf, n) \<leftarrow> out;
       post_page e OPERATION_MSG (operation_page 0 src (ucast (cmd_type h)) dest n (Some buf) None RESULT_REPLACE) s
     }
     else Some s
   })"

text \<open>The block that decoding returned: decompressed data stand in a cleared block.\<close>

definition decoded_block :: "app_ps_header_t \<Rightarrow> (bytes \<times> nat) option \<Rightarrow> bytes option" where
  "decoded_block h out = map_option (\<lambda>(b, n).
     if compress_flag (property h) then b @ replicate (APP_MAX_DECODING_DATA_LEN - length b) 0 else b) out"

definition empty_header :: app_ps_header_t where
  "empty_header = \<lparr>property = 0, addr = \<lparr>src_addr = 0, dest_addr = 0\<rparr>, packet_num = 0,
     segment_info = \<lparr>total_num = 0, current_num = 0\<rparr>, cmd_type = 0\<rparr>"

text \<open>
  A segment: the packet it belongs to is found or created, and its data are taken out once
  it is complete.  When they are empty, the data of the segment are used, which have been
  freed with the packet; that is reported by the last component.
\<close>

definition recv_segment ::
  "logic_env \<Rightarrow> u32 \<Rightarrow> app_ps_header_t \<Rightarrow> bytes option \<Rightarrow> nat \<Rightarrow> logic_state \<Rightarrow>
     ((bytes option \<times> nat \<times> bool) option \<times> logic_state) option" where
  "recv_segment e src h d n s = do {
     (ps1, pos) \<leftarrow> (case recv_data_packet_find (packets s) src (ucast (packet_num h)) of
                     Some a \<Rightarrow> Some (packets s, a)
                   | None \<Rightarrow> recv_data_packet_append (le_packet e) (le_segs e) (packets s) src (ucast (packet_num h))
                       (total_num (segment_info h)));
     (ps2, _) \<leftarrow> recv_data_packet_add_segment ps1 (Some pos) (current_num (segment_info h)) d (of_nat n);
     (r, out, len) \<leftarrow> recv_data_packet_reader (le_reader e) ps2 (Some pos);
     if r = 0 then do {
       ps3 \<leftarrow> recv_data_packet_remove ps2 (Some pos);
       Some (Some (out, len, out = None), s\<lparr>packets := ps3\<rparr>)
     }
     else Some (None, s\<lparr>packets := ps2\<rparr>)
   }"

text \<open>A C string in a block, terminator excluded.\<close>

definition c_text :: "bytes \<Rightarrow> bytes option" where
  "c_text b = (if 0 \<in> set b then Some (takeWhile (\<lambda>c. c \<noteq> 0) b) else None)"

definition ota_idle :: "logic_state \<Rightarrow> bool" where
  "ota_idle s \<longleftrightarrow> up_state (update s) = UPDATE_STOP \<or> up_state (update s) = UPDATE_DEFAULT"

definition send_ota_state :: "logic_env \<Rightarrow> int \<Rightarrow> logic_state \<Rightarrow> logic_state option" where
  "send_ota_state e st s = do {
     o' \<leftarrow> manager_ota_send_state (ota_of e s) st (update s) (op_task s);
     Some (s\<lparr>op_task := o'\<rparr>)
   }"

text \<open>The command of a complete message: its data \<open>d\<close> of length \<open>n\<close>, and the packet \<open>raw\<close> it came in.\<close>

definition run_command ::
  "logic_env \<Rightarrow> t_app_recv_wiota_info \<Rightarrow> app_ps_header_t \<Rightarrow> bytes option \<Rightarrow> nat \<Rightarrow> logic_state \<Rightarrow> logic_state option" where
  "run_command e raw h d n s = (
     let c = cmd_type h; src = src_addr (addr h); dest = dest_addr (addr h);
         report = Some (snd (manager_send_data_logic_to_net (se_net (le_send e 0 0)) (ucast c) (Report d n src) s)) in
     if c \<in> {APP_CMD_IOTE_PROPERTY_REPORT, APP_CMD_IOTE_STATE_REPORT, APP_CMD_IOTE_PAIR_REQUEST, APP_CMD_IOTE_MUTICAST_REQUEST}
     then report
     else if c = ucast APP_CMD_NET_CTRL_IOTE then
       if dest \<noteq> SERVER_DEFAULT_ADDRESS \<and> is_dest_addr (property h) then do {
         wid \<leftarrow> manager_query_wiotaid (le_cfg e) dest (ids s);
         let src' = (if \<not> is_need_res (property h) \<or> dest \<noteq> AP_DEFAULT_ADDRESS then 0 else src);
         post_page (le_send e 0 0) OPERATION_MSG
           (operation_page (ucast (packet_num h)) src' APP_CMD_NET_CTRL_IOTE wid (length (ri_data raw)) (Some (ri_data raw))
              None RESULT_CONTROL) s
       }
       else Some s
     else if c = APP_CMD_UPDATE_VERSION_REQUEST then
       if ota_idle s then report else send_ota_state e MANAGER_OTA_STOP s
     else if c = APP_CMD_GET_SPECIFIC_DATA_REQUEST then
       if \<not> ota_idle s then send_ota_state e MANAGER_OTA_GONGING s
       else if up_state (update s) = UPDATE_STOP then do {
         json \<leftarrow> (case d of None \<Rightarrow> Some None | Some b \<Rightarrow> map_option (le_parse e) (c_text b));
         (r, us) \<leftarrow> manager_ota_resend_data (ota_of e s) (le_json e) json (update s, op_task s);
         Some (put_ota s us)
       }
       else send_ota_state e MANAGER_OTA_NODATA s
     else if c = APP_CMD_AP_REQUEST_IOTE_REPLACE_ADDR then do {
       i \<leftarrow> manager_reallocated_wiotaid (le_cfg e) src (ri_id raw) (ids s);
       run_steps (manager_send_replace_response (le_send e 0 0) (le_replace_text e))
         (drop (length (replace_messages (ids s))) (replace_messages i)) (s\<lparr>ids := i\<rparr>)
     }
     else Some s)"

definition manager_recv_wiota_msg :: "logic_env \<Rightarrow> t_app_recv_wiota_info \<Rightarrow> logic_state \<Rightarrow> logic_state option" where
  "manager_recv_wiota_msg e raw s = do {
     (r, out, h) \<leftarrow> app_data_decoding (le_decode e) (Some (ri_data raw)) (length (ri_data raw)) empty_header;
     if r \<noteq> 0 then Some s
     else do {
       let d = decoded_block h out;
       let n = (case out of None \<Rightarrow> 0 | Some (b, k) \<Rightarrow> k);
       (msg, s') \<leftarrow> (if segment_flag (property h) then recv_segment e (ri_id raw) h d n s
                     else Some (Some (d, n, False), s));
       case msg of
         None \<Rightarrow> Some s'
       | Some (d', n', freed) \<Rightarrow>
           if response_flag (property h) then Some s'
           else do {
             c_assert (\<not> freed);
             run_command e raw h d' n' s'
           }
     }
   }"

section \<open>The task\<close>

definition manager_logic_start :: "logic_env \<Rightarrow> bool \<Rightarrow> logic_state \<Rightarrow> logic_state option" where
  "manager_logic_start e hash_ok s = do {
     i \<leftarrow> manager_address_init hash_ok (le_cfg e) (ids s);
     let s1 = s\<lparr>ids := i\<rparr>;
     let s2 = (if reserve_requests i = reserve_requests (ids s) then s1
               else manager_request_reserve_addr (se_net (le_send e 0 0)) s1);
     Some (manager_input_attribute (se_net (le_send e 0 1)) (s2\<lparr>packets := recv_data_packet_init\<rparr>))
   }"

fun manager_logic_case :: "logic_env \<Rightarrow> logic_msg \<Rightarrow> logic_state \<Rightarrow> logic_state option" where
  "manager_logic_case e LOGIC_WIOTA_START s = do {
     i \<leftarrow> manager_wiotaid_start (le_timer e) (ids s);
     Some (s\<lparr>ids := i\<rparr>)
   }"
| "manager_logic_case e (LOGIC_SEND_RESULT d) s = result_function e d s"
| "manager_logic_case e (LOGIC_RECV_WIOTA_DATA raw) s = manager_recv_wiota_msg e raw s"
| "manager_logic_case e (LOGIC_FROM_NETWORK_MESSAGE m) s = manager_net_data_logic e m s"
| "manager_logic_case e (LOGIC_FROM_HTTP_MESSAGE h) s = do {
     (act, us) \<leftarrow> manager_start_update (ota_of e s) (le_flag e) h (update s, op_task s);
     Some ((put_ota s us)\<lparr>actions := actions s @ [act]\<rparr>)
   }"

text \<open>One round of the loop.\<close>

definition manager_wiota_task :: "logic_env \<Rightarrow> logic_state \<Rightarrow> logic_state option" where
  "manager_wiota_task e s =
     (case logic_queue (op_task s) of
        [] \<Rightarrow> Some s
      | m # ms \<Rightarrow> manager_logic_case e m (s\<lparr>op_task := (op_task s)\<lparr>logic_queue := ms\<rparr>\<rparr>))"

section \<open>Samples\<close>

definition sample_send :: send_env where
  "sample_send = \<lparr>se_code = \<lambda>_ _. True, se_page = True, se_post = Queued, se_net = Net_queued, se_resp = True\<rparr>"

definition sample_env :: logic_env where
  "sample_env =
     \<lparr>le_cfg = sample_cfg, le_send = \<lambda>_ _. sample_send, le_decode = \<lambda>_ _. True, le_packet = Some 16, le_segs = True,
      le_reader = True, le_block = \<lambda>_. Some 8, le_parse = \<lambda>_. None, le_replace_text = \<lambda>a. le32 a, le_ota = sample_ota_env,
      le_json = \<lambda>_. True, le_ids = True, le_beyond = [], le_flag = True, le_reserve = \<lambda>_. True, le_query = \<lambda>_. None, le_timer = True\<rparr>"

definition sample_logic :: logic_state where
  "sample_logic =
     \<lparr>op_task = idle_operation, ids = sample_ids, packets = [], update = sample_update, blocks = Map.empty, net_queue = [], actions = []\<rparr>"

end
