(* ===== verification/Uplink.thy ===== *)
theory Uplink
  imports Logic
begin

unbundle bit_operations_syntax

text \<open>
  Messages from devices through the logic task: decoding undoes coding across the codec and
  the packet store, and a report that was cut into segments is handed on once and whole.
\<close>

section \<open>Segmented reports of devices\<close>

text \<open>The packets that carry the data \<open>d\<close> under the header \<open>h\<close>.\<close>

definition coded :: "app_ps_header_t \<Rightarrow> bytes \<Rightarrow> bytes \<Rightarrow> bool" where
  "coded h d raw \<longleftrightarrow> (\<exists>mo h' buf n. app_data_coding mo (Some h) (Some d) (length d) = Some (0, h', Some (buf, n)) \<and> raw = take n buf)"

lemma coded_wire:
  assumes "coded h d raw" "d \<noteq> []" "length d \<le> 976"
  shows "\<exists>h' pay. payload_ok h d h' pay \<and> raw = header_wire h' @ pay"
proof -
  obtain mo h' buf n where c: "app_data_coding mo (Some h) (Some d) (length d) = Some (0, h', Some (buf, n))" "raw = take n buf"
    using assms(1) by (auto simp: coded_def)
  have m0: "mo 0 (header_size + length d)" using c(1) by (auto simp: app_data_coding_def Let_def split: if_splits)
  have m1: "mo 1 APP_MAX_CODING_DATA_LEN" if "compress_flag (property h)"
    using c(1) that m0 assms(2) by (auto simp: app_data_coding_def Let_def coding_data_def bind_eq_Some_conv split: if_splits)
  obtain h2 pay k where "app_data_coding mo (Some h) (Some d) (length d) = Some (0, h2, Some (filled (header_wire h2 @ pay) k))"
    "payload_ok h d h2 pay"
    using app_data_coding_spec [OF assms(2,3) m0 m1] by blast
  then show ?thesis using c by (auto simp: filled_def)
qed

lemma payload_ok_flags:
  assumes "payload_ok h d h' pay"
  shows "segment_flag (property h') = segment_flag (property h)" "response_flag (property h') = response_flag (property h)"
    "is_packet_num (property h') = is_packet_num (property h)" "is_src_addr (property h') = is_src_addr (property h)"
    "addr h' = addr h" "packet_num h' = packet_num h" "segment_info h' = segment_info h" "cmd_type h' = cmd_type h"
  using assms unfolding payload_ok_def
  by (auto simp: clear_compress_flag_def response_flag_def bit_simps segment_flag_def is_packet_num_def is_src_addr_def split: if_splits)

lemma coded_decoding:
  assumes "coded h d raw" "d \<noteq> []" "length d \<le> 281" "\<And>k n. mo k n"
  shows "\<exists>out h'. app_data_decoding mo (Some raw) (length raw) h0 = Some (0, Some (out, length d), header_received h0 h') \<and>
    (\<exists>pay. payload_ok h d h' pay) \<and> take (length d) out = d"
proof -
  obtain h' pay where p: "payload_ok h d h' pay" "raw = header_wire h' @ pay" using coded_wire [OF assms(1,2)] assms(3) by auto
  show ?thesis using app_data_decoding_spec [OF p(1) assms(2,3), of mo "[]" h0] assms(4) p by auto
qed

lemma decoded_block_take:
  assumes "take n b = d" "length d = n"
  shows "\<exists>blk. decoded_block h (Some (b, n)) = Some blk \<and> take n blk = d \<and> n \<le> length blk"
proof -
  have "n \<le> length b" using assms by (metis length_take min.absorb_iff2 min.commute)
  then show ?thesis using assms by (auto simp: decoded_block_def)
qed

text \<open>The store with the packet of the report last.\<close>

lemma packet_snoc [simp]:
  assumes "a \<notin> fst ` set ps"
  shows "packet_at (ps @ [(a, p)]) (Some a) = Some p" "packet_put (ps @ [(a, p)]) a q = ps @ [(a, q)]"
    "recv_data_packet_remove (ps @ [(a, p)]) (Some a) = Some ps"
proof -
  have n: "map_of ps a = None" using assms by (simp add: map_of_eq_None_iff)
  then show at: "packet_at (ps @ [(a, p)]) (Some a) = Some p" by (simp add: packet_at_def map_add_def)
  have "map (\<lambda>(b, r). (b, if b = a then q else r)) ps = ps" using assms by (induction ps) auto
  then show "packet_put (ps @ [(a, p)]) a q = ps @ [(a, q)]" by (simp add: packet_put_def)
  have "filter (\<lambda>(b, r). b \<noteq> a) ps = ps" using assms by (induction ps) auto
  then show "recv_data_packet_remove (ps @ [(a, p)]) (Some a) = Some ps"
    using at by (simp add: recv_data_packet_remove_def)
qed

lemma find_snoc:
  assumes "recv_data_packet_find ps src pkt = None" "source_id p = src" "packet_id p = pkt"
  shows "recv_data_packet_find (ps @ [(a, p)]) src pkt = Some a"
  using assms by (induction ps) (auto simp: recv_data_packet_find_def split: if_splits)

text \<open>The segments \<open>I\<close> of a report of \<open>n\<close> have arrived.\<close>

definition gathered :: "packet_list \<Rightarrow> nat \<Rightarrow> u32 \<Rightarrow> u32 \<Rightarrow> nat \<Rightarrow> (nat \<Rightarrow> bytes) \<Rightarrow> nat set \<Rightarrow> packet_list \<Rightarrow> bool" where
  "gathered ps a src pkt n f I qs \<longleftrightarrow>
     (if I = {} then qs = ps
      else \<exists>p. qs = ps @ [(a, p)] \<and> assembles n p (\<lambda>i. if i \<in> I then Some (f i) else None) \<and> source_id p = src \<and> packet_id p = pkt)"

lemma find_or_append:
  assumes "gathered ps a src pkt n f I qs" "recv_data_packet_find ps src pkt = None" "0 < n" "unat tot = n"
  shows "\<exists>p. (case recv_data_packet_find qs src pkt of Some b \<Rightarrow> Some (qs, b)
      | None \<Rightarrow> recv_data_packet_append (Some a) True qs src pkt tot) = Some (ps @ [(a, p)], a) \<and>
    assembles n p (\<lambda>i. if i \<in> I then Some (f i) else None) \<and> source_id p = src \<and> packet_id p = pkt"
proof (cases "I = {}")
  case True
  then have qs: "qs = ps" using assms(1) by (simp add: gathered_def)
  obtain p where p: "new_packet True src pkt tot = Some p" "assembles n p Map.empty"
    using new_packet_assembles [of tot src pkt] assms(3,4) by auto
  have "source_id p = src \<and> packet_id p = pkt" using p(1) by (auto simp: new_packet_def bind_eq_Some_conv)
  then show ?thesis using p qs assms(2) True by (simp add: recv_data_packet_append_def)
next
  case False
  then obtain p where "qs = ps @ [(a, p)]" "assembles n p (\<lambda>i. if i \<in> I then Some (f i) else None)" "source_id p = src" "packet_id p = pkt"
    using assms(1) by (auto simp: gathered_def)
  then show ?thesis using find_snoc [OF assms(2)] by simp
qed

lemma recv_segment_step:
  assumes g: "gathered ps a src (ucast (packet_num h)) n f I (packets s)"
    and ps: "recv_data_packet_find ps src (ucast (packet_num h)) = None" "a \<notin> fst ` set ps"
    and e: "le_packet e = Some a" "le_segs e" "le_reader e"
    and h: "unat (total_num (segment_info h)) = n" "unat (current_num (segment_info h)) = i" "i < n" "I \<subseteq> {..<n}"
    and d: "take k blk = f i" "k = length (f i)" "k \<le> length blk" "k < 65536" "\<And>i. i < n \<Longrightarrow> f i \<noteq> []"
  shows "if insert i I = {..<n}
    then recv_segment e src h (Some blk) k s =
      Some (Some (Some (concat (map f [0..<n])), length (concat (map f [0..<n])), False), s\<lparr>packets := ps\<rparr>)
    else \<exists>qs. recv_segment e src h (Some blk) k s = Some (None, s\<lparr>packets := qs\<rparr>) \<and>
      gathered ps a src (ucast (packet_num h)) n f (insert i I) qs"
proof -
  let ?m = "\<lambda>I i. if i \<in> I then Some (f i) else None"
  have n0: "0 < n" and es: "le_segs e = True" using h(3) e(2) by simp_all
  obtain p where p: "(case recv_data_packet_find (packets s) src (ucast (packet_num h)) of Some b \<Rightarrow> Some (packets s, b)
      | None \<Rightarrow> recv_data_packet_append (le_packet e) (le_segs e) (packets s) src (ucast (packet_num h)) (total_num (segment_info h)))
      = Some (ps @ [(a, p)], a)"
    "assembles n p (?m I)" "source_id p = src" "packet_id p = ucast (packet_num h)"
    unfolding e(1) es using find_or_append [OF g ps(1) n0 h(1)] by blast
  obtain p' r where p': "add_segment p (current_num (segment_info h)) (Some blk) (of_nat k) = Some (p', r)"
    "assembles n p' (collect n (current_num (segment_info h), take k blk) (?m I))" "source_id p' = src" "packet_id p' = ucast (packet_num h)"
    using add_segment_assembles [OF p(2) d(3,4), of "current_num (segment_info h)"] p(3,4) by auto
  have "collect n (current_num (segment_info h), take k blk) (?m I) = ?m (insert i I)"
    using h(2,3) d(1) by (auto simp: collect_def)
  then have m: "assembles n p' (?m (insert i I))" using p'(2) by simp
  have add: "recv_data_packet_add_segment (ps @ [(a, p)]) (Some a) (current_num (segment_info h)) (Some blk) (of_nat k) = Some (ps @ [(a, p')], r)"
    using p'(1) ps(2) by (simp add: recv_data_packet_add_segment_def)
  have pk: "packet_ok p'" "segment p' \<noteq> None" "seg_total p' = n" "received p' = ?m (insert i I)" using m by (auto simp: assembles_def)
  have rd: "recv_data_packet_reader (le_reader e) (ps @ [(a, p')]) (Some a) = reader True p'"
    using ps(2) e(3) by (simp add: recv_data_packet_reader_def)
  note rs = reader_spec [OF pk(1,2), unfolded pk(3,4)]
  show ?thesis
  proof (cases "insert i I = {..<n}")
    case True
    have c: "map (the \<circ> ?m (insert i I)) [0..<n] = map f [0..<n]" unfolding True by simp
    have "f i \<in> set (map f [0..<n])" using h(3) by simp
    then have "concat (map f [0..<n]) \<noteq> []" using d(5) [OF h(3)] by auto
    then have "reader True p' = Some (0, Some (concat (map f [0..<n])), length (concat (map f [0..<n])))"
      using rs unfolding c Let_def by (simp add: True del: concat_eq_Nil_conv)
    then show ?thesis using True p(1) add rd ps(2) unfolding recv_segment_def by simp
  next
    case False
    then have "\<exists>j < n. j \<notin> insert i I" using h(3,4) by auto
    then have "reader True p' = Some (1, None, 0)" using rs by auto
    then have "recv_segment e src h (Some blk) k s = Some (None, s\<lparr>packets := ps @ [(a, p')]\<rparr>)"
      using p(1) add rd unfolding recv_segment_def by simp
    then show ?thesis using False m p'(3,4) by (auto simp: gathered_def)
  qed
qed

definition report_cmd :: "u8 \<Rightarrow> bool" where
  "report_cmd c \<longleftrightarrow> c \<in> {APP_CMD_IOTE_PROPERTY_REPORT, APP_CMD_IOTE_STATE_REPORT, APP_CMD_IOTE_PAIR_REQUEST, APP_CMD_IOTE_MUTICAST_REQUEST}"

text \<open>The header of segment \<open>i\<close> of a report.\<close>

definition segment_header :: "app_ps_header_t \<Rightarrow> nat \<Rightarrow> nat \<Rightarrow> app_ps_header_t" where
  "segment_header h n i = h\<lparr>segment_info := \<lparr>total_num = of_nat n, current_num = of_nat i\<rparr>\<rparr>"

definition segmented_report :: "app_ps_header_t \<Rightarrow> bool" where
  "segmented_report h \<longleftrightarrow> segment_flag (property h) \<and> is_packet_num (property h) \<and> is_src_addr (property h) \<and>
     \<not> response_flag (property h) \<and> report_cmd (cmd_type h)"

text \<open>Allocations succeed, the queue of the network task takes messages, and a new packet gets the address \<open>a\<close>.\<close>

definition uplink_env :: "logic_env \<Rightarrow> nat \<Rightarrow> bool" where
  "uplink_env e a \<longleftrightarrow> le_packet e = Some a \<and> le_segs e \<and> le_reader e \<and> (\<forall>k n. le_decode e k n) \<and> se_net (le_send e 0 0) = Net_queued"

definition queued :: "u32 \<Rightarrow> net_body \<Rightarrow> logic_state \<Rightarrow> logic_state" where
  "queued c b s = s\<lparr>net_queue := net_queue s @ [\<lparr>pm_cmd = c, pm_data = b\<rparr>]\<rparr>"

lemma run_report:
  assumes "report_cmd (cmd_type h)" "se_net (le_send e 0 0) = Net_queued"
  shows "run_command e raw h d n s = Some (queued (ucast (cmd_type h)) (Report d n (src_addr (addr h))) s)"
  using assms by (simp add: run_command_def report_cmd_def manager_send_data_logic_to_net_def to_network_data_def queued_def)

lemma recv_msg_step:
  assumes g: "gathered ps a dev (ucast (packet_num h)) n f I (packets s)"
    and ps: "recv_data_packet_find ps dev (ucast (packet_num h)) = None" "a \<notin> fst ` set ps"
    and e: "uplink_env e a" and h: "segmented_report h" "n < 256" "i < n" "I \<subseteq> {..<n}"
    and f: "\<And>i. i < n \<Longrightarrow> f i \<noteq> [] \<and> length (f i) \<le> 281"
    and raw: "coded (segment_header h n i) (f i) raw"
  shows "if insert i I = {..<n}
    then manager_recv_wiota_msg e \<lparr>ri_id = dev, ri_data = raw\<rparr> s =
      Some (queued (ucast (cmd_type h)) (Report (Some (concat (map f [0..<n]))) (length (concat (map f [0..<n]))) (src_addr (addr h)))
        (s\<lparr>packets := ps\<rparr>))
    else \<exists>qs. manager_recv_wiota_msg e \<lparr>ri_id = dev, ri_data = raw\<rparr> s = Some (s\<lparr>packets := qs\<rparr>) \<and>
      gathered ps a dev (ucast (packet_num h)) n f (insert i I) qs"
proof -
  have fi: "f i \<noteq> []" "length (f i) \<le> 281" using f [OF h(3)] by auto
  obtain out h' pay where o: "app_data_decoding (le_decode e) (Some raw) (length raw) empty_header =
      Some (0, Some (out, length (f i)), header_received empty_header h')" "payload_ok (segment_header h n i) (f i) h' pay"
    "take (length (f i)) out = f i"
    using coded_decoding [OF raw fi, of "le_decode e" empty_header] e by (auto simp: uplink_env_def)
  define hr where "hr = header_received empty_header h'"
  have hr: "segment_flag (property hr)" "\<not> response_flag (property hr)" "packet_num hr = packet_num h"
    "src_addr (addr hr) = src_addr (addr h)" "cmd_type hr = cmd_type h"
    "segment_info hr = \<lparr>total_num = of_nat n, current_num = of_nat i\<rparr>"
    using payload_ok_flags [OF o(2)] h(1)
    by (simp_all add: hr_def header_received_def Let_def segmented_report_def segment_header_def)
  obtain blk where blk: "decoded_block hr (Some (out, length (f i))) = Some blk" "take (length (f i)) blk = f i" "length (f i) \<le> length blk"
    using decoded_block_take [OF o(3) refl, of hr] by blast
  have num: "unat (total_num (segment_info hr)) = n" "unat (current_num (segment_info hr)) = i"
    using h(2,3) by (simp_all add: hr(6) unat_of_nat)
  have eu: "le_packet e = Some a" "le_segs e" "le_reader e" "se_net (le_send e 0 0) = Net_queued" using e by (auto simp: uplink_env_def)
  have "length (f i) < 65536" using fi(2) by simp
  from recv_segment_step [OF g [folded hr(3)] ps(1) [folded hr(3)] ps(2) eu(1-3) num h(3,4) blk(2) refl blk(3) this] f
  have seg: "if insert i I = {..<n}
    then recv_segment e dev hr (Some blk) (length (f i)) s =
      Some (Some (Some (concat (map f [0..<n])), length (concat (map f [0..<n])), False), s\<lparr>packets := ps\<rparr>)
    else \<exists>qs. recv_segment e dev hr (Some blk) (length (f i)) s = Some (None, s\<lparr>packets := qs\<rparr>) \<and>
      gathered ps a dev (ucast (packet_num hr)) n f (insert i I) qs" by blast
  have msg: "manager_recv_wiota_msg e \<lparr>ri_id = dev, ri_data = raw\<rparr> s = do {
      (msg, s') \<leftarrow> recv_segment e dev hr (Some blk) (length (f i)) s;
      case msg of None \<Rightarrow> Some s'
      | Some (d', n', freed) \<Rightarrow> do { c_assert (\<not> freed); run_command e \<lparr>ri_id = dev, ri_data = raw\<rparr> hr d' n' s' } }"
    using o(1) hr(1,2) blk(1) by (simp add: manager_recv_wiota_msg_def hr_def [symmetric] cong: option.case_cong)
  have rc: "report_cmd (cmd_type hr)" using h(1) hr(5) by (simp add: segmented_report_def)
  show ?thesis
    using seg msg run_report [OF rc eu(4), where raw = "\<lparr>ri_id = dev, ri_data = raw\<rparr>"]
    by (auto simp: hr split: if_splits)
qed

lemma recv_msg_run:
  assumes ps: "recv_data_packet_find ps dev (ucast (packet_num h)) = None" "a \<notin> fst ` set ps"
    and e: "uplink_env e a" and h: "segmented_report h" "n < 256"
    and f: "\<And>i. i < n \<Longrightarrow> f i \<noteq> [] \<and> length (f i) \<le> 281"
    and raw: "\<And>i. i < n \<Longrightarrow> coded (segment_header h n i) (f i) (raw i)"
    and g: "gathered ps a dev (ucast (packet_num h)) n f I (packets s)" "I \<subset> {..<n}"
    and o: "I \<union> set (os @ [l]) = {..<n}" "I \<union> set os \<noteq> {..<n}"
  shows "run_steps (\<lambda>i. manager_recv_wiota_msg e \<lparr>ri_id = dev, ri_data = raw i\<rparr>) (os @ [l]) s =
    Some (queued (ucast (cmd_type h)) (Report (Some (concat (map f [0..<n]))) (length (concat (map f [0..<n]))) (src_addr (addr h)))
      (s\<lparr>packets := ps\<rparr>))"
  using g o
proof (induction os arbitrary: I s)
  case Nil
  have l: "l < n" using Nil.prems(3) by auto
  have "insert l I = {..<n}" using Nil.prems(3) by auto
  then show ?case using recv_msg_step [OF Nil.prems(1) ps e h l _ f raw [OF l]] Nil.prems(2) by auto
next
  case (Cons i os)
  have i: "i < n" using Cons.prems(3) by auto
  have I: "insert i I \<noteq> {..<n}" "insert i I \<subset> {..<n}" using Cons.prems(3,4) by auto
  obtain qs where q: "manager_recv_wiota_msg e \<lparr>ri_id = dev, ri_data = raw i\<rparr> s = Some (s\<lparr>packets := qs\<rparr>)"
    "gathered ps a dev (ucast (packet_num h)) n f (insert i I) qs"
    using recv_msg_step [OF Cons.prems(1) ps e h i _ f raw [OF i]] Cons.prems(2) I(1) by auto
  have "run_steps (\<lambda>i. manager_recv_wiota_msg e \<lparr>ri_id = dev, ri_data = raw i\<rparr>) (os @ [l]) (s\<lparr>packets := qs\<rparr>) =
    Some (queued (ucast (cmd_type h)) (Report (Some (concat (map f [0..<n]))) (length (concat (map f [0..<n]))) (src_addr (addr h)))
      ((s\<lparr>packets := qs\<rparr>)\<lparr>packets := ps\<rparr>))"
    by (rule Cons.IH [of "insert i I"]) (use q(2) I Cons.prems(3,4) in auto)
  then show ?case using q(1) by simp
qed

section \<open>Samples\<close>

definition sample_report :: app_ps_header_t where
  "sample_report = \<lparr>property = 0xA4, addr = \<lparr>src_addr = 7, dest_addr = 0\<rparr>, packet_num = 3,
     segment_info = \<lparr>total_num = 0, current_num = 0\<rparr>, cmd_type = APP_CMD_IOTE_STATE_REPORT\<rparr>"

definition sample_pieces :: "nat \<Rightarrow> bytes" where
  "sample_pieces i = (if i = 0 then [1, 2] else [3])"

definition sample_raw :: "nat \<Rightarrow> bytes" where
  "sample_raw i = header_wire (segment_header sample_report 2 i) @ sample_pieces i"

lemma sample_coded:
  assumes "i < 2"
  shows "coded (segment_header sample_report 2 i) (sample_pieces i) (sample_raw i)"
proof -
  have "\<not> compress_flag (property (segment_header sample_report 2 i))"
    by (simp add: segment_header_def sample_report_def compress_flag_def)
  then have "app_data_coding (\<lambda>_ _. True) (Some (segment_header sample_report 2 i)) (Some (sample_pieces i)) (length (sample_pieces i)) =
      Some (0, segment_header sample_report 2 i, Some (filled (sample_raw i) (header_size - length (header_wire (segment_header sample_report 2 i)))))"
    unfolding sample_raw_def by (intro app_data_coding_plain) (auto simp: sample_pieces_def APP_MAX_CODING_DATA_LEN_def header_size_def)
  then show ?thesis unfolding coded_def filled_def by (intro exI conjI) (assumption, simp)
qed

lemma sample_segmented: "segmented_report sample_report"
  by (simp add: segmented_report_def report_cmd_def sample_report_def segment_flag_def is_packet_num_def is_src_addr_def response_flag_def)

lemma sample_uplink: "uplink_env sample_env 16"
  by (simp add: uplink_env_def sample_env_def sample_send_def)

lemma sample_arrivals: "set ([1, 1] @ [0]) = {..<2 :: nat}" "set [1, 1] \<noteq> {..<2 :: nat}"
  by (simp_all add: lessThan_Suc numeral_2_eq_2 insert_commute)

lemma sample_pieces_ok: "sample_pieces i \<noteq> [] \<and> length (sample_pieces i) \<le> 281" "0 \<notin> set (sample_pieces i)"
  by (simp_all add: sample_pieces_def)

section \<open>Properties\<close>

text \<open>C3: A report that a device sends in segments reaches the network exactly once and whole.
  Whatever the order in which the segments arrive, and however often some of them are
  repeated, the arrival that completes the report queues one message with its segments in
  order, from the device that sent them, and leaves the packet store as it was before.\<close>

theorem segmented_report_delivered:
  assumes "segmented_report h" "n < 256" "uplink_env e a" "a \<notin> fst ` set (packets s)"
    "recv_data_packet_find (packets s) dev (ucast (packet_num h)) = None"
    "\<And>i. i < n \<Longrightarrow> f i \<noteq> [] \<and> length (f i) \<le> 281"
    "\<And>i. i < n \<Longrightarrow> coded (segment_header h n i) (f i) (raw i)"
    "set (arrivals @ [l]) = {..<n}" "set arrivals \<noteq> {..<n}"
  shows "run_steps (\<lambda>i. manager_recv_wiota_msg e \<lparr>ri_id = dev, ri_data = raw i\<rparr>) (arrivals @ [l]) s =
    Some (s\<lparr>net_queue := net_queue s @ [\<lparr>pm_cmd = ucast (cmd_type h),
      pm_data = Report (Some (concat (map f [0..<n]))) (length (concat (map f [0..<n]))) (src_addr (addr h))\<rparr>]\<rparr>)"
proof -
  have "{} \<subset> {..<n}" using assms(8) by auto
  then show ?thesis
    using recv_msg_run [OF assms(5,4,3,1,2,6,7), of "{}" s arrivals l] assms(8,9) by (simp add: gathered_def queued_def)
qed

theorem segmented_report_delivered_witness:
  "run_steps (\<lambda>i. manager_recv_wiota_msg sample_env \<lparr>ri_id = 0x55, ri_data = sample_raw i\<rparr>) [1, 1, 0] sample_logic =
    Some (sample_logic\<lparr>net_queue := [\<lparr>pm_cmd = 11, pm_data = Report (Some [1, 2, 3]) 3 7\<rparr>]\<rparr>)"
proof -
  have "run_steps (\<lambda>i. manager_recv_wiota_msg sample_env \<lparr>ri_id = 0x55, ri_data = sample_raw i\<rparr>) ([1, 1] @ [0]) sample_logic =
    Some (sample_logic\<lparr>net_queue := net_queue sample_logic @ [\<lparr>pm_cmd = ucast (cmd_type sample_report),
      pm_data = Report (Some (concat (map sample_pieces [0..<2]))) (length (concat (map sample_pieces [0..<2]))) (src_addr (addr sample_report))\<rparr>]\<rparr>)"
    by (rule segmented_report_delivered [OF sample_segmented _ sample_uplink _ _ sample_pieces_ok(1) sample_coded sample_arrivals])
      (simp_all add: sample_logic_def recv_data_packet_find_def)
  moreover have "concat (map sample_pieces [0..<2]) = [1, 2, 3]" by (simp add: sample_pieces_def upt_rec)
  ultimately show ?thesis by (simp add: sample_logic_def sample_report_def APP_CMD_IOTE_STATE_REPORT_def)
qed

end
