(* ===== verification/Downlink.thy ===== *)
theory Downlink
  imports Uplink
begin

unbundle bit_operations_syntax

text \<open>
  Messages of the server through the logic task: the pages of a message to one device, the
  answer that their results give, the size of pages, and the ids that devices are given.
\<close>

section \<open>Messages to one device\<close>

definition send_ok :: "send_env \<Rightarrow> bool" where
  "send_ok e \<longleftrightarrow> (\<forall>k n. se_code e k n) \<and> se_page e \<and> se_post e = Queued \<and> se_net e = Net_queued \<and> se_resp e"

text \<open>The page for data under a header.\<close>

definition downlink_page :: "u32 \<Rightarrow> u32 \<Rightarrow> nat option \<Rightarrow> app_ps_header_t \<Rightarrow> bytes \<Rightarrow> t_app_operation_data" where
  "downlink_page number wid blk h d =
     operation_page number (src_addr (addr h)) (ucast (cmd_type h)) wid (length (header_wire h @ d))
       (Some (header_wire h @ d @ replicate (header_size - length (header_wire h)) 0)) blk RESULT_NETWORK"

definition posting :: "t_app_operation_data list \<Rightarrow> logic_state \<Rightarrow> logic_state" where
  "posting ds s = s\<lparr>op_task := posted (map OPERATION_MSG ds) (op_task s)\<rparr>"

lemma posting_posting [simp]: "posting b (posting a s) = posting (a @ b) s" "posting [] s = s"
  by (simp_all add: posting_def)

lemma posting_frame [simp]:
  "ids (posting a s) = ids s" "blocks (posting a s) = blocks s" "net_queue (posting a s) = net_queue s"
  by (simp_all add: posting_def)

lemma send_packet_unicast:
  assumes "send_ok e" "\<not> compress_flag (property h)" "d \<noteq> []" "length d \<le> 1008"
    "manager_query_wiotaid cfg (dest_addr (addr h)) (ids s) = Some wid"
  shows "manager_send_packet cfg e h blk False number d s = Some (h, posting [downlink_page number wid blk h d] s)"
  using app_data_coding_plain [of d "se_code e" h] assms
  by (simp add: manager_send_packet_def send_ok_def APP_MAX_CODING_DATA_LEN_def header_size_def filled_def post_page_def
      manager_logic_send_to_operater_def to_operation_wiota_data_def downlink_page_def posting_def posted_def)

lemma max_len_unicast: "max_len False = 294"
  by (simp add: max_len_def UC_WIOTA_MAX_SEND_NORMAL_DATA_LEN_def header_size_def)

text \<open>The pieces of a message and the pages that carry them.\<close>

fun pieces :: "nat \<Rightarrow> bytes \<Rightarrow> bytes list" where
  "pieces 0 d = []"
| "pieces (Suc k) d = take 294 d # pieces k (drop 294 d)"

fun segment_pages :: "u32 \<Rightarrow> u32 \<Rightarrow> nat \<Rightarrow> app_ps_header_t \<Rightarrow> bytes list \<Rightarrow> t_app_operation_data list" where
  "segment_pages number wid blk h [] = []"
| "segment_pages number wid blk h (d # ds) = downlink_page number wid (Some blk) h d # segment_pages number wid blk (next_segment h) ds"

lemma pieces_concat: "length d \<le> 294 * k \<Longrightarrow> concat (pieces k d) = d"
proof (induction k arbitrary: d)
  case (Suc k)
  then show ?case by simp
qed simp

lemma pieces_length [simp]: "length (pieces k d) = k"
  by (induction k arbitrary: d) simp_all

lemma segment_pages_length [simp]: "length (segment_pages number wid blk h ds) = length ds"
  by (induction ds arbitrary: h) simp_all

lemma next_segment_frame [simp]:
  "property (next_segment h) = property h" "addr (next_segment h) = addr h" "cmd_type (next_segment h) = cmd_type h"
  by (simp_all add: next_segment_def)

lemma send_segments_unicast:
  assumes "\<And>k. send_ok (e k)" "\<not> compress_flag (property h)"
    "manager_query_wiotaid cfg (dest_addr (addr h)) (ids s) = Some wid" "294 * k < length d + 294" "length d \<le> 294 * k"
  shows "send_segments cfg e j h blk False number d s = Some (posting (segment_pages number wid blk h (pieces k d)) s)"
  using assms(2-)
proof (induction k arbitrary: j h d s)
  case 0
  then show ?case by (simp add: send_segments.simps)
next
  case (Suc k)
  have d: "d \<noteq> []" using Suc.prems(3) by auto
  have "manager_send_packet cfg (e j) h (Some blk) False number (take 294 d) s =
      Some (h, posting [downlink_page number wid (Some blk) h (take 294 d)] s)"
    by (rule send_packet_unicast [OF assms(1) Suc.prems(1)]) (use d Suc.prems(2) in simp_all)
  moreover have "send_segments cfg e (j + 1) (next_segment h) blk False number (drop 294 d)
      (posting [downlink_page number wid (Some blk) h (take 294 d)] s) =
    Some (posting (segment_pages number wid blk (next_segment h) (pieces k (drop 294 d)))
      (posting [downlink_page number wid (Some blk) h (take 294 d)] s))"
    by (rule Suc.IH) (use Suc.prems in auto)
  ultimately show ?case using d by (subst send_segments.simps) (simp add: max_len_unicast)
qed

text \<open>The pages for a message: one, or one for each piece, which share a block.\<close>

definition piece_count :: "bytes \<Rightarrow> nat" where
  "piece_count d = (length d + 293) div 294"

definition message_pages :: "t_from_network_message \<Rightarrow> u32 \<Rightarrow> u32 \<Rightarrow> nat \<Rightarrow> bytes \<Rightarrow> t_app_operation_data list" where
  "message_pages m a wid blk d =
     (if length d \<le> 294 then [downlink_page (request_number m) wid None (downlink_header False 0 m a) d]
      else segment_pages (request_number m) wid blk (downlink_header True (of_nat (piece_count d)) m a) (pieces (piece_count d) d))"

definition with_block :: "nat \<Rightarrow> bytes \<Rightarrow> logic_state \<Rightarrow> logic_state" where
  "with_block blk d s =
     (if length d \<le> 294 then s else s\<lparr>blocks := (blocks s)(blk \<mapsto> (MANAGER_SEND_SUCCESS, of_nat (piece_count d)))\<rparr>)"

lemma downlink_plain: "\<not> compress_flag (property (downlink_header sg t m a))"
  by (simp add: downlink_header_def downlink_property_def app_set_header_property_def compress_flag_def Let_def bit_simps
      PRO_DEST_ADDR_def PRO_SRC_ADDR_def PRO_NEED_RES_def PRO_PACKET_NUM_def PRO_SEGMENT_FLAG_def)

lemma downlink_dest [simp]: "dest_addr (addr (downlink_header sg t m a)) = a"
  "src_addr (addr (downlink_header sg t m a)) = SERVER_DEFAULT_ADDRESS"
  by (simp_all add: downlink_header_def)

lemma piece_count_bounds: "294 * piece_count d < length d + 294" "length d \<le> 294 * piece_count d"
  unfolding piece_count_def by linarith+

lemma send_unicast:
  assumes "\<And>k. send_ok (le_send e num k)" "\<not> is_broadcast a" "json_data m = Some d" "d \<noteq> []"
    "le_block e num = Some blk" "manager_query_wiotaid (le_cfg e) a (ids s) = Some wid"
  shows "send_to_destination e m num a s = Some (posting (message_pages m a wid blk d) (with_block blk d s))"
proof (cases "length d \<le> 294")
  case True
  have "manager_send_packet (le_cfg e) (le_send e num 0) (downlink_header False 0 m a) None False (request_number m) d s =
      Some (downlink_header False 0 m a, posting [downlink_page (request_number m) wid None (downlink_header False 0 m a) d] s)"
    by (rule send_packet_unicast [OF assms(1) downlink_plain]) (use True assms in simp_all)
  then show ?thesis using True assms(2-5)
    by (simp add: send_to_destination_def max_len_unicast message_pages_def with_block_def)
next
  case False
  let ?h = "downlink_header True (of_nat (piece_count d)) m a"
  have "send_segments (le_cfg e) (le_send e num) 0 ?h blk False (request_number m) d (with_block blk d s) =
      Some (posting (segment_pages (request_number m) wid blk ?h (pieces (piece_count d) d)) (with_block blk d s))"
    by (rule send_segments_unicast [OF assms(1) downlink_plain _ piece_count_bounds]) (use assms(6) in \<open>simp add: with_block_def\<close>)
  then show ?thesis using False assms(2-5)
    by (simp add: send_to_destination_def max_len_unicast message_pages_def with_block_def piece_count_def Let_def add.commute)
qed

section \<open>Results of messages\<close>

text \<open>The pages of one request that share a block.\<close>

definition page_of :: "nat option \<Rightarrow> u32 \<Rightarrow> t_app_operation_data \<Rightarrow> bool" where
  "page_of blk number d \<longleftrightarrow> od_segment d = blk \<and> oh_src_address (od_head d) = SERVER_DEFAULT_ADDRESS \<and> oh_request_number (od_head d) = number"

definition failed :: "t_app_operation_data \<Rightarrow> bool" where
  "failed d \<longleftrightarrow> oh_state (od_head d) = MANAGER_SEND_FAIL"

definition overall :: "t_app_operation_data list \<Rightarrow> nat" where
  "overall ds = (if \<exists>d \<in> set ds. failed d then MANAGER_SEND_FAIL else MANAGER_SEND_SUCCESS)"

lemma response_queued:
  assumes "send_ok e"
  shows "manager_response_message_result e r number s = Some (queued MANAGER_LOGIC_MQTT_EXE_RESPONSE (Response number r) s)"
  using assms
  by (simp add: manager_response_message_result_def send_ok_def manager_send_data_logic_to_net_def to_network_data_def queued_def)

lemma queued_frame [simp]:
  "blocks (queued c b s) = blocks s" "(queued c b s)\<lparr>blocks := f\<rparr> = queued c b (s\<lparr>blocks := f\<rparr>)" "op_task (queued c b s) = op_task s"
  by (simp_all add: queued_def)

lemma results_run:
  assumes "send_ok e" "\<forall>d \<in> set (d0 # ds). page_of (Some blk) number d" "blocks s blk = Some (st, of_nat (Suc (length ds)))"
    "length ds < 255"
  shows "run_steps (manager_network_to_wiota_result e) (d0 # ds) s =
    Some (queued MANAGER_LOGIC_MQTT_EXE_RESPONSE
      (Response number (if \<exists>d \<in> set (d0 # ds). failed d then MANAGER_SEND_FAIL else st)) (s\<lparr>blocks := (blocks s)(blk := None)\<rparr>))"
  using assms(2-)
proof (induction ds arbitrary: d0 st s)
  case Nil
  then show ?case using assms(1)
    by (simp add: manager_network_to_wiota_result_def page_of_def Let_def response_queued failed_def fun_upd_def cong: if_cong)
next
  case (Cons d ds)
  let ?st = "if failed d0 then MANAGER_SEND_FAIL else st"
  have "unat (of_nat (Suc (length ds)) :: u8) = Suc (length ds)"
    unfolding unat_of_nat using Cons.prems(3) by (simp del: of_nat_Suc)
  then have n: "(of_nat (Suc (length ds)) :: u8) \<noteq> 0" by (metis unat_0 nat.distinct(1))
  define w :: u8 where "w = of_nat (Suc (length ds))"
  have b: "blocks s blk = Some (st, w + 1)" using Cons.prems(2) by (simp add: w_def add.commute)
  have step: "manager_network_to_wiota_result e d0 s = Some (s\<lparr>blocks := (blocks s)(blk \<mapsto> (?st, w))\<rparr>)"
    using Cons.prems(1) b n unfolding w_def [symmetric]
    by (simp add: manager_network_to_wiota_result_def page_of_def failed_def Let_def)
  let ?s = "s\<lparr>blocks := (blocks s)(blk \<mapsto> (?st, w))\<rparr>"
  have "run_steps (manager_network_to_wiota_result e) (d # ds) ?s =
    Some (queued MANAGER_LOGIC_MQTT_EXE_RESPONSE
      (Response number (if \<exists>d \<in> set (d # ds). failed d then MANAGER_SEND_FAIL else ?st)) (?s\<lparr>blocks := (blocks ?s)(blk := None)\<rparr>))"
    by (rule Cons.IH) (use Cons.prems w_def in simp_all)
  moreover define s2 where "s2 = s\<lparr>blocks := (blocks s)(blk := None)\<rparr>"
  have "?s\<lparr>blocks := (blocks ?s)(blk := None)\<rparr> = s2" by (simp add: s2_def)
  ultimately show ?case using step unfolding s2_def [symmetric] by auto
qed

lemma segment_pages_of: "src_addr (addr h) = SERVER_DEFAULT_ADDRESS \<Longrightarrow>
  \<forall>d \<in> set (segment_pages number wid blk h ds). page_of (Some blk) number d"
proof (induction ds arbitrary: h)
  case (Cons d ds)
  then show ?case using Cons.IH [of "next_segment h"] by (simp add: page_of_def downlink_page_def operation_page_def)
qed simp

lemma message_pages_of:
  "\<forall>d' \<in> set (message_pages m a wid blk d). page_of (if length d \<le> 294 then None else Some blk) (request_number m) d'"
  using segment_pages_of [of "downlink_header True (of_nat (piece_count d)) m a"]
  by (simp add: message_pages_def page_of_def downlink_page_def operation_page_def)

lemma pages_of_request:
  assumes "pages rs = pages ds" "\<forall>d \<in> set ds. page_of blk number d"
  shows "\<forall>d \<in> set rs. page_of blk number d" "length rs = length ds"
proof -
  have p: "page_of blk number (set_state n d) = page_of blk number d" for n d by (simp add: page_of_def set_state_def)
  have "set_mset (pages rs) = set_mset (pages ds)" using assms(1) by simp
  then have s: "set_state 0 ` set rs = set_state 0 ` set ds" by (simp add: pages_def MANAGER_SEND_DEFAULT_def)
  show "\<forall>d \<in> set rs. page_of blk number d"
  proof
    fix d assume "d \<in> set rs"
    then obtain d' where "d' \<in> set ds" "set_state 0 d = set_state 0 d'" using s by (metis (no_types, lifting) image_iff)
    then show "page_of blk number d" using assms(2) p by metis
  qed
  have "size (pages rs) = size (pages ds)" using assms(1) by simp
  then show "length rs = length ds" by (simp add: pages_def)
qed

lemma message_results:
  assumes "send_ok e" "d \<noteq> []" "length d \<le> 294 * 255" "pages rs = pages (message_pages m a wid blk d)"
    "\<forall>r \<in> set rs. oh_state (od_head r) \<in> {MANAGER_SEND_SUCCESS, MANAGER_SEND_FAIL}"
    "blocks s = blocks (with_block blk d s0)"
  shows "\<exists>s'. run_steps (manager_network_to_wiota_result e) rs s = Some s' \<and>
    net_queue s' = net_queue s @ [\<lparr>pm_cmd = MANAGER_LOGIC_MQTT_EXE_RESPONSE, pm_data = Response (request_number m) (overall rs)\<rparr>] \<and>
    blocks s' = (if length d \<le> 294 then blocks s else (blocks s)(blk := None)) \<and> op_task s' = op_task s"
proof (cases "length d \<le> 294")
  case True
  have r: "\<forall>r \<in> set rs. page_of None (request_number m) r" "length rs = 1"
    using pages_of_request [OF assms(4) message_pages_of] True by (simp_all add: message_pages_def)
  then obtain x where x: "rs = [x]" by (cases rs) auto
  then have "oh_state (od_head x) = overall rs" using assms(5) by (auto simp: overall_def failed_def MANAGER_SEND_SUCCESS_def MANAGER_SEND_FAIL_def)
  then show ?thesis using r(1) x assms(1) True
    by (simp add: manager_network_to_wiota_result_def Let_def page_of_def response_queued queued_def)
next
  case False
  have r: "\<forall>r \<in> set rs. page_of (Some blk) (request_number m) r" "length rs = piece_count d"
    using pages_of_request [OF assms(4) message_pages_of] False by (simp_all add: message_pages_def)
  have n: "0 < piece_count d" "piece_count d \<le> 255" using assms(2,3) piece_count_bounds [of d] by (cases "piece_count d", auto)
  then obtain x xs where x: "rs = x # xs" "length xs < 255" using r(2) by (cases rs) auto
  have "blocks s blk = Some (MANAGER_SEND_SUCCESS, of_nat (Suc (length xs)))"
    using assms(6) False r(2) x(1) by (simp add: with_block_def)
  from results_run [OF assms(1) r(1) [unfolded x(1)] this x(2)] show ?thesis
    using False x(1) by (auto simp: queued_def overall_def)
qed

section \<open>Samples\<close>

definition sample_message :: t_from_network_message where
  "sample_message = \<lparr>dest_len = 4, dest_address = Some [7], nm_cmd = APP_CMD_NET_CTRL_IOTE, request_number = 9,
     json_data = Some (replicate 300 65)\<rparr>"

lemma sample_send_ok: "send_ok sample_send" "send_ok (le_send sample_env n k)"
  by (simp_all add: send_ok_def sample_send_def sample_env_def)

section \<open>Answers\<close>

text \<open>C10: Every message of the server to one device is cut into pieces that together are the
  message, and is answered exactly once: when the operation task has reported the results
  of its pages, in whatever order, the network task has been sent one response, which tells
  of a failure if and only if some page failed, and the block that the pages shared is
  released.\<close>

theorem unicast_answered_once:
  assumes "\<And>k. send_ok (le_send e num k)" "send_ok e'" "\<not> is_broadcast a" "json_data m = Some d" "d \<noteq> []" "length d \<le> 294 * 255"
    "le_block e num = Some blk" "blocks s blk = None" "manager_query_wiotaid (le_cfg e) a (ids s) = Some wid"
    "pages rs = pages (message_pages m a wid blk d)" "\<forall>r \<in> set rs. oh_state (od_head r) \<in> {MANAGER_SEND_SUCCESS, MANAGER_SEND_FAIL}"
  shows "\<exists>s1 s2. send_to_destination e m num a s = Some s1 \<and>
    operation_queue (op_task s1) = operation_queue (op_task s) @ map OPERATION_MSG (message_pages m a wid blk d) \<and>
    concat (pieces (piece_count d) d) = d \<and>
    run_steps (manager_network_to_wiota_result e') rs s1 = Some s2 \<and>
    net_queue s2 = net_queue s @ [\<lparr>pm_cmd = MANAGER_LOGIC_MQTT_EXE_RESPONSE,
      pm_data = Response (request_number m) (if \<exists>r \<in> set rs. oh_state (od_head r) = MANAGER_SEND_FAIL then MANAGER_SEND_FAIL else MANAGER_SEND_SUCCESS)\<rparr>] \<and>
    blocks s2 = blocks s"
proof -
  let ?s1 = "posting (message_pages m a wid blk d) (with_block blk d s)"
  have s1: "send_to_destination e m num a s = Some ?s1" by (rule send_unicast [OF assms(1,3-5,7,9)])
  have q: "operation_queue (op_task ?s1) = operation_queue (op_task s) @ map OPERATION_MSG (message_pages m a wid blk d)"
    "net_queue ?s1 = net_queue s" "blocks ?s1 = blocks (with_block blk d s)"
    by (simp_all add: posting_def posted_def with_block_def)
  obtain s2 where s2: "run_steps (manager_network_to_wiota_result e') rs ?s1 = Some s2"
    "net_queue s2 = net_queue ?s1 @ [\<lparr>pm_cmd = MANAGER_LOGIC_MQTT_EXE_RESPONSE, pm_data = Response (request_number m) (overall rs)\<rparr>]"
    "blocks s2 = (if length d \<le> 294 then blocks ?s1 else (blocks ?s1)(blk := None))"
    using message_results [OF assms(2,5,6,10,11) q(3)] by blast
  have "blocks s2 = blocks s" using s2(3) assms(8) unfolding q(3) by (auto simp: with_block_def)
  then show ?thesis using s1 q s2(1,2) pieces_concat [OF piece_count_bounds(2)] by (auto simp: overall_def failed_def)
qed

theorem unicast_answered_once_witness:
  "\<exists>p q s1 s2. message_pages sample_message 7 7 8 (replicate 300 65) = [p, q] \<and>
    send_to_destination sample_env sample_message 0 7 sample_logic = Some s1 \<and>
    run_steps (manager_network_to_wiota_result sample_send) [set_state MANAGER_SEND_FAIL q, set_state MANAGER_SEND_SUCCESS p] s1 = Some s2 \<and>
    net_queue s2 = [\<lparr>pm_cmd = MANAGER_LOGIC_MQTT_EXE_RESPONSE, pm_data = Response 9 MANAGER_SEND_FAIL\<rparr>]"
proof -
  let ?d = "replicate 300 65 :: bytes"
  have n: "piece_count ?d = 2" by (simp add: piece_count_def)
  have "length (message_pages sample_message 7 7 8 ?d) = 2" using n by (simp add: message_pages_def)
  then obtain p q where ps: "message_pages sample_message 7 7 8 ?d = [p, q]" by (auto simp: numeral_2_eq_2 length_Suc_conv)
  let ?rs = "[set_state MANAGER_SEND_FAIL q, set_state MANAGER_SEND_SUCCESS p]"
  have b: "\<not> is_broadcast 7" by code_simp
  have j: "json_data sample_message = Some ?d" by (simp add: sample_message_def)
  have w: "manager_query_wiotaid (le_cfg sample_env) 7 (ids sample_logic) = Some 7"
    unfolding sample_env_def sample_logic_def logic_env.simps logic_state.simps by code_simp
  have "\<exists>s1 s2. send_to_destination sample_env sample_message 0 7 sample_logic = Some s1 \<and>
    operation_queue (op_task s1) = operation_queue (op_task sample_logic) @ map OPERATION_MSG (message_pages sample_message 7 7 8 ?d) \<and>
    concat (pieces (piece_count ?d) ?d) = ?d \<and>
    run_steps (manager_network_to_wiota_result sample_send) ?rs s1 = Some s2 \<and>
    net_queue s2 = net_queue sample_logic @ [\<lparr>pm_cmd = MANAGER_LOGIC_MQTT_EXE_RESPONSE,
      pm_data = Response (request_number sample_message)
        (if \<exists>r \<in> set ?rs. oh_state (od_head r) = MANAGER_SEND_FAIL then MANAGER_SEND_FAIL else MANAGER_SEND_SUCCESS)\<rparr>] \<and>
    blocks s2 = blocks sample_logic"
    by (rule unicast_answered_once [OF sample_send_ok(2,1) b j _ _ _ _ w])
      (simp_all add: ps sample_env_def sample_logic_def)
  moreover have "net_queue sample_logic = []" "request_number sample_message = 9" by (simp_all add: sample_logic_def sample_message_def)
  ultimately show ?thesis using ps by auto
qed

section \<open>Pages that no receiver decodes\<close>

lemma segment_pages_nth:
  "i < length ds \<Longrightarrow> segment_pages number wid blk h ds ! i = downlink_page number wid (Some blk) ((next_segment ^^ i) h) (ds ! i)"
proof (induction ds arbitrary: h i)
  case (Cons d ds)
  then show ?case by (cases i) (simp_all add: funpow_swap1)
qed simp

lemma pieces_nth: "i < k \<Longrightarrow> pieces k d ! i = take 294 (drop (294 * i) d)"
proof (induction k arbitrary: d i)
  case (Suc k)
  then show ?case by (cases i) (simp_all add: add.commute)
qed simp

lemma next_segment_property: "property ((next_segment ^^ i) h) = property h"
  by (induction i) simp_all

lemma downlink_wire_length:
  assumes "property h = downlink_property b True"
  shows "length (header_wire h) = 13"
proof -
  have "is_src_addr (property h)" "is_dest_addr (property h)" "is_packet_num (property h)" "segment_flag (property h)"
    using assms
    by (auto simp: downlink_property_def app_set_header_property_def Let_def bit_simps PRO_DEST_ADDR_def PRO_SRC_ADDR_def
        PRO_NEED_RES_def PRO_PACKET_NUM_def PRO_SEGMENT_FLAG_def is_src_addr_def is_dest_addr_def is_packet_num_def segment_flag_def)
  then show ?thesis by (simp add: header_wire_def Let_def)
qed

text \<open>C40: The pieces of a long message are too long for the codec.  A piece takes up to 294
  bytes and its header 13 more, while decoding accepts 294 bytes in all: every page of such
  a message but the last is refused by the decoder.\<close>

theorem downlink_segment_rejected:
  assumes "length d > 294" "Suc i < piece_count d"
  shows "app_data_decoding mo (od_pload (message_pages m a wid blk d ! i)) (od_len (message_pages m a wid blk d ! i)) h0 = Some (-1, None, h0)"
proof -
  let ?h = "(next_segment ^^ i) (downlink_header True (of_nat (piece_count d)) m a)"
  let ?d = "take 294 (drop (294 * i) d)"
  have p: "message_pages m a wid blk d ! i = downlink_page (request_number m) wid (Some blk) ?h ?d"
    using assms by (simp add: message_pages_def segment_pages_nth pieces_nth)
  have "294 * Suc (Suc i) \<le> 294 * piece_count d" using assms(2) by (intro mult_left_mono) simp_all
  then have "294 * Suc (Suc i) < length d + 294" using piece_count_bounds(1) [of d] by linarith
  then have "length ?d = 294" by simp
  moreover have "length (header_wire ?h) = 13"
    by (rule downlink_wire_length [of _ "is_broadcast a"]) (simp add: next_segment_property downlink_header_def)
  ultimately show ?thesis unfolding p
    by (simp add: downlink_page_def operation_page_def app_data_decoding_def APP_MAX_DECODING_DATA_LEN_def header_size_def)
qed

theorem downlink_segment_rejected_witness:
  "app_data_decoding (\<lambda>_ _. True) (od_pload (message_pages sample_message 7 7 8 (replicate 300 65) ! 0))
     (od_len (message_pages sample_message 7 7 8 (replicate 300 65) ! 0)) empty_header = Some (-1, None, empty_header)"
  by (rule downlink_segment_rejected) (simp_all add: piece_count_def)

section \<open>New ids\<close>

definition replace_request :: "app_ps_header_t \<Rightarrow> bool" where
  "replace_request h \<longleftrightarrow> \<not> segment_flag (property h) \<and> \<not> response_flag (property h) \<and> is_src_addr (property h) \<and>
     cmd_type h = APP_CMD_AP_REQUEST_IOTE_REPLACE_ADDR"

definition replace_page :: "u32 \<Rightarrow> bytes \<Rightarrow> t_app_operation_data" where
  "replace_page wid text = (let w = header_wire (ota_header APP_CMD_IOTE_RESPONSE_REPLACE_ADDR) in
     operation_page 0 AP_DEFAULT_ADDRESS (ucast APP_CMD_IOTE_RESPONSE_REPLACE_ADDR) wid (length (w @ text))
       (Some (w @ text @ replicate (header_size - length w) 0)) None RESULT_REPLACE)"

lemma replace_response_posted:
  assumes "send_ok e" "text new \<noteq> []" "length (text new) \<le> 1008"
  shows "manager_send_replace_response e text (AP_DEFAULT_ADDRESS, wid, new) s = Some (posting [replace_page wid (text new)] s)"
proof -
  have "cmd_type (ota_header APP_CMD_IOTE_RESPONSE_REPLACE_ADDR) = APP_CMD_IOTE_RESPONSE_REPLACE_ADDR" by (simp add: ota_header_def)
  then show ?thesis
    using app_data_coding_plain [of "text new" "se_code e" "ota_header APP_CMD_IOTE_RESPONSE_REPLACE_ADDR"] ota_header_plain assms
    by (simp add: manager_send_replace_response_def send_ok_def APP_MAX_CODING_DATA_LEN_def header_size_def filled_def post_page_def
        manager_logic_send_to_operater_def to_operation_wiota_data_def replace_page_def posting_def posted_def Let_def)
qed

lemma recv_unsegmented:
  assumes "coded h d raw" "d \<noteq> []" "length d \<le> 281" "\<And>k n. le_decode e k n" "replace_request h"
  shows "\<exists>h' b n. manager_recv_wiota_msg e \<lparr>ri_id = wid, ri_data = raw\<rparr> s = run_command e \<lparr>ri_id = wid, ri_data = raw\<rparr> h' b n s \<and>
    cmd_type h' = cmd_type h \<and> src_addr (addr h') = src_addr (addr h)"
proof -
  obtain out h' pay where o: "app_data_decoding (le_decode e) (Some raw) (length raw) empty_header =
      Some (0, Some (out, length d), header_received empty_header h')" "payload_ok h d h' pay"
    using coded_decoding [OF assms(1-3), of "le_decode e" empty_header] assms(4) by auto
  define hr where "hr = header_received empty_header h'"
  have hr: "\<not> segment_flag (property hr)" "\<not> response_flag (property hr)" "cmd_type hr = cmd_type h" "src_addr (addr hr) = src_addr (addr h)"
    using payload_ok_flags [OF o(2)] assms(5) by (simp_all add: hr_def header_received_def Let_def replace_request_def)
  show ?thesis using o(1) hr unfolding hr_def [symmetric]
    by (intro exI [of _ hr] exI [of _ "decoded_block hr (Some (out, length d))"] exI [of _ "length d"])
      (simp add: manager_recv_wiota_msg_def c_assert_def Let_def)
qed


definition sample_replace :: app_ps_header_t where
  "sample_replace = \<lparr>property = 0x80, addr = \<lparr>src_addr = 7, dest_addr = 0\<rparr>, packet_num = 0,
     segment_info = \<lparr>total_num = 0, current_num = 0\<rparr>, cmd_type = APP_CMD_AP_REQUEST_IOTE_REPLACE_ADDR\<rparr>"


end
