(* ===== verification/LogicTypes.thy ===== *)
theory LogicTypes
  imports Downlink
begin

unbundle bit_operations_syntax

text \<open>
  The data of the logic task stay well-formed: every round keeps the packet store, the
  table of ids and the bitmap of the update in the form that the operations on them need.
\<close>

section \<open>Well-formed states\<close>

text \<open>The packet store is consistent, the table of ids has its size, and the bitmap its bytes.\<close>

definition table_ok :: "sub_system_config_t \<Rightarrow> uid_state \<Rightarrow> bool" where
  "table_ok cfg i \<longleftrightarrow> unat (id_reallocated_index i) < all_index cfg \<and>
     (\<forall>hash. reserve_addr_hash i = Some hash \<longrightarrow> length hash = all_index cfg)"

definition flags_ok :: "t_manager_update \<Rightarrow> bool" where
  "flags_ok u \<longleftrightarrow> (\<forall>f. rem_sub_flag u = Some f \<longrightarrow> sub_flag_num u \<le> length f)"

definition logic_wf :: "sub_system_config_t \<Rightarrow> logic_state \<Rightarrow> bool" where
  "logic_wf cfg s \<longleftrightarrow> packets_ok (packets s) \<and> table_ok cfg (ids s) \<and> flags_ok (update s)"

text \<open>Sending leaves those parts of the state alone.\<close>

definition same_parts :: "logic_state \<Rightarrow> logic_state \<Rightarrow> bool" where
  "same_parts s s' \<longleftrightarrow> packets s' = packets s \<and> ids s' = ids s \<and> update s' = update s"

lemma same_parts_trans: "same_parts s t \<Longrightarrow> same_parts t u \<Longrightarrow> same_parts s u"
  by (simp add: same_parts_def)

lemma same_parts_refl [simp]: "same_parts s s"
  by (simp add: same_parts_def)

lemma wf_same_parts: "same_parts s s' \<Longrightarrow> logic_wf cfg s \<Longrightarrow> logic_wf cfg s'"
  by (simp add: same_parts_def logic_wf_def)

lemma same_to_network [simp]: "same_parts s (snd (to_network_data e c d s))" "same_parts s (snd (manager_send_data_logic_to_net e c d s))"
  by (cases e; simp add: same_parts_def to_network_data_def manager_send_data_logic_to_net_def)+

lemma same_response: "manager_response_message_result e r n s = Some s' \<Longrightarrow> same_parts s s'"
  by (auto simp: manager_response_message_result_def bind_eq_Some_conv)

lemma same_post: "post_page e ty d s = Some s' \<Longrightarrow> same_parts s s'"
  by (auto simp: post_page_def bind_eq_Some_conv same_parts_def)

lemma same_send_packet: "manager_send_packet cfg e h b br n d s = Some (h', s') \<Longrightarrow> same_parts s s'"
  by (auto simp: manager_send_packet_def Let_def bind_eq_Some_conv split: if_splits
      dest!: same_post same_response intro: same_parts_trans)

lemma same_send_segments: "send_segments cfg e k h b br n d s = Some s' \<Longrightarrow> same_parts s s'"
proof (induction cfg e k h b br n d s rule: send_segments.induct)
  case (1 cfg e k h b br n d s)
  show ?case
  proof (cases "d = []")
    case True
    then show ?thesis using "1.prems" by (simp add: send_segments.simps [of cfg e k])
  next
    case False
    then obtain h' t where t: "manager_send_packet cfg (e k) h (Some b) br n (take (max_len br) d) s = Some (h', t)"
      "send_segments cfg e (k + 1) (next_segment h') b br n (drop (max_len br) d) t = Some s'"
      using "1.prems" by (auto simp: send_segments.simps [of cfg e k] bind_eq_Some_conv)
    then show ?thesis using "1.IH" [OF False t(1) refl t(2)] same_send_packet same_parts_trans by blast
  qed
qed

lemma same_destination: "send_to_destination e m n a s = Some s' \<Longrightarrow> same_parts s s'"
  by (fastforce simp: send_to_destination_def Let_def bind_eq_Some_conv same_parts_def split: if_splits
      dest!: same_send_packet same_send_segments)

lemma same_destinations: "send_to_destinations e m n as s = Some s' \<Longrightarrow> same_parts s s'"
  by (induction as arbitrary: n s) (auto simp: bind_eq_Some_conv intro: same_parts_trans same_destination)

lemma same_send_msg: "manager_send_msg_to_wiota e m s = Some s' \<Longrightarrow> same_parts s s'"
  by (auto simp: manager_send_msg_to_wiota_def bind_eq_Some_conv split: if_splits dest!: same_destinations)

lemma same_network_result: "manager_network_to_wiota_result e d s = Some s' \<Longrightarrow> same_parts s s'"
  by (auto simp: manager_network_to_wiota_result_def Let_def bind_eq_Some_conv same_parts_def
      split: if_splits option.splits prod.splits dest!: same_response)

lemma same_replace: "manager_send_replace_response e t x s = Some s' \<Longrightarrow> same_parts s s'"
  by (cases x) (auto simp: manager_send_replace_response_def bind_eq_Some_conv split: if_splits dest!: same_post)

lemma same_replaces: "run_steps (manager_send_replace_response e t) xs s = Some s' \<Longrightarrow> same_parts s s'"
  by (induction xs arbitrary: s) (auto simp: bind_eq_Some_conv dest!: same_replace intro: same_parts_trans)

section \<open>The parts\<close>

text \<open>The bitmap is only replaced by one of its length, or by a new one with its size.\<close>

definition same_flags :: "t_manager_update \<Rightarrow> t_manager_update \<Rightarrow> bool" where
  "same_flags u u' \<longleftrightarrow> sub_flag_num u' = sub_flag_num u \<and> map_option length (rem_sub_flag u') = map_option length (rem_sub_flag u)"

lemma flags_ok_same: "same_flags u u' \<Longrightarrow> flags_ok u \<Longrightarrow> flags_ok u'"
  by (cases "rem_sub_flag u") (auto simp: same_flags_def flags_ok_def)

lemma flags_of_data: "manager_ota_msg_of_data e u = Some (d, u') \<Longrightarrow> same_flags u u'"
  by (auto simp: manager_ota_msg_of_data_def Let_def bind_eq_Some_conv same_flags_def split: option.splits)

lemma flags_send_page: "manager_start_send_page e (u, s) = Some (r, u', s') \<Longrightarrow> same_flags u u'"
  by (auto simp: manager_start_send_page_def Let_def bind_eq_Some_conv same_flags_def split: option.splits dest!: flags_of_data)

lemma flags_msg_result: "manager_ota_msg_result e (u, s) = Some (u', s') \<Longrightarrow> same_flags u u'"
  by (auto simp: manager_ota_msg_result_def dest!: flags_send_page)

lemma flags_resend: "manager_resend_data e (u, s) = Some (u', s') \<Longrightarrow> same_flags u u'"
  by (auto simp: manager_resend_data_def manager_clean_resend_sub_flag_def Let_def bind_eq_Some_conv same_flags_def
      split: option.splits if_splits dest!: flags_of_data)

lemma set_flag_loop_length: "set_flag_loop f a n = Some f' \<Longrightarrow> length f' = length f"
proof (induction f a n rule: set_flag_loop.induct)
  case (1 f a n)
  then show ?case by (subst (asm) (2) set_flag_loop.simps) (auto split: if_splits)
qed

lemma set_flags_length: "set_flags f xs = Some f' \<Longrightarrow> map_option length f' = map_option length f"
  by (induction xs arbitrary: f)
    (fastforce simp: bind_eq_Some_conv manager_set_resend_sub_flag_def split: if_splits dest: set_flag_loop_length)+

lemma flags_resend_request:
  assumes "manager_ota_resend_data e mo j (u, s) = Some (r, u', s')"
  shows "same_flags u u'"
proof -
  obtain req where req: "manager_parsing_iote_resend_ota_msg mo j = Some req"
    using assms by (auto simp: manager_ota_resend_data_def bind_eq_Some_conv)
  show ?thesis
  proof (cases req)
    case (Inl x)
    then show ?thesis using assms req by (auto simp: manager_ota_resend_data_def same_flags_def)
  next
    case (Inr q)
    then obtain c where c: "manager_check_iote_resend_quest q (up_info u) = Some c"
      using assms req by (auto simp: manager_ota_resend_data_def bind_eq_Some_conv)
    show ?thesis
    proof (cases "c = 0")
      case True
      then obtain k f where f: "manager_get_resend_sub_flag (rem_sub_flag u) (sub_flag_num u) = Some k"
        "set_flags (rem_sub_flag u) (rs_data_info q) = Some f"
        using assms req Inr c by (auto simp: manager_ota_resend_data_def bind_eq_Some_conv)
      have "same_flags u (u\<lparr>rem_sub_flag := f\<rparr>)" using set_flags_length [OF f(2)] by (simp add: same_flags_def)
      moreover have "manager_resend_data e (u\<lparr>rem_sub_flag := f\<rparr>, s) = Some (u', s') \<or> u' = u\<lparr>rem_sub_flag := f\<rparr>"
        using assms req Inr c True f by (auto simp: manager_ota_resend_data_def Let_def bind_eq_Some_conv split: if_splits)
      ultimately show ?thesis using flags_resend by (auto simp: same_flags_def)
    qed (use assms req Inr c in \<open>auto simp: manager_ota_resend_data_def same_flags_def\<close>)
  qed
qed

lemma init_flags_fit: "manager_init_resend_sub_flag ok n k = (Some f, m, r) \<Longrightarrow> m \<le> length f"
  by (auto simp: manager_init_resend_sub_flag_def Let_def split: if_splits)

lemma flags_start:
  assumes "manager_start_update e ok h (u, s) = Some (act, u', s')" "flags_ok u"
  shows "flags_ok u'"
proof -
  have run: "flags_ok v'" if "manager_start_iote_update e (v, s) = Some (r, v', t)" "flags_ok v" for v v' r t
    using that flags_send_page flags_ok_same
    by (fastforce simp: manager_start_iote_update_def Let_def flags_ok_def split: if_splits)
  obtain f n r where i: "manager_init_resend_sub_flag ok (nat (down_file_size h)) MANAGER_OTA_SEND_BIN_SIZE = (f, n, r)"
    by (metis prod_cases3)
  have "flags_ok (u\<lparr>up_info := x, rem_sub_flag := f, sub_flag_num := n\<rparr>)" for x
    using i init_flags_fit by (auto simp: flags_ok_def)
  then show ?thesis using assms run i
    by (auto simp: manager_start_update_def manager_ap_update_def Let_def bind_eq_Some_conv flags_ok_def split: if_splits)
qed

lemma flags_response:
  assumes "manager_update_response p mo io b m u = Some (r, act, u')"
  shows "same_flags u u'"
  using assms by (auto simp: manager_update_response_def Let_def bind_eq_Some_conv same_flags_def split: if_splits)

text \<open>The table of ids keeps its size.\<close>

lemma table_realloc_loop:
  assumes "realloc_loop k n dev wid hash i = Some i'" "length hash = n" "0 < n" "reserve_addr_hash i = Some hash"
    "unat (id_reallocated_index i) < n"
  shows "unat (id_reallocated_index i') < n \<and> (\<forall>h. reserve_addr_hash i' = Some h \<longrightarrow> length h = n)"
  using assms(1)
proof (induction k)
  case 0
  then show ?case using assms(2-) by auto
next
  case (Suc k)
  let ?j = "unat (id_reallocated_index i)"
  have l: "mem_get hash ?j = Some (hash ! ?j)" using assms(2,5) by (simp add: mem_get_def)
  show ?case
  proof (cases "length (filter counter_element_reserved (hash ! ?j)) \<noteq> 0 \<and> find counter_element_reserved (hash ! ?j) \<noteq> None")
    case True
    then obtain d where d: "find counter_element_reserved (hash ! ?j) = Some d" by auto
    then have "i' = i\<lparr>reserve_addr_hash := Some (hash[?j := update_first counter_element_reserved (allocate dev) (hash ! ?j)]),
        replace_messages := replace_messages i @ [(AP_DEFAULT_ADDRESS, wid, address d)], id_reallocated_index := next_index n (id_reallocated_index i)\<rparr>"
      using Suc.prems l True by (simp add: Let_def)
    then show ?thesis using next_index_lt [OF assms(3), of "id_reallocated_index i"] assms(2) by simp
  next
    case False
    then have "realloc_loop k n dev wid hash i = Some i'" using Suc.prems l by (auto simp: Let_def split: if_splits option.splits)
    then show ?thesis by (rule Suc.IH)
  qed
qed

lemma table_realloc:
  assumes "manager_reallocated_wiotaid cfg dev wid i = Some i'" "table_ok cfg i"
  shows "table_ok cfg i'"
proof -
  obtain hash r where h: "reserve_addr_hash i = Some hash" "find_allocated (all_index cfg) 0 dev hash = Some r"
    using assms(1) by (auto simp: manager_reallocated_wiotaid_def Let_def bind_eq_Some_conv)
  have t: "length hash = all_index cfg" "unat (id_reallocated_index i) < all_index cfg"
    using assms(2) h(1) by (simp_all add: table_ok_def)
  show ?thesis
  proof (cases r)
    case None
    then have "realloc_loop (all_index cfg) (all_index cfg) dev wid hash i = Some i'"
      using assms(1) h by (simp add: manager_reallocated_wiotaid_def Let_def)
    from table_realloc_loop [OF this t(1) all_index_pos h(1) t(2)] show ?thesis by (simp add: table_ok_def)
  next
    case (Some x)
    then show ?thesis using assms(1) h t
      by (cases x) (auto simp: manager_reallocated_wiotaid_def Let_def table_ok_def)
  qed
qed

lemma reserve_loop_length: "reserve_loop mo k xs hash = Some hash' \<Longrightarrow> length hash' = length hash"
proof (induction xs arbitrary: k hash)
  case (Cons x xs)
  obtain a p where "x = (a, p)" by (cases x)
  then show ?case using Cons by (auto simp: bind_eq_Some_conv split: if_splits)
qed simp

lemma table_reserved:
  assumes "manager_get_reserved_address mo q a b i = Some i'" "table_ok cfg i"
  shows "table_ok cfg i'"
  using assms
  by (auto simp: manager_get_reserved_address_def Let_def bind_eq_Some_conv table_ok_def split: option.splits dest!: reserve_loop_length)

text \<open>What is decoded stands inside its block.\<close>

lemma decoded_inside:
  assumes "app_data_decoding mo (Some inp) n h = Some (r, out, h')" "out = Some (b, k)"
  shows "k \<le> length b"
proof -
  obtain h2 off len where d: "decoding_data mo h2 inp off len = Some (r, out, h')"
    using assms by (auto simp: app_data_decoding_def Let_def bind_eq_Some_conv split: if_splits)
  have "mem_read inp off len = Some x \<Longrightarrow> length x = len" for x by (auto simp: mem_read_def split: if_splits)
  then show ?thesis using d assms(2)
    by (auto simp: decoding_data_def Let_def bind_eq_Some_conv split: if_splits option.splits)
qed

lemma packets_append:
  assumes "recv_data_packet_append p ok ps src pkt n = Some (ps', a)" "packets_ok ps" "\<And>b. p = Some b \<Longrightarrow> b \<notin> fst ` set ps"
  shows "packets_ok ps'"
  using assms new_packet_ok by (auto simp: recv_data_packet_append_def bind_eq_Some_conv packets_ok_def)

lemma packets_add:
  assumes "recv_data_packet_add_segment ps pos i d len = Some (ps', r)" "packets_ok ps" "\<And>b. d = Some b \<Longrightarrow> unat len \<le> length b"
  shows "packets_ok ps'"
proof -
  obtain a p p' where p: "packet_at ps pos = Some p" "add_segment p i d len = Some (p', r)" "ps' = packet_put ps a p'"
    using assms(1) by (auto simp: recv_data_packet_add_segment_def bind_eq_Some_conv)
  show ?thesis unfolding p(3)
    by (rule packets_ok_put [OF assms(2)]) (rule add_segment_ok [OF p(2) packet_at_ok [OF assms(2) p(1)] assms(3)])
qed

lemma packets_remove: "recv_data_packet_remove ps pos = Some ps' \<Longrightarrow> packets_ok ps \<Longrightarrow> packets_ok ps'"
  by (auto simp: recv_data_packet_remove_def bind_eq_Some_conv packets_ok_def distinct_map_filter)

lemma recv_segment_wf:
  assumes "recv_segment e src h d n s = Some (m, s')" "packets_ok (packets s)" "\<And>a. le_packet e = Some a \<Longrightarrow> a \<notin> fst ` set (packets s)"
    "\<And>b. d = Some b \<Longrightarrow> n \<le> length b"
  shows "packets_ok (packets s') \<and> ids s' = ids s \<and> update s' = update s"
proof -
  obtain ps1 pos ps2 r1 r out len where p:
    "(case recv_data_packet_find (packets s) src (ucast (packet_num h)) of Some a \<Rightarrow> Some (packets s, a)
      | None \<Rightarrow> recv_data_packet_append (le_packet e) (le_segs e) (packets s) src (ucast (packet_num h)) (total_num (segment_info h))) = Some (ps1, pos)"
    "recv_data_packet_add_segment ps1 (Some pos) (current_num (segment_info h)) d (of_nat n) = Some (ps2, r1)"
    "recv_data_packet_reader (le_reader e) ps2 (Some pos) = Some (r, out, len)"
    using assms(1) unfolding recv_segment_def by (auto simp: bind_eq_Some_conv)
  have ok1: "packets_ok ps1" using p(1) assms(2,3) packets_append by (auto split: option.splits)
  have "unat (of_nat n :: u16) \<le> length b" if "d = Some b" for b
    using assms(4) [OF that] by (simp add: unat_of_nat)
  then have ok2: "packets_ok ps2" using packets_add [OF p(2) ok1] by blast
  have "s' = s\<lparr>packets := ps2\<rparr> \<or> (\<exists>ps3. recv_data_packet_remove ps2 (Some pos) = Some ps3 \<and> s' = s\<lparr>packets := ps3\<rparr>)"
    using assms(1) p unfolding recv_segment_def by (auto simp: bind_eq_Some_conv split: if_splits)
  then show ?thesis using ok2 packets_remove [of ps2 "Some pos"] by auto
qed

lemma put_ota_wf: "logic_wf cfg s \<Longrightarrow> flags_ok u \<Longrightarrow> logic_wf cfg (put_ota s (u, o'))"
  by (simp add: logic_wf_def put_ota_def)

lemma send_ota_state_same: "send_ota_state e st s = Some s' \<Longrightarrow> same_parts s s'"
  by (auto simp: send_ota_state_def bind_eq_Some_conv same_parts_def)

lemma specific_data_wf:
  assumes "manager_ota_resend_data oe mo j (update s, o1) = Some (r, us)" "logic_wf cfg s"
  shows "logic_wf cfg (put_ota s us)"
proof -
  obtain u o' where us: "us = (u, o')" by (cases us)
  then have "same_flags (update s) u" using assms(1) flags_resend_request by blast
  then show ?thesis using assms(2) us flags_ok_same put_ota_wf by (auto simp: logic_wf_def)
qed

lemma replace_wf:
  assumes "manager_reallocated_wiotaid cfg dev wid (ids s) = Some i" "run_steps (manager_send_replace_response e t) ms (s\<lparr>ids := i\<rparr>) = Some s'"
    "logic_wf cfg s"
  shows "logic_wf cfg s'"
proof -
  have "logic_wf cfg (s\<lparr>ids := i\<rparr>)" using assms(1,3) table_realloc by (auto simp: logic_wf_def)
  then show ?thesis using same_replaces [OF assms(2)] wf_same_parts by blast
qed

lemma run_command_wf:
  assumes "run_command e raw h d n s = Some s'" "logic_wf (le_cfg e) s"
  shows "logic_wf (le_cfg e) s'"
proof -
  let ?net = "snd (manager_send_data_logic_to_net (se_net (le_send e 0 0)) (ucast (cmd_type h)) (Report d n (src_addr (addr h))) s)"
  have net: "logic_wf (le_cfg e) ?net" by (rule wf_same_parts [OF same_to_network(2) assms(2)])
  consider "s' = s" | "s' = ?net" | "\<exists>ty p. post_page (le_send e 0 0) ty p s = Some s'" | "\<exists>st. send_ota_state e st s = Some s'"
    | "\<exists>j r us. manager_ota_resend_data (ota_of e s) (le_json e) j (update s, op_task s) = Some (r, us) \<and> s' = put_ota s us"
    | "\<exists>i ms. manager_reallocated_wiotaid (le_cfg e) (src_addr (addr h)) (ri_id raw) (ids s) = Some i \<and>
        run_steps (manager_send_replace_response (le_send e 0 0) (le_replace_text e)) ms (s\<lparr>ids := i\<rparr>) = Some s'"
    using assms(1) unfolding run_command_def Let_def by (fastforce simp: bind_eq_Some_conv split: if_splits)
  then show ?thesis
  proof cases
    case 3
    then show ?thesis using wf_same_parts same_post assms(2) by blast
  next
    case 4
    then show ?thesis using wf_same_parts send_ota_state_same assms(2) by blast
  next
    case 5
    then show ?thesis using specific_data_wf assms(2) by blast
  next
    case 6
    then show ?thesis using replace_wf assms(2) by blast
  qed (use net assms(2) in simp_all)
qed

lemma recv_msg_wf:
  assumes "manager_recv_wiota_msg e raw s = Some s'" "logic_wf (le_cfg e) s" "\<And>a. le_packet e = Some a \<Longrightarrow> a \<notin> fst ` set (packets s)"
  shows "logic_wf (le_cfg e) s'"
proof -
  obtain r out h where o: "app_data_decoding (le_decode e) (Some (ri_data raw)) (length (ri_data raw)) empty_header = Some (r, out, h)"
    using assms(1) by (auto simp: manager_recv_wiota_msg_def bind_eq_Some_conv)
  let ?n = "case out of None \<Rightarrow> 0 | Some (b, k) \<Rightarrow> k"
  show ?thesis
  proof (cases "r = 0")
    case True
    obtain m t where t: "(if segment_flag (property h) then recv_segment e (ri_id raw) h (decoded_block h out) ?n s
        else Some (Some (decoded_block h out, ?n, False), s)) = Some (m, t)"
      using assms(1) o True by (auto simp: manager_recv_wiota_msg_def Let_def bind_eq_Some_conv)
    have "?n \<le> length b" if "decoded_block h out = Some b" for b
      using that decoded_inside [OF o] by (auto simp: decoded_block_def split: if_splits)
    then have wf: "logic_wf (le_cfg e) t"
      using t assms(2,3) recv_segment_wf [of e "ri_id raw" h "decoded_block h out" ?n s m t] by (auto simp: logic_wf_def split: if_splits)
    have "s' = t \<or> (\<exists>d' n'. run_command e raw h d' n' t = Some s')"
      using assms(1) o True t by (auto simp: manager_recv_wiota_msg_def Let_def bind_eq_Some_conv split: option.splits prod.splits if_splits)
    then show ?thesis using wf run_command_wf by auto
  qed (use assms(1,2) o in \<open>auto simp: manager_recv_wiota_msg_def\<close>)
qed

lemma net_data_wf:
  assumes "manager_net_data_logic e m s = Some s'" "logic_wf (le_cfg e) s"
  shows "logic_wf (le_cfg e) s'"
proof -
  have u: "logic_wf (le_cfg e) (s\<lparr>update := u, actions := x\<rparr>)"
    if "manager_update_response p mo io b m ((update s)\<lparr>up_state := v\<rparr>) = Some (r, act, u)" for p mo io b v r act u x
    using flags_response [OF that] assms(2) flags_ok_same [of "update s" u] by (simp add: logic_wf_def same_flags_def)
  have i: "logic_wf (le_cfg e) (s\<lparr>ids := i\<rparr>)" if "manager_get_reserved_address mo q a b (ids s) = Some i" for mo q a b i
    using table_reserved [OF that] assms(2) by (simp add: logic_wf_def)
  have c: "logic_wf (le_cfg e) t" if "manager_send_msg_to_wiota e m s = Some t" for t
    by (rule wf_same_parts [OF same_send_msg [OF that] assms(2)])
  have a: "logic_wf (le_cfg e) t" if "manager_response_message_result x y z s = Some t" for t x y z
    by (rule wf_same_parts [OF same_response [OF that] assms(2)])
  show ?thesis using assms(1) u i c a assms(2) unfolding manager_net_data_logic_def manager_send_config_to_wioata_def
    by (auto simp: bind_eq_Some_conv split: if_splits)
qed

lemma result_wf:
  assumes "result_function e d s = Some s'" "logic_wf (le_cfg e) s"
  shows "logic_wf (le_cfg e) s'"
proof -
  have f: "flags_ok (update s)" using assms(2) by (simp add: logic_wf_def)
  show ?thesis
    using assms(1) same_network_result wf_same_parts [OF _ assms(2)] put_ota_wf [OF assms(2)]
      flags_ok_same [OF flags_msg_result f] flags_ok_same [OF flags_resend f]
    by (fastforce simp: result_function_def Let_def manager_ota_resend_msg_result_def split: if_splits)
qed

text \<open>C13: Every round of the logic task keeps its state well-formed, whatever message it takes
  and however allocations and queues behave: no packet of the store holds more segments
  than it counts or a segment longer than its block, the table of ids keeps its size with
  its index inside, and the bitmap of blocks holds all the flags it is searched for.\<close>

theorem logic_task_keeps_types:
  assumes "logic_wf (le_cfg e) s" "\<And>a. le_packet e = Some a \<Longrightarrow> a \<notin> fst ` set (packets s)" "manager_wiota_task e s = Some s'"
  shows "logic_wf (le_cfg e) s'"
proof (cases "logic_queue (op_task s)")
  case Nil
  then show ?thesis using assms by (simp add: manager_wiota_task_def)
next
  case (Cons m ms)
  let ?s = "s\<lparr>op_task := (op_task s)\<lparr>logic_queue := ms\<rparr>\<rparr>"
  have run: "manager_logic_case e m ?s = Some s'" using assms(3) Cons by (simp add: manager_wiota_task_def)
  have wf: "logic_wf (le_cfg e) ?s" using assms(1) by (simp add: logic_wf_def)
  show ?thesis
  proof (cases m)
    case LOGIC_WIOTA_START
    then show ?thesis using run wf
      by (auto simp: manager_wiotaid_start_def bind_eq_Some_conv logic_wf_def table_ok_def split: if_splits)
  next
    case (LOGIC_SEND_RESULT d)
    then show ?thesis using run result_wf [OF _ wf] by simp
  next
    case (LOGIC_RECV_WIOTA_DATA raw)
    then show ?thesis using run recv_msg_wf [OF _ wf] assms(2) by simp
  next
    case (LOGIC_FROM_NETWORK_MESSAGE x)
    then show ?thesis using run net_data_wf [OF _ wf] by simp
  next
    case (LOGIC_FROM_HTTP_MESSAGE h)
    then show ?thesis using run wf flags_start
      by (fastforce simp: bind_eq_Some_conv put_ota_def logic_wf_def)
  qed
qed

theorem logic_task_keeps_types_witness:
  "\<exists>s'. manager_wiota_task sample_env (sample_logic\<lparr>op_task := idle_operation\<lparr>logic_queue := [LOGIC_WIOTA_START]\<rparr>\<rparr>) = Some s' \<and>
    logic_wf sample_cfg s'"
proof -
  let ?s = "sample_logic\<lparr>op_task := idle_operation\<lparr>logic_queue := [LOGIC_WIOTA_START]\<rparr>\<rparr>"
  obtain s' where s': "manager_wiota_task sample_env ?s = Some s'"
    by (simp add: manager_wiota_task_def manager_wiotaid_start_def sample_logic_def sample_ids_def)
  have c: "le_cfg sample_env = sample_cfg" by (simp add: sample_env_def)
  have "logic_wf (le_cfg sample_env) ?s" unfolding c
    by (simp add: logic_wf_def sample_logic_def packets_ok_def table_ok_def sample_ids_def all_index_def sample_cfg_def flags_ok_def sample_update_def)
  then have "logic_wf (le_cfg sample_env) s'"
    by (rule logic_task_keeps_types [OF _ _ s']) (simp add: sample_logic_def)
  then show ?thesis using s' c by auto
qed

end
