(* ===== verification/Network.thy ===== *)
theory Network
  imports Downlink
begin

text \<open>
  The network task, app/net\_passthrough/net\_passthrough.c: it publishes the reports of
  devices and the results of requests over MQTT and hands the requests of the server to
  the logic task.  The MQTT client and cJSON's parser and printer are parameters.
\<close>

section \<open>Text helpers\<close>

definition ascii :: "string \<Rightarrow> bytes" where
  "ascii = map of_char"

text \<open>The decimal digits of a number, least significant first, and the loop that reverses them.\<close>

fun digits_loop :: "nat \<Rightarrow> bytes" where
  "digits_loop n = of_nat (n mod 10 + 48) # (if n div 10 = 0 then [] else digits_loop (n div 10))"

declare digits_loop.simps [simp del]

function swap_loop :: "bytes \<Rightarrow> nat \<Rightarrow> nat \<Rightarrow> bytes option" where
  "swap_loop p i j =
     (if j < i div 2 then do {
        a \<leftarrow> mem_get p j;
        b \<leftarrow> mem_get p (i - 1 - j);
        let s = a + b;
        let t = s - b;
        swap_loop (p[i - 1 - j := t, j := s - t]) i (j + 1)
      }
      else Some p)"
  by pat_completeness auto
termination
  by (relation "measure (\<lambda>(p, i, j). i div 2 - j)") auto

declare swap_loop.simps [simp del]

text \<open>The digits are written behind the text that \<open>str\<close> holds; the negation must not overflow.\<close>

definition dec2str :: "int \<Rightarrow> bytes \<Rightarrow> bytes option" where
  "dec2str num str = do {
     t \<leftarrow> c_text str;
     c_assert (- (2 ^ 31) < num);
     let d = (if num < 0 then [45] else []) @ digits_loop (nat \<bar>num\<bar>);
     p \<leftarrow> swap_loop d (if num < 0 then length d + 1 else length d) (if num < 0 then 1 else 0);
     mem_write str (length t) (p @ [0])
   }"

text \<open>What follows the last slash of a text of length \<open>n\<close>, unless that slash is its first character.\<close>

fun slash_loop :: "bytes \<Rightarrow> nat \<Rightarrow> nat option" where
  "slash_loop s 0 = Some 0"
| "slash_loop s (Suc n) = do { c \<leftarrow> mem_get s n; if c = 47 then Some n else slash_loop s n }"

definition find_last_slash :: "bytes \<Rightarrow> nat \<Rightarrow> bytes option option" where
  "find_last_slash s n = do {
     c \<leftarrow> mem_get s 0;
     if c = 0 \<or> n = 0 then Some None
     else do {
       k \<leftarrow> slash_loop s n;
       Some (if k = 0 then None else Some (drop (k + 1) s))
     }
   }"

text \<open>atoi; a value out of range is undefined.\<close>

definition is_digit :: "u8 \<Rightarrow> bool" where
  "is_digit c \<longleftrightarrow> 48 \<le> c \<and> c \<le> 57"

definition digits_value :: "bytes \<Rightarrow> nat" where
  "digits_value ds = fold (\<lambda>c n. 10 * n + (unat c - 48)) ds 0"

definition atoi :: "bytes \<Rightarrow> int option" where
  "atoi s = (
     let t = dropWhile (\<lambda>c. c = 32 \<or> 9 \<le> c \<and> c \<le> 13) s;
         neg = (t \<noteq> [] \<and> hd t = 45);
         u = (if t \<noteq> [] \<and> (hd t = 45 \<or> hd t = 43) then tl t else t);
         v = int (digits_value (takeWhile is_digit u));
         r = (if neg then - v else v)
     in do { c_assert (- (2 ^ 31) \<le> r \<and> r < 2 ^ 31); Some r })"

text \<open>rt\_memcpy of a text behind the text that a block holds.\<close>

definition str_put :: "bytes \<Rightarrow> bytes \<Rightarrow> bytes option" where
  "str_put blk t = do { u \<leftarrow> c_text blk; mem_write blk (length u) t }"

section \<open>Messages of the server\<close>

definition TOPIC_PLATFORM_RESPONSE :: bytes where "TOPIC_PLATFORM_RESPONSE = ascii ''v1/devices/me/rpc/response/''"
definition TOPIC_REQUEST :: bytes where "TOPIC_REQUEST = ascii ''v1/devices/me/rpc/request/''"
definition PUB_ATTR :: bytes where "PUB_ATTR = ascii ''v1/devices/me/attributes''"
definition PUB_IOTE_ATTR :: bytes where "PUB_IOTE_ATTR = ascii ''v1/gateway/attributes''"
definition PUB_IOTE_STATE :: bytes where "PUB_IOTE_STATE = ascii ''v1/gateway/telemetry''"
definition MQTT_TOPIC_MAX_LENGTH :: nat where "MQTT_TOPIC_MAX_LENGTH = 64"
definition MQTT_PAYLOAD_MAX_LENGTH :: nat where "MQTT_PAYLOAD_MAX_LENGTH = 512"

definition APP_CMD_IOTE_REQUEST_NEW_CONFIG :: u32 where "APP_CMD_IOTE_REQUEST_NEW_CONFIG = 120"
definition MANAGER_LOGIC_MQTT_REQUEST :: u32 where "MANAGER_LOGIC_MQTT_REQUEST = 0xF000000F"
definition MANAGER_LOGIC_MQTT_RESPONSE :: u32 where "MANAGER_LOGIC_MQTT_RESPONSE = 0xF0000010"

text \<open>What one step of the task meets: the printer, the parser, allocations and the queue of the logic task.\<close>

record network_env =
  ne_print :: "cjson \<Rightarrow> bytes option"
  ne_parse :: "bytes \<Rightarrow> cjson option"
  ne_alloc :: "nat \<Rightarrow> bool"
  ne_post :: post_env

record network_state =
  logic :: logic_state
  s_nRequestId :: u32
  published :: "(bytes \<times> bytes) list"

definition uc_mqtt_publish :: "bytes \<Rightarrow> bytes \<Rightarrow> network_state \<Rightarrow> network_state" where
  "uc_mqtt_publish topic payload s = s\<lparr>published := published s @ [(topic, payload)]\<rparr>"

definition cJSON_GetObjectItemCaseSensitive :: "cjson option \<Rightarrow> string \<Rightarrow> cjson option" where
  "cJSON_GetObjectItemCaseSensitive j name =
     (case j of Some (CObject items) \<Rightarrow> map_option snd (find (\<lambda>(k, v). k = name) items) | _ \<Rightarrow> None)"

fun addresses :: "cjson list \<Rightarrow> u32 list option" where
  "addresses [] = Some []"
| "addresses (CNumber q # xs) = do { a \<leftarrow> to_address (Some (CNumber q)); as \<leftarrow> addresses xs; Some (a # as) }"
| "addresses (_ # xs) = addresses xs"

text \<open>The destinations: their number and the block with them, whose rest stays 0.\<close>

definition parse_destinations :: "bool \<Rightarrow> cjson option \<Rightarrow> (nat \<times> u32 list option) option" where
  "parse_destinations ok j =
     (case j of
        Some (CArray (x # xs)) \<Rightarrow>
          if ok then do {
            as \<leftarrow> addresses (x # xs);
            Some (length (x # xs), Some (as @ replicate (length (x # xs) - length as) 0))
          }
          else Some (length (x # xs), None)
      | Some (CNumber q) \<Rightarrow> do {
          c_assert ok;
          a \<leftarrow> to_address (Some (CNumber q));
          Some (1, Some [a])
        }
      | _ \<Rightarrow> Some (0, None))"

definition parse_mqtt_payload :: "network_env \<Rightarrow> cjson \<Rightarrow> int \<Rightarrow> t_from_network_message option option" where
  "parse_mqtt_payload e payload number =
     (case cJSON_GetObjectItemCaseSensitive (Some payload) ''params'' of
        None \<Rightarrow> Some None
      | Some param \<Rightarrow> do {
          (n, as) \<leftarrow> parse_destinations (ne_alloc e 0) (cJSON_GetObjectItemCaseSensitive (Some param) ''dest_address'');
          let c = (case cJSON_GetObjectItemCaseSensitive (Some param) ''cmd'' of Some (CNumber q) \<Rightarrow> int_value q | _ \<Rightarrow> 0);
          let data = Option.bind (cJSON_GetObjectItemCaseSensitive (Some param) ''data'') (ne_print e);
          c_assert (ne_alloc e 1);
          Some (Some \<lparr>dest_len = n * 4, dest_address = as, nm_cmd = of_int c, request_number = of_int number, json_data = data\<rparr>)
        })"

text \<open>
  The callback of the MQTT client for one part of a message: the topic comes with the first
  part, and the part that completes the message is handed on.
\<close>

definition uc_mqtt_msg_process ::
  "network_env \<Rightarrow> net_env \<Rightarrow> bytes \<Rightarrow> bytes \<Rightarrow> bool \<Rightarrow> bool \<Rightarrow> network_state \<Rightarrow> network_state option" where
  "uc_mqtt_msg_process e q topic_name buffer msg_new msg_done s = do {
     (topic, nid) \<leftarrow> (if msg_new then do {
         c_assert (ne_alloc e 0);
         let topic = take MQTT_TOPIC_MAX_LENGTH topic_name @ [0];
         sl \<leftarrow> find_last_slash topic (length topic - 1);
         nid \<leftarrow> (case sl of None \<Rightarrow> Some (-1) | Some t \<Rightarrow> do { u \<leftarrow> c_text t; atoi u });
         Some (Some topic, nid)
       }
       else Some (None, -1));
     let payload = take MQTT_PAYLOAD_MAX_LENGTH buffer;
     c_assert (ne_alloc e 1);
     if \<not> msg_done then Some s
     else do {
       c_assert (ne_alloc e 2 \<and> ne_alloc e 3);
       t \<leftarrow> topic;
       u \<leftarrow> c_text t;
       let c = (if take (length TOPIC_REQUEST) u = TOPIC_REQUEST then MANAGER_LOGIC_MQTT_REQUEST
                else if take (length TOPIC_PLATFORM_RESPONSE) u = TOPIC_PLATFORM_RESPONSE then MANAGER_LOGIC_MQTT_RESPONSE
                else 0);
       Some (s\<lparr>logic := snd (to_network_data q c (Request nid (payload @ [0])) (logic s))\<rparr>)
     }
   }"

definition cmd_mqtt_request_or_response ::
  "network_env \<Rightarrow> u32 \<Rightarrow> int \<Rightarrow> bytes \<Rightarrow> network_state \<Rightarrow> network_state option" where
  "cmd_mqtt_request_or_response e c nid payload s = do {
     t \<leftarrow> c_text payload;
     j \<leftarrow> ne_parse e t;
     m \<leftarrow> parse_mqtt_payload e j (if c = MANAGER_LOGIC_MQTT_RESPONSE then 0 else nid);
     case m of
       None \<Rightarrow> Some s
     | Some msg \<Rightarrow> do {
         o' \<leftarrow> to_queue_logic_data (ne_post e) (LOGIC_FROM_NETWORK_MESSAGE msg) (op_task (logic s));
         Some (s\<lparr>logic := (logic s)\<lparr>op_task := o'\<rparr>\<rparr>)
       }
   }"

section \<open>Reports and results\<close>

text \<open>A number below \<open>2 ^ 32\<close> passed as int.\<close>

definition as_int :: "u32 \<Rightarrow> int" where
  "as_int w = sint w"

definition cmd_iote_property_report :: "network_env \<Rightarrow> bytes option \<Rightarrow> nat \<Rightarrow> u32 \<Rightarrow> network_state \<Rightarrow> network_state option" where
  "cmd_iote_property_report e data n src s = do {
     c_assert (ne_alloc e 0);
     b1 \<leftarrow> mem_write (replicate (n * 4) 0) 0 (ascii ''{\"sub_client_'');
     b2 \<leftarrow> dec2str (as_int src) b1;
     b3 \<leftarrow> str_put b2 (ascii ''\":'');
     d \<leftarrow> data;
     t \<leftarrow> c_text d;
     b4 \<leftarrow> str_put b3 t;
     b5 \<leftarrow> str_put b4 (ascii ''}'');
     payload \<leftarrow> c_text b5;
     Some (uc_mqtt_publish PUB_IOTE_ATTR payload s)
   }"

definition cmd_ap_property_report :: "network_env \<Rightarrow> cjson \<Rightarrow> network_state \<Rightarrow> network_state" where
  "cmd_ap_property_report e j s =
     (case ne_print e j of Some payload \<Rightarrow> uc_mqtt_publish PUB_ATTR payload s | None \<Rightarrow> s)"

definition cmd_iote_state_report :: "network_env \<Rightarrow> bytes option \<Rightarrow> u32 \<Rightarrow> network_state \<Rightarrow> network_state option" where
  "cmd_iote_state_report e data src s = do {
     b1 \<leftarrow> mem_write (replicate 30 0) 0 (ascii ''sub_client_'');
     b2 \<leftarrow> dec2str (as_int src) b1;
     name \<leftarrow> c_text b2;
     values \<leftarrow> (case data of None \<Rightarrow> Some None | Some d \<Rightarrow> map_option (ne_parse e) (c_text d));
     let child = CObject ([(''ts'', CNumber 50)] @ (case values of None \<Rightarrow> [] | Some v \<Rightarrow> [(''values'', v)]));
     Some (case ne_print e (CObject [(map (\<lambda>c. char_of (unat c)) name, CArray [child])]) of
             Some payload \<Rightarrow> uc_mqtt_publish PUB_IOTE_STATE payload s | None \<Rightarrow> s)
   }"

fun add_item :: "cjson \<Rightarrow> string \<Rightarrow> cjson \<Rightarrow> cjson" where
  "add_item (CObject fs) k v = CObject (fs @ [(k, v)])"
| "add_item (CArray xs) k v = CArray (xs @ [v])"
| "add_item j k v = j"

text \<open>The topic of the next request, in a block of 64 bytes.\<close>

definition request_topic :: "network_env \<Rightarrow> network_state \<Rightarrow> (bytes \<times> network_state) option" where
  "request_topic e s = do {
     c_assert (ne_alloc e 0);
     b1 \<leftarrow> mem_write (replicate MQTT_TOPIC_MAX_LENGTH 0) 0 TOPIC_REQUEST;
     b2 \<leftarrow> dec2str (as_int (s_nRequestId s)) b1;
     topic \<leftarrow> c_text b2;
     Some (topic, s\<lparr>s_nRequestId := s_nRequestId s + 1\<rparr>)
   }"

definition cmd_iote_request :: "network_env \<Rightarrow> u32 \<Rightarrow> bytes option \<Rightarrow> u32 \<Rightarrow> network_state \<Rightarrow> network_state option" where
  "cmd_iote_request e c data src s = do {
     d \<leftarrow> data;
     t \<leftarrow> c_text d;
     j \<leftarrow> ne_parse e t;
     let params = add_item (add_item j ''cmd'' (CNumber (of_int (as_int c)))) ''src_address'' (CNumber (of_int (uint src)));
     payload \<leftarrow> ne_print e (CObject [(''method'', CString ''open''), (''params'', params)]);
     (topic, s') \<leftarrow> request_topic e s;
     Some (uc_mqtt_publish topic payload s')
   }"

definition cmd_ap_request_reserve_addr :: "network_env \<Rightarrow> u32 \<Rightarrow> cjson \<Rightarrow> network_state \<Rightarrow> network_state option" where
  "cmd_ap_request_reserve_addr e c j s = do {
     (topic, s') \<leftarrow> request_topic e s;
     let tree = CObject [(''method'', CString ''test''), (''params'', CObject [(''cmd'', CNumber (of_int (as_int c))), (''data'', j)])];
     Some (case ne_print e tree of Some payload \<Rightarrow> uc_mqtt_publish topic payload s' | None \<Rightarrow> s')
   }"

definition res_ok :: bytes where "res_ok = ascii ''{\"res\":\"ok\"}''"
definition res_err :: bytes where "res_err = ascii ''{\"res\":\"err\"}''"

definition cm_mqtt_exe_response :: "network_env \<Rightarrow> u32 \<Rightarrow> nat \<Rightarrow> network_state \<Rightarrow> network_state option" where
  "cm_mqtt_exe_response e number result s =
     (if number \<noteq> 0 then do {
        c_assert (ne_alloc e 0);
        b1 \<leftarrow> mem_write (replicate MQTT_TOPIC_MAX_LENGTH 0) 0 TOPIC_PLATFORM_RESPONSE;
        b2 \<leftarrow> dec2str (as_int number) b1;
        topic \<leftarrow> c_text b2;
        Some (uc_mqtt_publish topic (if result = MANAGER_SEND_SUCCESS then res_ok else res_err) s)
      }
      else Some s)"

section \<open>The task\<close>

text \<open>
  A message by its command; data of another kind than the command expects are misread,
  which is a fault.
\<close>

definition passthrough_case :: "network_env \<Rightarrow> t_app_passthrough_message \<Rightarrow> network_state \<Rightarrow> network_state option" where
  "passthrough_case e m s = (
     let c = pm_cmd m in
     if c = ucast APP_CMD_IOTE_PROPERTY_REPORT then
       (case pm_data m of Report d n src \<Rightarrow> cmd_iote_property_report e d n src s | _ \<Rightarrow> None)
     else if c = APP_CMD_AP_PROPERTY_REPORT then
       (case pm_data m of Json j \<Rightarrow> Some (cmd_ap_property_report e j s) | _ \<Rightarrow> None)
     else if c = ucast APP_CMD_IOTE_STATE_REPORT then
       (case pm_data m of Report d n src \<Rightarrow> cmd_iote_state_report e d src s | _ \<Rightarrow> None)
     else if c \<in> {ucast APP_CMD_IOTE_PAIR_REQUEST, ucast APP_CMD_UPDATE_VERSION_REQUEST, ucast APP_CMD_IOTE_MUTICAST_REQUEST} then
       (case pm_data m of Report d n src \<Rightarrow> cmd_iote_request e c d src s | _ \<Rightarrow> None)
     else if c \<in> {APP_CMD_IOTE_REQUEST_NEW_CONFIG, WIOTA_AP_REQUEST_RESERVE_ADDR} then
       (case pm_data m of Json j \<Rightarrow> cmd_ap_request_reserve_addr e c j s | _ \<Rightarrow> None)
     else if c \<in> {MANAGER_LOGIC_MQTT_REQUEST, MANAGER_LOGIC_MQTT_RESPONSE} then
       (case pm_data m of Request nid payload \<Rightarrow> cmd_mqtt_request_or_response e c nid payload s | _ \<Rightarrow> None)
     else if c = MANAGER_LOGIC_MQTT_EXE_RESPONSE then
       (case pm_data m of Response number result \<Rightarrow> cm_mqtt_exe_response e number result s | _ \<Rightarrow> None)
     else Some s)"

definition passthrough_manager_task :: "network_env \<Rightarrow> network_state \<Rightarrow> network_state option" where
  "passthrough_manager_task e s =
     (case net_queue (logic s) of
        [] \<Rightarrow> Some s
      | m # ms \<Rightarrow> passthrough_case e m (s\<lparr>logic := (logic s)\<lparr>net_queue := ms\<rparr>\<rparr>))"

section \<open>Decimal texts\<close>

fun decimal :: "nat \<Rightarrow> bytes" where
  "decimal n = (if n < 10 then [of_nat (n + 48)] else decimal (n div 10) @ [of_nat (n mod 10 + 48)])"

declare decimal.simps [simp del]

definition int_text :: "int \<Rightarrow> bytes" where
  "int_text n = (if n < 0 then [45] else []) @ decimal (nat \<bar>n\<bar>)"

lemma digits_loop_rev: "rev (digits_loop n) = decimal n"
proof (induction n rule: digits_loop.induct)
  case (1 n)
  then show ?case by (subst digits_loop.simps, subst decimal.simps) (auto simp: div_eq_0_iff)
qed

lemma decimal_digits: "c \<in> set (decimal n) \<Longrightarrow> \<exists>k < 10. c = of_nat (k + 48)"
proof (induction n rule: decimal.induct)
  case (1 n)
  show ?case
  proof (cases "n < 10")
    case True
    then show ?thesis using "1.prems" by (auto simp: decimal.simps [of n])
  next
    case False
    then have "c \<in> set (decimal (n div 10)) \<or> c = of_nat (n mod 10 + 48)" using "1.prems" by (auto simp: decimal.simps [of n])
    then show ?thesis using "1.IH" [OF False] mod_less_divisor [of 10 n] by (metis zero_less_numeral)
  qed
qed

lemma digit_byte: "k < 10 \<Longrightarrow> unat (of_nat (k + 48) :: u8) = k + 48"
  unfolding unat_of_nat by simp

lemma decimal_is_digit: "c \<in> set (decimal n) \<Longrightarrow> is_digit c"
proof -
  assume "c \<in> set (decimal n)"
  then obtain k where k: "k < 10" "c = of_nat (k + 48)" using decimal_digits by blast
  then have "unat c = k + 48" using digit_byte by simp
  then show "is_digit c" using k(1) by (simp add: is_digit_def word_le_nat_alt)
qed

lemma is_digit_not [simp]: "\<not> is_digit 0" "\<not> is_digit 47" "\<not> is_digit 45" "\<not> is_digit 43" "\<not> is_digit 32"
  by (simp_all add: is_digit_def)

lemma decimal_not: "0 \<notin> set (decimal n)" "47 \<notin> set (decimal n)"
  using decimal_is_digit [of _ n] by force+

lemma decimal_ne [simp]: "decimal n \<noteq> []"
  by (subst decimal.simps) simp

lemma digits_value_snoc: "digits_value (ds @ [c]) = 10 * digits_value ds + (unat c - 48)"
  by (simp add: digits_value_def)

lemma decimal_value: "digits_value (decimal n) = n"
proof (induction n rule: decimal.induct)
  case (1 n)
  show ?case
  proof (cases "n < 10")
    case True
    then show ?thesis using digit_byte [OF True] by (simp add: decimal.simps [of n] digits_value_def del: of_nat_add)
  next
    case False
    have "unat (of_nat (n mod 10 + 48) :: u8) = n mod 10 + 48" by (rule digit_byte) simp
    then show ?thesis using "1.IH" [OF False] False
      by (simp add: decimal.simps [of n] digits_value_snoc del: of_nat_add)
  qed
qed

lemma decimal_length: "n < 10 ^ Suc k \<Longrightarrow> length (decimal n) \<le> Suc k"
proof (induction k arbitrary: n)
  case 0
  then show ?case by (simp add: decimal.simps [of n])
next
  case (Suc k)
  have "n div 10 < 10 ^ Suc k" using Suc.prems by (simp add: div_less_iff_less_mult)
  then show ?case using Suc.IH [of "n div 10"] by (simp add: decimal.simps [of n])
qed

lemma int_text_length: "- (2 ^ 31) < n \<Longrightarrow> n < 2 ^ 31 \<Longrightarrow> length (int_text n) \<le> 11"
proof -
  assume "- (2 ^ 31) < n" "n < 2 ^ 31"
  then have "nat \<bar>n\<bar> < 10 ^ Suc 9" by (simp; linarith)
  from decimal_length [OF this] show ?thesis unfolding int_text_def by auto
qed

lemma int_text_not: "0 \<notin> set (int_text n)" "47 \<notin> set (int_text n)"
  using decimal_not by (auto simp: int_text_def)

text \<open>The loop reverses what lies between its two ends.\<close>

lemma swap_loop_spec:
  assumes "i \<le> length p + j"
  shows "swap_loop p i j = Some (map (\<lambda>k. if j \<le> k \<and> k < i - j then p ! (i - 1 - k) else p ! k) [0..<length p])"
  using assms
proof (induction p i j rule: swap_loop.induct)
  case (1 p i j)
  show ?case
  proof (cases "j < i div 2")
    case False
    then have "map (\<lambda>k. if j \<le> k \<and> k < i - j then p ! (i - 1 - k) else p ! k) [0..<length p] = map ((!) p) [0..<length p]"
    proof -
      have "i - 1 - k = k" if "j \<le> k" "k < i - j" for k using that False by linarith
      then show ?thesis by (intro map_cong) auto
    qed
    then show ?thesis using False by (simp add: swap_loop.simps [of p i j] map_nth)
  next
    case True
    let ?k = "i - 1 - j"
    have k: "?k < length p" "j < ?k" using True "1.prems" by linarith+
    then have j: "j < length p" by linarith
    let ?q = "p[?k := p ! j, j := p ! ?k]"
    have g: "mem_get p j = Some (p ! j)" "mem_get p ?k = Some (p ! ?k)" using j k by (simp_all add: mem_get_def)
    have step: "swap_loop p i j = swap_loop ?q i (j + 1)"
      using True g by (simp add: swap_loop.simps [of p i j])
    have "swap_loop ?q i (j + 1) =
      Some (map (\<lambda>k. if j + 1 \<le> k \<and> k < i - (j + 1) then ?q ! (i - 1 - k) else ?q ! k) [0..<length ?q])"
      using "1.IH" [OF True g(1) g(2) refl refl] "1.prems" by simp
    also have "map (\<lambda>k. if j + 1 \<le> k \<and> k < i - (j + 1) then ?q ! (i - 1 - k) else ?q ! k) [0..<length ?q] =
      map (\<lambda>k. if j \<le> k \<and> k < i - j then p ! (i - 1 - k) else p ! k) [0..<length p]"
    proof (rule nth_equalityI)
      fix x assume "x < length (map (\<lambda>k. if j + 1 \<le> k \<and> k < i - (j + 1) then ?q ! (i - 1 - k) else ?q ! k) [0..<length ?q])"
      then have x: "x < length p" by simp
      consider "x = j" | "x = ?k" | "j < x" "x < ?k" | "x < j" | "?k < x" by linarith
      then show "map (\<lambda>k. if j + 1 \<le> k \<and> k < i - (j + 1) then ?q ! (i - 1 - k) else ?q ! k) [0..<length ?q] ! x =
          map (\<lambda>k. if j \<le> k \<and> k < i - j then p ! (i - 1 - k) else p ! k) [0..<length p] ! x"
        using x j k by cases (auto simp: nth_list_update)
    qed simp
    finally show ?thesis using step by simp
  qed
qed

lemma swap_digits: "swap_loop d (length d) 0 = Some (rev d)" "swap_loop (x # d) (length (x # d) + 1) 1 = Some (x # rev d)"
proof -
  have "map (\<lambda>k. if 0 \<le> k \<and> k < length d - 0 then d ! (length d - 1 - k) else d ! k) [0..<length d] = rev d"
    by (rule nth_equalityI) (auto simp: rev_nth)
  then show "swap_loop d (length d) 0 = Some (rev d)" using swap_loop_spec [of "length d" d 0] by simp
  let ?p = "x # d" let ?f = "\<lambda>k. if 1 \<le> k \<and> k < length ?p + 1 - 1 then ?p ! (length ?p + 1 - 1 - k) else ?p ! k"
  have "map ?f [0..<length ?p] = x # rev d"
  proof (rule nth_equalityI)
    fix k assume "k < length (map ?f [0..<length ?p])"
    then have k: "k < length ?p" by simp
    then have "map ?f [0..<length ?p] ! k = ?f ([0..<length ?p] ! k)" by (intro nth_map) (simp del: upt_Suc)
    moreover have "[0..<length ?p] ! k = k" using nth_upt [of 0 k "length ?p"] k by (simp del: upt_Suc)
    ultimately have "map ?f [0..<length ?p] ! k = ?f k" by (simp only:)
    also have "\<dots> = (x # rev d) ! k" using k by (cases k) (simp_all add: rev_nth)
    finally show "map ?f [0..<length ?p] ! k = (x # rev d) ! k" .
  qed simp
  then show "swap_loop (x # d) (length (x # d) + 1) 1 = Some (x # rev d)" using swap_loop_spec [of "length ?p + 1" ?p 1] by simp
qed

lemma c_text_simp: "0 \<notin> set t \<Longrightarrow> c_text (t @ 0 # r) = Some t"
proof -
  assume a: "0 \<notin> set t"
  then have "takeWhile (\<lambda>c. c \<noteq> 0) (t @ 0 # r) = t" by (induction t) auto
  then show ?thesis by (simp add: c_text_def)
qed

lemma dec2str_text:
  assumes "- (2 ^ 31) < n" "0 \<notin> set t"
  shows "dec2str n (t @ 0 # r) = mem_write (t @ 0 # r) (length t) (int_text n @ [0])"
  using assms swap_digits(1) [of "digits_loop (nat n)"] swap_digits(2) [of 45 "digits_loop (nat (- n))"]
  by (cases "n < 0") (simp_all add: dec2str_def c_text_simp int_text_def digits_loop_rev Let_def)

section \<open>Texts in cleared blocks\<close>

lemma c_text_zeros: "0 \<notin> set t \<Longrightarrow> c_text (t @ replicate k 0) = (if k = 0 then None else Some t)"
  using c_text_simp [of t "replicate (k - 1) 0"] by (cases k) (auto simp: c_text_def)

lemma mem_write_zeros:
  "mem_write (t @ replicate k 0) (length t) u = (if length u \<le> k then Some (t @ u @ replicate (k - length u) 0) else None)"
  by (simp add: mem_write_def)

lemma str_put_zeros:
  assumes "0 \<notin> set t"
  shows "str_put (t @ replicate k 0) u =
    (if 0 < k \<and> length u \<le> k then Some (t @ u @ replicate (k - length u) 0) else None)"
  using assms by (auto simp: str_put_def c_text_zeros mem_write_zeros)

lemma dec2str_zeros:
  assumes "0 \<notin> set t" "- (2 ^ 31) < n"
  shows "dec2str n (t @ replicate k 0) =
    (if length (int_text n) < k then Some (t @ int_text n @ replicate (k - length (int_text n)) 0) else None)"
proof (cases k)
  case 0
  then show ?thesis using assms by (simp add: dec2str_def c_text_def)
next
  case (Suc j)
  have z: "[0] @ replicate (k - (length (int_text n) + 1)) 0 = replicate (k - length (int_text n)) (0 :: u8)"
    if "length (int_text n) < k"
    using that by (cases "k - length (int_text n)") simp_all
  have "dec2str n (t @ replicate k 0) = mem_write (t @ replicate k 0) (length t) (int_text n @ [0])"
    using dec2str_text [OF assms(2,1), of "replicate j 0"] Suc by simp
  then show ?thesis using z by (simp add: mem_write_zeros del: replicate.simps)
qed

text \<open>The topic with a number, which always fits.\<close>

lemma topic_text:
  assumes "0 \<notin> set t" "length t \<le> 50" "- (2 ^ 31) < n" "n < 2 ^ 31"
  shows "do { b1 \<leftarrow> mem_write (replicate MQTT_TOPIC_MAX_LENGTH 0) 0 t; b2 \<leftarrow> dec2str n b1; c_text b2 } = Some (t @ int_text n)"
proof -
  have l: "length (int_text n) \<le> 11" using int_text_length assms(3,4) by blast
  have "mem_write (replicate MQTT_TOPIC_MAX_LENGTH 0) 0 t = Some (t @ replicate (64 - length t) 0)"
    using assms(2) mem_write_zeros [of "[]" 64 t] by (simp add: MQTT_TOPIC_MAX_LENGTH_def)
  moreover have "dec2str n (t @ replicate (64 - length t) 0) = Some (t @ int_text n @ replicate (64 - length t - length (int_text n)) 0)"
    using dec2str_zeros [OF assms(1,3)] l assms(2) by simp
  moreover have "c_text ((t @ int_text n) @ replicate (64 - length t - length (int_text n)) 0) = Some (t @ int_text n)"
    using assms(1,2) l int_text_not(1) by (subst c_text_zeros) auto
  ultimately show ?thesis by simp
qed

text \<open>The payload of a property report.\<close>

definition report_payload :: "u32 \<Rightarrow> bytes \<Rightarrow> bytes" where
  "report_payload src t = ascii ''{\"sub_client_'' @ int_text (as_int src) @ ascii ''\":'' @ t @ ascii ''}''"

lemma ascii_parts:
  "0 \<notin> set (ascii ''{\"sub_client_'')" "0 \<notin> set (ascii ''\":'')" "0 \<notin> set (ascii ''}'')"
  "length (ascii ''{\"sub_client_'') = 13" "length (ascii ''\":'') = 2" "length (ascii ''}'') = 1"
  by code_simp+

lemma property_report_spec:
  assumes "ne_alloc e 0" "0 \<notin> set t" "- (2 ^ 31) < as_int src"
  shows "cmd_iote_property_report e (Some (t @ 0 # r)) n src s =
    (if length (report_payload src t) < 4 * n then Some (uc_mqtt_publish PUB_IOTE_ATTR (report_payload src t) s) else None)"
proof -
  let ?a = "ascii ''{\"sub_client_''" let ?b = "int_text (as_int src)" let ?c = "ascii ''\":''" let ?d = "ascii ''}''"
  have l: "length (report_payload src t) = 16 + length ?b + length t" by (simp add: report_payload_def ascii_parts)
  have nz: "0 \<notin> set ?b" by (rule int_text_not)
  have w1: "mem_write (replicate (n * 4) 0) 0 ?a = (if 13 \<le> 4 * n then Some (?a @ replicate (4 * n - 13) 0) else None)"
    using mem_write_zeros [of "[]" "n * 4" ?a] by (simp add: ascii_parts mult.commute)
  have w2: "dec2str (as_int src) (?a @ replicate k 0) = (if length ?b < k then Some ((?a @ ?b) @ replicate (k - length ?b) 0) else None)" for k
    using dec2str_zeros [OF ascii_parts(1) assms(3)] by simp
  have w3: "str_put ((?a @ ?b) @ replicate k 0) ?c = (if 2 \<le> k then Some ((?a @ ?b @ ?c) @ replicate (k - 2) 0) else None)" for k
    using str_put_zeros [of "?a @ ?b" k ?c] nz ascii_parts by auto
  have w4: "str_put ((?a @ ?b @ ?c) @ replicate k 0) t =
      (if 0 < k \<and> length t \<le> k then Some ((?a @ ?b @ ?c @ t) @ replicate (k - length t) 0) else None)" for k
    using str_put_zeros [of "?a @ ?b @ ?c" k t] nz ascii_parts by auto
  have w5: "str_put ((?a @ ?b @ ?c @ t) @ replicate k 0) ?d = (if 1 \<le> k then Some (report_payload src t @ replicate (k - 1) 0) else None)" for k
    using str_put_zeros [of "?a @ ?b @ ?c @ t" k ?d] nz ascii_parts assms(2) by (auto simp: report_payload_def)
  have w6: "c_text (report_payload src t @ replicate k 0) = (if k = 0 then None else Some (report_payload src t))" for k
    using nz ascii_parts assms(2) by (intro c_text_zeros) (auto simp: report_payload_def)
  show ?thesis
  proof (cases "length (report_payload src t) < 4 * n")
    case True
    then show ?thesis using assms(1) l
      unfolding cmd_iote_property_report_def
      by (auto simp: w1 w2 w3 w4 w5 w6 c_text_simp [OF assms(2)] simp del: append_assoc replicate.simps)
  next
    case False
    then have f: "4 * n \<le> 16 + length ?b + length t" using l by simp
    consider "4 * n < 13" | "13 \<le> 4 * n" "4 * n - 13 \<le> length ?b" | "13 + length ?b < 4 * n" "4 * n - 13 - length ?b < 2"
      | "15 + length ?b \<le> 4 * n" "4 * n - 15 - length ?b \<le> length t" | "4 * n = 16 + length ?b + length t"
      using f by linarith
    then show ?thesis
      using False assms(1) unfolding cmd_iote_property_report_def
      by cases (auto simp: w1 w2 w3 w4 w5 w6 c_text_simp [OF assms(2)] simp del: append_assoc replicate.simps)
  qed
qed

section \<open>Numbers of requests\<close>

lemma dropWhile_hd: "xs \<noteq> [] \<Longrightarrow> \<not> P (hd xs) \<Longrightarrow> dropWhile P xs = xs"
  by (cases xs) simp_all

lemma is_digit_nat: "is_digit c \<longleftrightarrow> 48 \<le> unat c \<and> unat c \<le> 57"
  by (simp add: is_digit_def word_le_nat_alt)

lemma atoi_int_text:
  assumes "- (2 ^ 31) < n" "n < 2 ^ 31"
  shows "atoi (int_text n) = Some n"
proof -
  have d: "is_digit (hd (decimal k))" for k using decimal_is_digit hd_in_set [OF decimal_ne] by blast
  have n: "\<not> (hd (decimal k) = 32 \<or> 9 \<le> hd (decimal k) \<and> hd (decimal k) \<le> 13)" "hd (decimal k) \<noteq> 45" "hd (decimal k) \<noteq> 43" for k
    using d [of k] unfolding is_digit_nat by (auto simp: word_le_nat_alt)
  have t: "takeWhile is_digit (decimal k) = decimal k" for k using decimal_is_digit by (simp add: takeWhile_eq_all_conv)
  show ?thesis
  proof (cases "n < 0")
    case True
    then have "dropWhile (\<lambda>c. c = 32 \<or> 9 \<le> c \<and> c \<le> 13) (int_text n) = 45 # decimal (nat (- n))" by (simp add: int_text_def)
    then show ?thesis using True assms by (simp add: atoi_def decimal_value t)
  next
    case False
    then have "dropWhile (\<lambda>c. c = 32 \<or> 9 \<le> c \<and> c \<le> 13) (int_text n) = decimal (nat n)"
      using n(1) [of "nat n"] by (simp add: int_text_def dropWhile_hd)
    then show ?thesis using False assms n(2,3) [of "nat n"] by (simp add: atoi_def decimal_value t)
  qed
qed

lemma slash_loop_stop:
  assumes "47 \<notin> set d" "k \<le> length d"
  shows "slash_loop (t @ 47 # d @ r) (length t + 1 + k) = Some (length t)"
  using assms(2)
proof (induction k)
  case 0
  then show ?case by (simp add: mem_get_def nth_append)
next
  case (Suc k)
  have c: "mem_get (t @ 47 # d @ r) (length t + 1 + k) = Some (d ! k)" using Suc.prems by (simp add: mem_get_def nth_append)
  have "d ! k \<noteq> 47" using assms(1) Suc.prems by (metis Suc_le_lessD nth_mem)
  then show ?case using Suc c by simp
qed

lemma find_last_slash_text:
  assumes "47 \<notin> set d" "t \<noteq> []" "hd t \<noteq> 0"
  shows "find_last_slash (t @ 47 # d @ [0]) (length (t @ 47 # d)) = Some (Some (d @ [0]))"
proof -
  have "mem_get (t @ 47 # d @ [0]) 0 = Some (hd t)" using assms(2) by (simp add: mem_get_def nth_append hd_conv_nth)
  then show ?thesis using slash_loop_stop [OF assms(1), of "length d" t "[0]"] assms(2,3)
    by (simp add: find_last_slash_def)
qed

lemma topics:
  "TOPIC_REQUEST = ascii ''v1/devices/me/rpc/request'' @ [47]" "ascii ''v1/devices/me/rpc/request'' \<noteq> []"
  "hd (ascii ''v1/devices/me/rpc/request'') \<noteq> 0" "0 \<notin> set TOPIC_REQUEST" "length TOPIC_REQUEST = 26"
  "0 \<notin> set TOPIC_PLATFORM_RESPONSE" "length TOPIC_PLATFORM_RESPONSE = 27"
  by code_simp+

lemma request_id:
  assumes "- (2 ^ 31) < n" "n < 2 ^ 31" "\<And>k. ne_alloc e k"
  shows "uc_mqtt_msg_process e Net_queued (TOPIC_REQUEST @ int_text n) buffer True True s =
    Some (s\<lparr>logic := queued MANAGER_LOGIC_MQTT_REQUEST (Request n (take MQTT_PAYLOAD_MAX_LENGTH buffer @ [0])) (logic s)\<rparr>)"
proof -
  let ?t = "ascii ''v1/devices/me/rpc/request''"
  have l: "length (TOPIC_REQUEST @ int_text n) \<le> 64" using int_text_length [OF assms(1,2)] topics(5) by simp
  have f: "find_last_slash (TOPIC_REQUEST @ int_text n @ [0]) (length (TOPIC_REQUEST @ int_text n)) = Some (Some (int_text n @ [0]))"
    using find_last_slash_text [OF int_text_not(2) topics(2,3), of n] by (simp add: topics(1))
  have c: "c_text (int_text n @ [0]) = Some (int_text n)" using c_text_simp [OF int_text_not(1)] by simp
  have d: "c_text (TOPIC_REQUEST @ int_text n @ [0]) = Some (TOPIC_REQUEST @ int_text n)"
    using c_text_simp [of "TOPIC_REQUEST @ int_text n" "[]"] topics(4) int_text_not(1) by simp
  show ?thesis using l f c d assms(3) atoi_int_text [OF assms(1,2)]
    by (simp add: uc_mqtt_msg_process_def Let_def MQTT_TOPIC_MAX_LENGTH_def to_network_data_def queued_def)
qed

lemma response_topic:
  assumes "as_int number \<noteq> - (2 ^ 31)" "number \<noteq> 0" "ne_alloc e 0"
  shows "cm_mqtt_exe_response e number r s =
    Some (uc_mqtt_publish (TOPIC_PLATFORM_RESPONSE @ int_text (as_int number)) (if r = MANAGER_SEND_SUCCESS then res_ok else res_err) s)"
proof -
  have n: "- (2 ^ 31) < as_int number" "as_int number < 2 ^ 31"
    using assms(1) sint_ge [of number] sint_lt [of number] by (auto simp: as_int_def)
  have "length TOPIC_PLATFORM_RESPONSE \<le> 50" using topics(7) by simp
  from topic_text [OF topics(6) this n] show ?thesis
    using assms(2,3) unfolding cm_mqtt_exe_response_def
    by (auto simp: bind_eq_Some_conv)
qed


section \<open>Properties\<close>

definition sample_network_env :: network_env where
  "sample_network_env = \<lparr>ne_print = \<lambda>_. Some [65, 66], ne_parse = \<lambda>_. None, ne_alloc = \<lambda>_. True, ne_post = Queued\<rparr>"

definition sample_network :: network_state where
  "sample_network = \<lparr>logic = sample_logic, s_nRequestId = 1, published = []\<rparr>"

lemma as_int_of_int: "- (2 ^ 31) \<le> n \<Longrightarrow> n < 2 ^ 31 \<Longrightarrow> as_int (of_int n) = n"
  unfolding as_int_def by (simp add: sint_sbintrunc' signed_take_bit_int_eq_self)

text \<open>C37: A number is written in decimal.  The digits that the code produces in reverse and
  swaps in place are those of the usual recursive definition, with a sign for a negative
  number, and they go behind the text that the string already holds, terminator included;
  the text is read back as the number.\<close>

theorem dec2str_appends:
  assumes "- (2 ^ 31) < n" "n < 2 ^ 31" "0 \<notin> set t" "length (int_text n) \<le> length r"
  shows "dec2str n (t @ 0 # r) = Some (t @ int_text n @ 0 # drop (length (int_text n)) r) \<and> atoi (int_text n) = Some n"
proof -
  have "mem_write (t @ 0 # r) (length t) (int_text n @ [0]) = Some (t @ int_text n @ 0 # drop (length (int_text n)) r)"
    using assms(4) by (simp add: mem_write_def)
  then show ?thesis using dec2str_text [OF assms(1,3), of r] atoi_int_text [OF assms(1,2)] by simp
qed

theorem dec2str_appends_witness:
  "dec2str (-120) ([65] @ 0 # replicate 8 7) = Some ([65] @ [45, 49, 50, 48] @ 0 # replicate 4 7) \<and> atoi [45, 49, 50, 48] = Some (-120)"
proof -
  have "int_text (-120) = [45, 49, 50, 48]" by (simp add: int_text_def decimal.simps)
  then show ?thesis using dec2str_appends [of "-120" "[65]" "replicate 8 7"] by simp
qed

text \<open>The answer to a request goes to the topic of that request.  The number in the topic of
  an incoming request is recovered exactly and queued with its payload, and the result
  reported for that number is published once, on the response topic with the same number.\<close>

theorem request_number_roundtrip:
  assumes "- (2 ^ 31) < n" "n < 2 ^ 31" "n \<noteq> 0" "\<And>k. ne_alloc e k"
  shows "uc_mqtt_msg_process e Net_queued (TOPIC_REQUEST @ int_text n) buffer True True s =
      Some (s\<lparr>logic := queued MANAGER_LOGIC_MQTT_REQUEST (Request n (take MQTT_PAYLOAD_MAX_LENGTH buffer @ [0])) (logic s)\<rparr>) \<and>
    cm_mqtt_exe_response e (of_int n) r s =
      Some (uc_mqtt_publish (TOPIC_PLATFORM_RESPONSE @ int_text n) (if r = MANAGER_SEND_SUCCESS then res_ok else res_err) s)"
proof -
  have i: "as_int (of_int n) = n" using as_int_of_int assms(1,2) by simp
  then have "(of_int n :: u32) \<noteq> 0" using assms(3) by (auto simp: as_int_def)
  then show ?thesis
    using request_id [OF assms(1,2,4)] response_topic [of "of_int n" e r s] assms i by auto
qed

theorem request_number_roundtrip_witness:
  "cm_mqtt_exe_response sample_network_env (of_int 42) MANAGER_SEND_SUCCESS sample_network =
    Some (uc_mqtt_publish (TOPIC_PLATFORM_RESPONSE @ [52, 50]) res_ok sample_network)"
proof -
  have "int_text 42 = [52, 50]" by (simp add: int_text_def decimal.simps)
  then show ?thesis
    using request_number_roundtrip [of 42 sample_network_env "[]" sample_network MANAGER_SEND_SUCCESS] by (simp add: sample_network_env_def)
qed

text \<open>C38: A property report is published whole if it fits into the buffer of four times the
  length of its data, and otherwise memory outside that buffer is used: the buffer does not
  count the text around the data, so that every report of five bytes or less overruns it.\<close>

theorem property_report_buffer:
  assumes "ne_alloc e 0" "0 \<notin> set t" "- (2 ^ 31) < as_int src"
  shows "cmd_iote_property_report e (Some (t @ 0 # r)) (length t) src s =
      (if length (report_payload src t) < 4 * length t then Some (uc_mqtt_publish PUB_IOTE_ATTR (report_payload src t) s) else None) \<and>
    (length t \<le> 5 \<longrightarrow> cmd_iote_property_report e (Some (t @ 0 # r)) (length t) src s = None)"
proof -
  have "0 < length (int_text (as_int src))" by (simp add: int_text_def)
  then have "length t \<le> 5 \<Longrightarrow> \<not> length (report_payload src t) < 4 * length t" by (simp add: report_payload_def ascii_parts)
  then show ?thesis using property_report_spec [OF assms] by auto
qed

theorem property_report_buffer_witness:
  "cmd_iote_property_report sample_network_env (Some ([123, 49, 125] @ 0 # [])) 3 7 sample_network = None"
proof -
  have "cmd_iote_property_report sample_network_env (Some ([123, 49, 125] @ 0 # [])) (length [123, 49, 125 :: u8]) 7 sample_network = None"
    by (rule property_report_buffer [THEN conjunct2, THEN mp]) (simp_all add: sample_network_env_def as_int_def)
  then show ?thesis by (simp add: numeral_3_eq_3)
qed

lemma bind_const_None: "Option.bind x (\<lambda>_. None) = None"
  by (cases x) simp_all

lemma unterminated_report:
  assumes "c_text d = None" "report_cmd c" "pm_cmd m = ucast c" "pm_data m = Report (Some d) n src"
  shows "passthrough_case e m s = None"
proof -
  have "cmd_iote_property_report e (Some d) n src s = None" "cmd_iote_state_report e (Some d) src s = None"
    "cmd_iote_request e k (Some d) src s = None" for k
    using assms(1)
    by (simp_all add: cmd_iote_property_report_def cmd_iote_state_report_def cmd_iote_request_def bind_const_None)
  then show ?thesis using assms(2-4)
    by (simp add: passthrough_case_def report_cmd_def Let_def) (elim disjE; simp)
qed

text \<open>C39: A report that arrives in segments is read past its end.  The packet store puts the
  segments together without a terminator, and the network task takes what it got as a
  string: unless a segment happens to hold a zero byte, the round that forwards the report
  reads memory outside of it.\<close>

theorem segmented_report_unterminated:
  assumes "segmented_report h" "n < 256" "uplink_env e a" "a \<notin> fst ` set (packets (logic s))"
    "recv_data_packet_find (packets (logic s)) dev (ucast (packet_num h)) = None"
    "\<And>i. i < n \<Longrightarrow> f i \<noteq> [] \<and> length (f i) \<le> 281" "\<And>i. i < n \<Longrightarrow> 0 \<notin> set (f i)"
    "\<And>i. i < n \<Longrightarrow> coded (segment_header h n i) (f i) (raw i)"
    "set (arrivals @ [l]) = {..<n}" "set arrivals \<noteq> {..<n}" "net_queue (logic s) = []"
  shows "\<exists>s1. run_steps (\<lambda>i. manager_recv_wiota_msg e \<lparr>ri_id = dev, ri_data = raw i\<rparr>) (arrivals @ [l]) (logic s) = Some s1 \<and>
    passthrough_manager_task e' (s\<lparr>logic := s1\<rparr>) = None"
proof -
  let ?d = "concat (map f [0..<n])"
  let ?s1 = "queued (ucast (cmd_type h)) (Report (Some ?d) (length ?d) (src_addr (addr h))) (logic s)"
  have "{} \<subset> {..<n}" using assms(9) by auto
  then have run: "run_steps (\<lambda>i. manager_recv_wiota_msg e \<lparr>ri_id = dev, ri_data = raw i\<rparr>) (arrivals @ [l]) (logic s) = Some ?s1"
    using recv_msg_run [OF assms(5,4,3,1,2,6,8), of "{}" "logic s" arrivals l] assms(9,10) by (simp add: gathered_def)
  have "0 \<notin> set ?d" using assms(7) by auto
  then have "c_text ?d = None" by (auto simp: c_text_def)
  moreover have "report_cmd (cmd_type h)" using assms(1) by (simp add: segmented_report_def)
  ultimately have "passthrough_manager_task e' (s\<lparr>logic := ?s1\<rparr>) = None"
    using assms(11) unterminated_report by (simp add: passthrough_manager_task_def queued_def)
  then show ?thesis using run by blast
qed

theorem segmented_report_unterminated_witness:
  "\<exists>s1. run_steps (\<lambda>i. manager_recv_wiota_msg sample_env \<lparr>ri_id = 0x55, ri_data = sample_raw i\<rparr>) ([1, 1] @ [0]) (logic sample_network) = Some s1 \<and>
    passthrough_manager_task sample_network_env (sample_network\<lparr>logic := s1\<rparr>) = None"
  by (rule segmented_report_unterminated [OF sample_segmented _ sample_uplink _ _ sample_pieces_ok sample_coded sample_arrivals])
    (simp_all add: sample_network_def sample_logic_def recv_data_packet_find_def)

text \<open>Of a message that the MQTT client delivers in several parts nothing arrives: the part
  that completes it has no topic, and reading the topic is a fault.\<close>

theorem chunked_message_faults: "uc_mqtt_msg_process e q topic_name buffer False True s = None"
  by (simp add: uc_mqtt_msg_process_def Let_def split: bind_splits)

end
