(* ===== verification/RequestPath.thy ===== *)
theory RequestPath
  imports Network
begin

text \<open>
  The way of a request of the server through the three tasks: network task (Network), logic
  task (Logic, Downlink), operation task (Frame) and back, one lemma for each stretch.
\<close>

section \<open>Pages that have been settled\<close>

text \<open>What the radio, the timer and the operation task itself do.\<close>

fun transport :: "op_event \<Rightarrow> bool" where
  "transport (Result _ _ _) = True"
| "transport (Timer _) = True"
| "transport (Ota_result _) = True"
| "transport (Round _) = True"
| "transport _ = False"

lemma transport_posts: "transport c \<Longrightarrow> posted_by c = []"
  by (cases c) simp_all

text \<open>No page of an update is about, and the logic task is only told of successes and failures.\<close>

definition settled :: "t_app_operation_data \<Rightarrow> bool" where
  "settled d \<longleftrightarrow> oh_state (od_head d) \<in> {MANAGER_SEND_SUCCESS, MANAGER_SEND_FAIL}"

definition settling :: "op_state \<Rightarrow> bool" where
  "settling s \<longleftrightarrow> (\<forall>d \<in> set (waiting s) \<union> set (send_list s). \<not> manager_ota_remove_cb d) \<and>
     logic_queue s = map LOGIC_SEND_RESULT (reported s) \<and> (\<forall>d \<in> set (reported s). settled d)"

lemma ota_set_state [simp]: "manager_ota_remove_cb (set_state n d) = manager_ota_remove_cb d"
  by (simp add: manager_ota_remove_cb_def set_state_def)

lemma settled_set_state [simp]: "settled (set_state MANAGER_SEND_SUCCESS d)" "settled (set_state MANAGER_SEND_FAIL d)"
  by (simp_all add: settled_def)

lemma send_data_queue [simp]: "logic_queue (send_data d s) = logic_queue s"
  by (simp add: send_data_def)

lemma settling_report:
  assumes "settling s" "send_list s = xs @ d # ys" "settled d'"
  shows "settling (s\<lparr>send_list := xs @ ys, logic_queue := logic_queue s @ [LOGIC_SEND_RESULT d']\<rparr>)"
proof -
  have "waiting (s\<lparr>send_list := xs @ ys, logic_queue := logic_queue s @ [LOGIC_SEND_RESULT d']\<rparr>) = waiting s"
    "reported (s\<lparr>send_list := xs @ ys, logic_queue := logic_queue s @ [LOGIC_SEND_RESULT d']\<rparr>) = reported s @ [d']"
    by (simp_all add: waiting_def reported_def)
  then show ?thesis using assms by (auto simp: settling_def)
qed

lemma settling_result:
  assumes "settling s" "node_ok e" "logic_post e = Queued" "manager_operate_result e r s = Some s'"
  shows "settling s'"
proof (cases "List.extract (query_result_callback (sr_user_id r)) (send_list s)")
  case (Some t)
  obtain xs d ys where t: "t = (xs, d, ys)" by (metis prod_cases3)
  have l: "send_list s = xs @ d # ys" using Some t by (auto simp: extract_Some_iff)
  have "settling ((send_data d s)\<lparr>send_list := set_state k d # xs @ ys\<rparr>)" for k
    using assms(1) l by (auto simp: settling_def)
  then show ?thesis using assms settling_report [OF assms(1) l] Some t
    by (auto simp: manager_operate_result_def Let_def split: if_splits)
qed (use assms in \<open>simp add: manager_operate_result_def\<close>)

lemma settling_case:
  assumes "settling (s\<lparr>operation_queue := m # ms\<rparr>)" "node_ok e" "logic_post e = Queued"
    "manager_operation_case e m (s\<lparr>operation_queue := ms\<rparr>) = Some s'"
  shows "settling s'"
proof -
  let ?s = "s\<lparr>operation_queue := ms\<rparr>"
  have w: "waiting (s\<lparr>operation_queue := m # ms\<rparr>) = pages_of m @ waiting ?s" by (simp add: waiting_def)
  have k: "settling ?s" "\<forall>d \<in> set (pages_of m). \<not> manager_ota_remove_cb d" using assms(1) by (auto simp: settling_def w)
  show ?thesis
  proof (cases m)
    case (OPERATION_MSG_RESULT r)
    then show ?thesis using settling_result [OF k(1) assms(2,3)] assms(4) by simp
  next
    case OPERATION_OTA_RADIO_RESULT
    have "List.extract manager_ota_remove_cb (send_list ?s) = None" using k(1) by (auto simp: settling_def extract_None_iff)
    then show ?thesis using OPERATION_OTA_RADIO_RESULT assms(4) k(1) by (simp add: manager_ota_result_msg_def)
  qed (use assms(2,4) k in \<open>auto simp: settling_def\<close>)
qed

lemma settling_step:
  assumes "settling s" "transport c" "event_ok c" "op_event_step c s = Some s'"
  shows "settling s'"
proof (cases c)
  case (Round e)
  show ?thesis
  proof (cases "task_running s \<and> operation_queue s \<noteq> []")
    case True
    then obtain m ms where q: "operation_queue s = m # ms" by (cases "operation_queue s") auto
    have r: "s\<lparr>operation_queue := m # ms\<rparr> = s" unfolding q [symmetric] by simp
    then show ?thesis using settling_case [where s = s and m = m and ms = ms and e = e and s' = s', unfolded r] assms Round True q by (simp add: manager_operation_round_def)
  qed (use assms Round in \<open>auto simp: manager_operation_round_def split: list.splits\<close>)
qed (use assms in \<open>auto simp: settling_def manager_send_result_def manager_recv_timer_func_def uc_send_radio_ota_callback_def
      to_operation_wiota_data_def split: post_env.splits if_splits\<close>)

lemma settling_run:
  "settling s \<Longrightarrow> \<forall>c \<in> set cs. transport c \<and> event_ok c \<Longrightarrow> run_steps op_event_step cs s = Some s' \<Longrightarrow> settling s'"
proof (induction cs arbitrary: s)
  case (Cons c cs)
  then show ?case using settling_step [of s c] by (auto simp: bind_eq_Some_conv)
qed simp

section \<open>Rounds of the logic task\<close>

definition with_task :: "op_state \<Rightarrow> logic_state \<Rightarrow> logic_state" where
  "with_task t s = s\<lparr>op_task := t\<rparr>"

lemma response_task:
  "manager_response_message_result e r n (with_task t s) = map_option (with_task t) (manager_response_message_result e r n s)"
  by (simp add: manager_response_message_result_def manager_send_data_logic_to_net_def to_network_data_def with_task_def c_assert_def
      split: net_env.splits)

lemma with_task_frame [simp]:
  "blocks (with_task t s) = blocks s" "(with_task t s)\<lparr>blocks := b\<rparr> = with_task t (s\<lparr>blocks := b\<rparr>)"
  by (simp_all add: with_task_def)

lemma network_result_task:
  "manager_network_to_wiota_result e d (with_task t s) = map_option (with_task t) (manager_network_to_wiota_result e d s)"
proof (cases "od_segment d")
  case (Some a)
  then show ?thesis
    by (cases "blocks s a") (auto simp: manager_network_to_wiota_result_def Let_def response_task map_option_bind bind_map_option comp_def)
qed (simp add: manager_network_to_wiota_result_def Let_def response_task)

lemma logic_rounds:
  assumes "\<forall>r \<in> set rs. oh_result_function (od_head r) = RESULT_NETWORK" "logic_queue t = map LOGIC_SEND_RESULT rs"
  shows "run_steps manager_wiota_task (replicate (length rs) e) (with_task t s) =
    map_option (with_task (t\<lparr>logic_queue := []\<rparr>)) (run_steps (manager_network_to_wiota_result (le_send e 0 0)) rs s)"
  using assms
proof (induction rs arbitrary: t s)
  case Nil
  then have "t\<lparr>logic_queue := []\<rparr> = t" by simp
  then show ?case by simp
next
  case (Cons r rs)
  let ?t = "t\<lparr>logic_queue := map LOGIC_SEND_RESULT rs\<rparr>"
  have "manager_wiota_task e (with_task t s) = manager_network_to_wiota_result (le_send e 0 0) r (with_task ?t s)"
    using Cons.prems by (simp add: manager_wiota_task_def result_function_def with_task_def Let_def)
  then have step: "manager_wiota_task e (with_task t s) = map_option (with_task ?t) (manager_network_to_wiota_result (le_send e 0 0) r s)"
    by (simp add: network_result_task)
  show ?case
  proof (cases "manager_network_to_wiota_result (le_send e 0 0) r s")
    case (Some s')
    have "run_steps manager_wiota_task (replicate (length rs) e) (with_task ?t s') =
        map_option (with_task (?t\<lparr>logic_queue := []\<rparr>)) (run_steps (manager_network_to_wiota_result (le_send e 0 0)) rs s')"
      by (rule Cons.IH) (use Cons.prems in simp_all)
    then show ?thesis using step Some by simp
  qed (use step in simp)
qed

section \<open>The way of a request\<close>

text \<open>The tree of a request for one device.\<close>

definition request_tree :: "u32 \<Rightarrow> u32 \<Rightarrow> cjson \<Rightarrow> cjson" where
  "request_tree a c v = CObject [(''params'', CObject
     [(''dest_address'', CNumber (of_int (uint a))), (''cmd'', CNumber (of_int (uint c))), (''data'', v)])]"

definition unicast_cmd :: "u32 \<Rightarrow> bool" where
  "unicast_cmd c \<longleftrightarrow> c \<in> {APP_CMD_NET_PAIR_RESPONSE, APP_CMD_NET_PAIR_CANCEL, APP_CMD_NET_CTRL_IOTE, APP_CMD_NET_MUTICAST_ASSIGNMENT}"

lemma to_address_uint: "to_address (Some (CNumber (of_int (uint a)))) = Some a"
proof -
  have "(0 :: rat) \<le> of_int (uint a)" by (simp del: of_int_uint)
  then have "(-1 :: rat) < of_int (uint a)" by linarith
  moreover have "uint a < 2 ^ 32" using uint_lt2p [of a] by simp
  then have "(of_int (uint a) :: rat) < of_int (2 ^ 32)" by (simp only: of_int_less_iff)
  then have "(of_int (uint a) :: rat) < 2 ^ 32" by (simp only: of_int_power of_int_numeral)
  ultimately show ?thesis by (simp add: to_address_def c_assert_def word_of_int_uint del: of_int_uint)
qed

lemma unicast_cmd_small: "unicast_cmd c \<Longrightarrow> uint c < 128"
  by (auto simp: unicast_cmd_def APP_CMD_NET_PAIR_RESPONSE_def APP_CMD_NET_PAIR_CANCEL_def APP_CMD_NET_CTRL_IOTE_def APP_CMD_NET_MUTICAST_ASSIGNMENT_def)

lemma int_value_int:
  assumes "0 \<le> i" "i < 128"
  shows "int_value (of_int i) = i"
proof -
  have "(0 :: rat) \<le> of_int i" "\<not> 2 ^ 31 - 1 \<le> (of_int i :: rat)" using assms by simp_all
  moreover from this(1) have "\<not> (of_int i :: rat) \<le> - (2 ^ 31)" "\<not> (of_int i :: rat) < 0" by simp_all
  ultimately show ?thesis unfolding int_value_def by (simp only: if_False floor_of_int)
qed

lemma request_parsed:
  assumes "ne_alloc e 0" "ne_alloc e 1" "unicast_cmd c"
  shows "parse_mqtt_payload e (request_tree a c v) n =
    Some (Some \<lparr>dest_len = 4, dest_address = Some [a], nm_cmd = c, request_number = of_int n, json_data = ne_print e v\<rparr>)"
proof -
  have "int_value (of_int (uint c)) = uint c"
    by (rule int_value_int) (use unicast_cmd_small [OF assms(3)] in simp_all)
  then show ?thesis using assms(1,2)
    by (simp add: parse_mqtt_payload_def request_tree_def cJSON_GetObjectItemCaseSensitive_def parse_destinations_def to_address_uint c_assert_def word_of_int_uint del: of_int_uint)
qed

definition request_message :: "int \<Rightarrow> u32 \<Rightarrow> u32 \<Rightarrow> bytes \<Rightarrow> t_from_network_message" where
  "request_message n a c d = \<lparr>dest_len = 4, dest_address = Some [a], nm_cmd = c, request_number = of_int n, json_data = Some d\<rparr>"

lemma request_message_simps [simp]:
  "dest_len (request_message n a c d) = 4" "dest_address (request_message n a c d) = Some [a]" "nm_cmd (request_message n a c d) = c"
  "request_number (request_message n a c d) = of_int n" "json_data (request_message n a c d) = Some d"
  by (simp_all add: request_message_def)

text \<open>No message waits anywhere and no page is in flight.\<close>

definition idle :: "logic_state \<Rightarrow> bool" where
  "idle s \<longleftrightarrow> net_queue s = [] \<and> logic_queue (op_task s) = [] \<and> operation_queue (op_task s) = [] \<and> send_list (op_task s) = [] \<and> radio (op_task s) = []"

text \<open>From the topic of the request to the queue of the logic task.\<close>

lemma request_forwarded:
  assumes "- (2 ^ 31) < n" "n < 2 ^ 31" "\<And>k. ne_alloc e k" "ne_post e = Queued" "net_queue (logic s) = []"
    "0 \<notin> set body" "length body \<le> MQTT_PAYLOAD_MAX_LENGTH" "ne_parse e body = Some (request_tree a c v)" "ne_print e v = Some d" "unicast_cmd c"
  shows "\<exists>s1. uc_mqtt_msg_process e Net_queued (TOPIC_REQUEST @ int_text n) body True True s = Some s1 \<and>
    passthrough_manager_task e s1 = Some (s\<lparr>logic := (logic s)\<lparr>op_task := (op_task (logic s))\<lparr>logic_queue :=
      logic_queue (op_task (logic s)) @ [LOGIC_FROM_NETWORK_MESSAGE (request_message n a c d)]\<rparr>\<rparr>\<rparr>)"
proof -
  let ?s1 = "s\<lparr>logic := queued MANAGER_LOGIC_MQTT_REQUEST (Request n (body @ [0])) (logic s)\<rparr>"
  have "uc_mqtt_msg_process e Net_queued (TOPIC_REQUEST @ int_text n) body True True s = Some ?s1"
    using request_id [OF assms(1,2,3), of body s] assms(7) by simp
  moreover have t: "c_text (body @ [0]) = Some body" using assms(6) c_text_simp [of body "[]"] by simp
  have r: "(logic s)\<lparr>net_queue := []\<rparr> = logic s" "s\<lparr>logic := logic s\<rparr> = s" using assms(5) by simp_all
  have "passthrough_manager_task e ?s1 = cmd_mqtt_request_or_response e MANAGER_LOGIC_MQTT_REQUEST n (body @ [0]) s"
    using assms(5) by (simp add: r passthrough_manager_task_def passthrough_case_def queued_def Let_def MANAGER_LOGIC_MQTT_REQUEST_def
        APP_CMD_AP_PROPERTY_REPORT_def APP_CMD_IOTE_REQUEST_NEW_CONFIG_def WIOTA_AP_REQUEST_RESERVE_ADDR_def
        APP_CMD_IOTE_PROPERTY_REPORT_def APP_CMD_IOTE_STATE_REPORT_def APP_CMD_IOTE_PAIR_REQUEST_def
        APP_CMD_UPDATE_VERSION_REQUEST_def APP_CMD_IOTE_MUTICAST_REQUEST_def)
  moreover have "cmd_mqtt_request_or_response e MANAGER_LOGIC_MQTT_REQUEST n (body @ [0]) s =
     Some (s\<lparr>logic := (logic s)\<lparr>op_task := (op_task (logic s))\<lparr>logic_queue :=
      logic_queue (op_task (logic s)) @ [LOGIC_FROM_NETWORK_MESSAGE (request_message n a c d)]\<rparr>\<rparr>\<rparr>)"
    using assms(3,4,8-10) t request_parsed [of e c a v n]
    by (simp add: cmd_mqtt_request_or_response_def MANAGER_LOGIC_MQTT_REQUEST_def MANAGER_LOGIC_MQTT_RESPONSE_def
        to_queue_logic_data_def request_message_def)
  ultimately show ?thesis by auto
qed

text \<open>From the queue of the logic task to the queue of the operation task.\<close>

lemma request_posted:
  assumes "\<And>k j. send_ok (le_send e k j)" "\<not> is_broadcast a" "d \<noteq> []" "le_block e 0 = Some blk"
    "manager_query_wiotaid (le_cfg e) a (ids s) = Some wid" "unicast_cmd c"
    "logic_queue (op_task s) = [LOGIC_FROM_NETWORK_MESSAGE (request_message n a c d)]"
  shows "manager_wiota_task e s =
    Some (posting (message_pages (request_message n a c d) a wid blk d) (with_block blk d (s\<lparr>op_task := (op_task s)\<lparr>logic_queue := []\<rparr>\<rparr>)))"
proof -
  let ?s = "s\<lparr>op_task := (op_task s)\<lparr>logic_queue := []\<rparr>\<rparr>"
  have "send_to_destination e (request_message n a c d) 0 a ?s =
      Some (posting (message_pages (request_message n a c d) a wid blk d) (with_block blk d ?s))"
    by (rule send_unicast) (use assms in simp_all)
  then show ?thesis
    using assms(6,7) by (simp add: manager_wiota_task_def manager_net_data_logic_def unicast_cmd_def manager_send_msg_to_wiota_def c_assert_def)
qed

text \<open>From the queue of the operation task to the answer.\<close>

lemma message_pages_fresh:
  "x \<in> set (message_pages m a wid blk d) \<Longrightarrow>
    oh_state (od_head x) = MANAGER_SEND_DEFAULT \<and> oh_result_function (od_head x) = RESULT_NETWORK \<and> oh_cmd (od_head x) = ucast (ucast (nm_cmd m) :: u8)"
proof -
  have "x \<in> set (segment_pages number wid blk h ds) \<Longrightarrow>
    oh_state (od_head x) = MANAGER_SEND_DEFAULT \<and> oh_result_function (od_head x) = RESULT_NETWORK \<and> oh_cmd (od_head x) = ucast (cmd_type h)" for number h ds
    by (induction ds arbitrary: h) (auto simp: downlink_page_def operation_page_def)
  then show "x \<in> set (message_pages m a wid blk d) \<Longrightarrow> ?thesis"
    by (auto simp: message_pages_def downlink_page_def operation_page_def downlink_header_def split: if_splits)
qed

lemma pages_settled:
  assumes "operation_queue t = map OPERATION_MSG ds" "logic_queue t = []" "send_list t = []" "radio t = []"
    "\<forall>x \<in> set ds. oh_state (od_head x) = MANAGER_SEND_DEFAULT \<and> oh_result_function (od_head x) = RESULT_NETWORK \<and> oh_cmd (od_head x) \<noteq> APP_CMD_GET_SPECIFIC_DATA_SPONSE"
    "\<forall>c \<in> set cs. transport c \<and> event_ok c"
  shows "\<exists>t'. run_steps op_event_step cs t = Some t' \<and> logic_queue t' = map LOGIC_SEND_RESULT (reported t') \<and>
    (\<forall>r \<in> set (reported t'). settled r \<and> oh_result_function (od_head r) = RESULT_NETWORK) \<and>
    (waiting t' = [] \<and> send_list t' = [] \<longrightarrow> pages (reported t') = pages ds)"
proof -
  have w: "waiting t = ds" using assms(1) by (simp add: waiting_def comp_def)
  have "accounted t ds" using assms(2-5) by (simp add: accounted_def w reported_def transmissions_def)
  then obtain t' where r: "run_steps op_event_step cs t = Some t'" "accounted t' (ds @ concat (map posted_by cs))"
    using ops.run_total [of t ds cs] assms(6) by (auto simp: fold_append)
  have n: "concat (map posted_by cs) = []" using assms(6) by (simp add: transport_posts)
  have t': "run_steps op_event_step cs t = Some t'" "accounted t' ds" using r unfolding n by simp_all
  have "settling t" using assms(2,3,5) by (simp add: settling_def w reported_def manager_ota_remove_cb_def)
  then have k: "settling t'" using settling_run t'(1) assms(6) by blast
  have "oh_result_function (od_head r) = RESULT_NETWORK" if "r \<in> set (reported t')" for r
  proof -
    have "set_state 0 r \<in># pages ds" using t'(2) that by (auto simp: accounted_def pages_def MANAGER_SEND_DEFAULT_def)
    then obtain x where "x \<in> set ds" "set_state 0 r = set_state 0 x" by (auto simp: pages_def MANAGER_SEND_DEFAULT_def)
    moreover have "oh_result_function (od_head (set_state 0 y)) = oh_result_function (od_head y)" for y by (simp add: set_state_def)
    ultimately show ?thesis using assms(5) by metis
  qed
  then show ?thesis using t' k by (auto simp: settling_def accounted_def)
qed

lemma request_cmd:
  assumes "unicast_cmd c"
  shows "ucast (ucast c :: u8) \<noteq> APP_CMD_GET_SPECIFIC_DATA_SPONSE"
  using assms
  by (auto simp: unicast_cmd_def APP_CMD_NET_PAIR_RESPONSE_def APP_CMD_NET_PAIR_CANCEL_def APP_CMD_NET_CTRL_IOTE_def
      APP_CMD_NET_MUTICAST_ASSIGNMENT_def APP_CMD_GET_SPECIFIC_DATA_SPONSE_def)

text \<open>From the results to the topic of the answer.\<close>

lemma answer_published:
  assumes "- (2 ^ 31) < n" "n < 2 ^ 31" "n \<noteq> 0" "ne_alloc e 0"
    "net_queue (logic s) = [\<lparr>pm_cmd = MANAGER_LOGIC_MQTT_EXE_RESPONSE, pm_data = Response (of_int n) r\<rparr>]"
  shows "passthrough_manager_task e s =
    Some (uc_mqtt_publish (TOPIC_PLATFORM_RESPONSE @ int_text n) (if r = MANAGER_SEND_SUCCESS then res_ok else res_err)
      (s\<lparr>logic := (logic s)\<lparr>net_queue := []\<rparr>\<rparr>))"
proof -
  have i: "as_int (of_int n) = n" using as_int_of_int assms(1,2) by simp
  then have "(of_int n :: u32) \<noteq> 0" using assms(3) by (auto simp: as_int_def)
  moreover have "passthrough_manager_task e s = cm_mqtt_exe_response e (of_int n) r (s\<lparr>logic := (logic s)\<lparr>net_queue := []\<rparr>\<rparr>)"
    using assms(5) by (simp add: passthrough_manager_task_def passthrough_case_def Let_def MANAGER_LOGIC_MQTT_EXE_RESPONSE_def
        MANAGER_LOGIC_MQTT_REQUEST_def MANAGER_LOGIC_MQTT_RESPONSE_def
        APP_CMD_AP_PROPERTY_REPORT_def APP_CMD_IOTE_REQUEST_NEW_CONFIG_def WIOTA_AP_REQUEST_RESERVE_ADDR_def
        APP_CMD_IOTE_PROPERTY_REPORT_def APP_CMD_IOTE_STATE_REPORT_def APP_CMD_IOTE_PAIR_REQUEST_def
        APP_CMD_UPDATE_VERSION_REQUEST_def APP_CMD_IOTE_MUTICAST_REQUEST_def)
  ultimately show ?thesis
    using response_topic [of "of_int n" e r] assms(1,4) i by simp
qed

section \<open>Samples\<close>

definition sample_request_env :: network_env where
  "sample_request_env = \<lparr>ne_print = \<lambda>_. Some [65, 66], ne_parse = \<lambda>_. Some (request_tree 7 APP_CMD_NET_CTRL_IOTE CNull),
     ne_alloc = \<lambda>_. True, ne_post = Queued\<rparr>"

definition sample_transport :: "op_event list" where
  "sample_transport = [Round \<lparr>node_ok = True, logic_post = Queued\<rparr>,
     Result True Queued \<lparr>sr_user_id = 7, sr_data_id = 0, sr_result = UC_OP_SUCC\<rparr>, Round \<lparr>node_ok = True, logic_post = Queued\<rparr>]"

lemma sample_transport_ok: "\<forall>c \<in> set sample_transport. transport c \<and> event_ok c"
  by (simp add: sample_transport_def)

lemma sample_transport_run:
  assumes "operation_queue t = [OPERATION_MSG p]" "send_list t = []" "logic_queue t = []" "oh_id (od_head p) = 7" "task_running t"
  shows "\<exists>t'. run_steps op_event_step sample_transport t = Some t' \<and> waiting t' = [] \<and> send_list t' = [] \<and>
    reported t' = [set_state MANAGER_SEND_SUCCESS p]"
  using assms
  by (simp add: sample_transport_def manager_operation_round_def manager_send_result_def to_operation_wiota_data_def
      manager_operate_result_def send_data_def extract_Cons_code query_result_callback_def waiting_def reported_def UC_OP_SUCC_def)

end
